(* ===== verification/Prelude.thy ===== *)
theory Prelude
  imports Main "HOL-Library.Word"
begin

text \<open>
  What every component of the development shares: the ways the program can stop without
  a value, the state monad with failure in which its effectful functions are written, the
  two judgements about monadic programs (\<open>post\<close> for "if it returns", \<open>ok\<close> for
  "it returns and"), the runtime state of the process (the C random generator, the object
  allocator, the static counters), and the C++ containers \<open>std::map\<close> and
  \<open>std::set\<close> as ordered lists with the laws their clients use.
\<close>

named_theorems m_simps \<open>unfolding rules of the monad, all conditional-free\<close>
named_theorems m_eval \<open>evaluation of the monad at a state\<close>
named_theorems om_simps \<open>laws of the ordered containers\<close>

section \<open>Failure\<close>

text \<open>
  Every way in which a call of the program ends without returning: a failed
  \<open>assert\<close> (asserts are compiled in: the build files replace the release flags, so
  \<open>NDEBUG\<close> is never set), a failed GSL contract, a dereferenced null pointer,
  \<open>std::get\<close> on the wrong alternative, \<open>std::stoi\<close>'s two exceptions, a
  division or remainder by zero, a read outside a vector, an exception of the YAML library or of
  \<open>std::filesystem\<close>.
  \<open>Out_of_fuel\<close> is no behaviour of the program: it is the result of a bounded model
  function whose bound was too small, and the development proves that it does not occur.
\<close>

datatype error =
    Assert_failed
  | Contract_failed
  | Null_dereference
  | Bad_variant_access
  | Stoi_invalid_argument
  | Stoi_out_of_range
  | Division_by_zero
  | Index_out_of_range
  | Yaml_exception
  | Filesystem_error
  | Out_of_fuel

section \<open>The state monad with failure\<close>

type_synonym ('s, 'a) M = "'s \<Rightarrow> error + ('a \<times> 's)"

definition return :: "'a \<Rightarrow> ('s, 'a) M" where
  "return x = (\<lambda>s. Inr (x, s))"

definition throw :: "error \<Rightarrow> ('s, 'a) M" where
  "throw e = (\<lambda>s. Inl e)"

definition bnd :: "('s, 'a) M \<Rightarrow> ('a \<Rightarrow> ('s, 'b) M) \<Rightarrow> ('s, 'b) M" where
  "bnd m f = (\<lambda>s. case m s of Inl e \<Rightarrow> Inl e | Inr (x, s') \<Rightarrow> f x s')"

definition gets :: "('s \<Rightarrow> 'a) \<Rightarrow> ('s, 'a) M" where
  "gets f = (\<lambda>s. Inr (f s, s))"

definition modify :: "('s \<Rightarrow> 's) \<Rightarrow> ('s, unit) M" where
  "modify f = (\<lambda>s. Inr ((), f s))"

definition require :: "error \<Rightarrow> bool \<Rightarrow> ('s, unit) M" where
  "require e b = (if b then return () else throw e)"

definition lift_result :: "error + 'a \<Rightarrow> ('s, 'a) M" where
  "lift_result r = (case r of Inl e \<Rightarrow> throw e | Inr x \<Rightarrow> return x)"

primrec foldM :: "('a \<Rightarrow> 'b \<Rightarrow> ('s, 'b) M) \<Rightarrow> 'a list \<Rightarrow> 'b \<Rightarrow> ('s, 'b) M" where
  "foldM f [] b = return b"
| "foldM f (x # xs) b = bnd (f x b) (foldM f xs)"

definition mapM :: "('a \<Rightarrow> ('s, 'b) M) \<Rightarrow> 'a list \<Rightarrow> ('s, 'b list) M" where
  "mapM f xs = foldM (\<lambda>x ys. bnd (f x) (\<lambda>y. return (ys @ [y]))) xs []"

lemma return_apply [m_eval]: "return x s = Inr (x, s)"
  by (simp add: return_def)

lemma throw_apply [m_eval]: "throw e s = Inl e"
  by (simp add: throw_def)

lemma gets_apply [m_eval]: "gets f s = Inr (f s, s)"
  by (simp add: gets_def)

lemma modify_apply [m_eval]: "modify f s = Inr ((), f s)"
  by (simp add: modify_def)

lemma require_apply [m_eval]: "require e b s = (if b then Inr ((), s) else Inl e)"
  by (simp add: require_def m_eval)

lemma lift_result_apply [m_eval]:
  "lift_result (Inl e) s = Inl e" "lift_result (Inr x) s = Inr (x, s)"
  by (simp_all add: lift_result_def m_eval)

lemma bnd_Inl [m_eval]: "m s = Inl e \<Longrightarrow> bnd m f s = Inl e"
  by (simp add: bnd_def)

lemma bnd_Inr [m_eval]: "m s = Inr (x, s') \<Longrightarrow> bnd m f s = f x s'"
  by (simp add: bnd_def)

lemma bnd_eq_Inr_iff:
  "bnd m f s = Inr r \<longleftrightarrow> (\<exists>x s'. m s = Inr (x, s') \<and> f x s' = Inr r)"
  by (auto simp: bnd_def split: sum.splits prod.splits)

lemma bnd_assoc: "bnd (bnd m f) g = bnd m (\<lambda>x. bnd (f x) g)"
  by (rule ext) (simp add: bnd_def split: sum.splits prod.splits)

lemma bnd_return: "bnd (return x) f = f x"
  by (rule ext) (simp add: bnd_def m_eval)

lemma bnd_throw: "bnd (throw e) f = throw e"
  by (rule ext) (simp add: bnd_def m_eval)

lemma bnd_if: "bnd (if b then m else m') f = (if b then bnd m f else bnd m' f)"
  by simp

lemma bnd_cong [fundef_cong]:
  assumes "m = m'" and "\<And>x. f x = f' x"
  shows "bnd m f = bnd m' f'"
proof -
  from assms(2) have "f = f'" by (rule ext)
  with assms(1) show ?thesis by simp
qed

subsection \<open>Partial and total judgements\<close>

definition post :: "('s, 'a) M \<Rightarrow> 's \<Rightarrow> ('a \<Rightarrow> 's \<Rightarrow> bool) \<Rightarrow> bool" where
  "post m s Q \<longleftrightarrow> (case m s of Inl _ \<Rightarrow> True | Inr (x, s') \<Rightarrow> Q x s')"

definition ok :: "('s, 'a) M \<Rightarrow> 's \<Rightarrow> ('a \<Rightarrow> 's \<Rightarrow> bool) \<Rightarrow> bool" where
  "ok m s Q \<longleftrightarrow> (case m s of Inl _ \<Rightarrow> False | Inr (x, s') \<Rightarrow> Q x s')"

lemma post_return [m_simps]: "post (return x) s Q = Q x s"
  by (simp add: post_def m_eval)

lemma post_throw [m_simps]: "post (throw e) s Q"
  by (simp add: post_def m_eval)

lemma post_gets [m_simps]: "post (gets f) s Q = Q (f s) s"
  by (simp add: post_def m_eval)

lemma post_modify [m_simps]: "post (modify f) s Q = Q () (f s)"
  by (simp add: post_def m_eval)

lemma post_require [m_simps]: "post (require e b) s Q = (b \<longrightarrow> Q () s)"
  by (simp add: post_def m_eval)

lemma post_bnd [m_simps]: "post (bnd m f) s Q = post m s (\<lambda>x s'. post (f x) s' Q)"
  by (simp add: post_def bnd_def split: sum.splits prod.splits)

lemma post_if [m_simps]: "post (if b then m else m') s Q = (if b then post m s Q else post m' s Q)"
  by simp

lemma post_mono: "post m s P \<Longrightarrow> (\<And>x s'. P x s' \<Longrightarrow> Q x s') \<Longrightarrow> post m s Q"
  by (auto simp: post_def split: sum.splits)

lemma post_Inr: "post m s Q \<Longrightarrow> m s = Inr (x, s') \<Longrightarrow> Q x s'"
  by (simp add: post_def)

lemma post_conj: "post m s P \<Longrightarrow> post m s Q \<Longrightarrow> post m s (\<lambda>x s'. P x s' \<and> Q x s')"
  by (auto simp: post_def split: sum.splits)

lemma post_True: "post m s (\<lambda>_ _. True)"
  by (simp add: post_def split: sum.split)

lemma ok_return [m_simps]: "ok (return x) s Q = Q x s"
  by (simp add: ok_def m_eval)

lemma ok_throw [m_simps]: "ok (throw e) s Q = False"
  by (simp add: ok_def m_eval)

lemma ok_gets [m_simps]: "ok (gets f) s Q = Q (f s) s"
  by (simp add: ok_def m_eval)

lemma ok_modify [m_simps]: "ok (modify f) s Q = Q () (f s)"
  by (simp add: ok_def m_eval)

lemma ok_require [m_simps]: "ok (require e b) s Q = (b \<and> Q () s)"
  by (simp add: ok_def m_eval)

lemma ok_bnd [m_simps]: "ok (bnd m f) s Q = ok m s (\<lambda>x s'. ok (f x) s' Q)"
  by (simp add: ok_def bnd_def split: sum.splits prod.splits)

lemma bnd_gets_ok: "ok (bnd (gets f) g) s Q = ok (g (f s)) s Q"
  by (simp add: ok_def bnd_def gets_def)

lemma ok_mono: "ok m s P \<Longrightarrow> (\<And>x s'. P x s' \<Longrightarrow> Q x s') \<Longrightarrow> ok m s Q"
  by (auto simp: ok_def split: sum.splits)

lemma ok_post: "ok m s Q \<Longrightarrow> post m s Q"
  by (auto simp: ok_def post_def split: sum.splits)

lemma ok_Inr_iff: "ok m s Q \<longleftrightarrow> (\<exists>x s'. m s = Inr (x, s') \<and> Q x s')"
  by (auto simp: ok_def split: sum.splits)

text \<open>The invariant rule of a loop over a list: \<open>I\<close> holds of what is done so far.\<close>

lemma post_foldM:
  assumes "I b s"
    and "\<And>x b s. x \<in> set xs \<Longrightarrow> I b s \<Longrightarrow> post (f x b) s I"
  shows "post (foldM f xs b) s I"
  using assms
proof (induction xs arbitrary: b s)
  case Nil
  then show ?case by (simp add: post_return)
next
  case (Cons x xs)
  have "post (f x b) s I" using Cons.prems by simp
  then show ?case
    by (auto simp: post_bnd intro!: Cons.IH Cons.prems(2) elim!: post_mono)
qed

lemma ok_foldM:
  assumes "I b s"
    and "\<And>x b s. x \<in> set xs \<Longrightarrow> I b s \<Longrightarrow> ok (f x b) s I"
  shows "ok (foldM f xs b) s I"
  using assms
proof (induction xs arbitrary: b s)
  case Nil
  then show ?case by (simp add: ok_return)
next
  case (Cons x xs)
  have "ok (f x b) s I" using Cons.prems by simp
  then show ?case
    by (auto simp: ok_bnd intro!: Cons.IH Cons.prems(2) elim!: ok_mono)
qed

lemma foldM_append: "foldM f (xs @ ys) b = bnd (foldM f xs b) (foldM f ys)"
proof (induction xs arbitrary: b)
  case Nil
  show ?case by (rule ext) (simp add: bnd_def m_eval)
next
  case (Cons x xs)
  have "foldM f (xs @ ys) = (\<lambda>b. bnd (foldM f xs b) (foldM f ys))"
    by (rule ext) (rule Cons.IH)
  then show ?case by (simp add: bnd_assoc)
qed

section \<open>Which errors\<close>

text \<open>\<open>only E m s Q\<close>: \<open>m\<close> returns with \<open>Q\<close> or stops with one of the errors in \<open>E\<close>.\<close>

definition only :: "error set \<Rightarrow> ('s, 'a) M \<Rightarrow> 's \<Rightarrow> ('a \<Rightarrow> 's \<Rightarrow> bool) \<Rightarrow> bool" where
  "only E m s Q \<longleftrightarrow> (case m s of Inl e \<Rightarrow> e \<in> E | Inr (x, s') \<Rightarrow> Q x s')"

lemma only_return: "only E (return x) s Q = Q x s"
  by (simp add: only_def m_eval)

lemma only_throw: "only E (throw e) s Q = (e \<in> E)"
  by (simp add: only_def m_eval)

lemma only_gets: "only E (gets f) s Q = Q (f s) s"
  by (simp add: only_def m_eval)

lemma only_modify: "only E (modify f) s Q = Q () (f s)"
  by (simp add: only_def m_eval)

lemma only_require: "only E (require e b) s Q = (if b then Q () s else e \<in> E)"
  by (simp add: only_def m_eval)

lemma only_bnd: "only E (bnd m f) s Q = only E m s (\<lambda>x s'. only E (f x) s' Q)"
  by (simp add: only_def bnd_def split: sum.splits prod.splits)

lemmas only_simps = only_return only_throw only_gets only_modify only_require only_bnd

lemma only_mono: "only E m s P \<Longrightarrow> (\<And>x s'. P x s' \<Longrightarrow> Q x s') \<Longrightarrow> only E m s Q"
  by (auto simp: only_def split: sum.splits)

lemma only_ok: "ok m s Q \<Longrightarrow> only E m s Q"
  by (auto simp: only_def ok_def split: sum.splits)

lemma only_foldM:
  assumes "I b s" and "\<And>x b s. x \<in> set xs \<Longrightarrow> I b s \<Longrightarrow> only E (f x b) s I"
  shows "only E (foldM f xs b) s I"
  using assms
proof (induction xs arbitrary: b s)
  case Nil
  then show ?case by (simp add: only_simps)
next
  case (Cons x xs)
  have "only E (f x b) s I" using Cons.prems by simp
  then show ?case
    by (auto simp: only_simps intro!: Cons.IH Cons.prems(2) elim!: only_mono)
qed

lemma only_post: "only E m s P \<Longrightarrow> post m s Q \<Longrightarrow> only E m s (\<lambda>x s'. P x s' \<and> Q x s')"
  by (auto simp: only_def post_def split: sum.splits)

lemma only_UNIV: "only UNIV m s Q = post m s Q"
  by (simp add: only_def post_def split: sum.split)

lemma only_empty: "only {} m s Q = ok m s Q"
  by (simp add: only_def ok_def split: sum.split)

lemma only_subset: "only E m s Q \<Longrightarrow> E \<subseteq> E' \<Longrightarrow> only E' m s Q"
  by (auto simp: only_def split: sum.splits)

section \<open>The process: random numbers, allocation, static counters\<close>

text \<open>
  \<open>rt_rand\<close> is the stream of values that \<open>rand()\<close> will return and \<open>rt_pos\<close>
  how many were taken; \<open>rt_next\<close> is the identity the next allocated IR node gets (two
  pointers are equal when they carry the same identity); \<open>rt_id_counter\<close> is the static
  \<open>id_counter\<close> of ir.cpp and \<open>rt_name_counter\<close> the static \<open>g_id_counter\<close>
  of utils.cpp, both \<open>unsigned long\<close>. \<open>rt_listener_error\<close> and \<open>rt_parse_counter\<close> are the
  statics of the translator: the error flag of its listener and the number of parses since the
  parser's caches were last dropped. The constructors leave some members
  uninitialised; \<open>rt_junk_scope\<close> and \<open>rt_junk_stmt\<close> say what the memory of the
  node with a given identity happens to hold there.
\<close>

record runtime =
  rt_rand :: "nat \<Rightarrow> nat"
  rt_pos :: nat
  rt_next :: nat
  rt_id_counter :: "64 word"
  rt_name_counter :: "64 word"
  rt_listener_error :: bool
  rt_parse_counter :: nat
  rt_junk_scope :: "nat \<Rightarrow> 64 word"
  rt_junk_stmt :: "nat \<Rightarrow> 64 word"

text \<open>A concrete state for examples.\<close>

definition demo_runtime :: runtime where
  "demo_runtime = \<lparr>rt_rand = (\<lambda>n. n), rt_pos = 0, rt_next = 0, rt_id_counter = 0, rt_name_counter = - 1,
     rt_listener_error = False, rt_parse_counter = 0, rt_junk_scope = (\<lambda>_. 0), rt_junk_stmt = (\<lambda>_. 0)\<rparr>"

text \<open>\<open>rand()\<close> of the GNU C library returns values up to \<open>RAND_MAX = 2 ^ 31 - 1\<close>.\<close>

definition c_rand :: "('z runtime_scheme, nat) M" where
  "c_rand = (\<lambda>s. Inr (rt_rand s (rt_pos s) mod 2 ^ 31, s\<lparr>rt_pos := Suc (rt_pos s)\<rparr>))"

text \<open>The macro \<open>get_rand_int(range)\<close> of utils.h: \<open>rand() % (range)\<close>.\<close>

definition get_rand_int :: "nat \<Rightarrow> ('z runtime_scheme, nat) M" where
  "get_rand_int rng =
     (if rng = 0 then throw Division_by_zero
      else bnd c_rand (\<lambda>r. return (r mod rng)))"

text \<open>\<open>random_pick\<close> advances a begin iterator by \<open>rand() % size\<close>; containers are
  given here as the list of their elements in iteration order.\<close>

definition random_pick :: "'a list \<Rightarrow> ('z runtime_scheme, 'a) M" where
  "random_pick cc = bnd (get_rand_int (length cc)) (\<lambda>i. return (cc ! i))"

text \<open>The macro \<open>vector_rand_ele\<close>: a random element of a vector.\<close>

definition vector_rand_ele :: "'a list \<Rightarrow> ('z runtime_scheme, 'a) M" where
  "vector_rand_ele a = bnd (get_rand_int (length a)) (\<lambda>i. return (a ! i))"

text \<open>Everything of the state but the position in the random stream.\<close>

definition same_but_rand :: "'z runtime_scheme \<Rightarrow> 'z runtime_scheme \<Rightarrow> bool" where
  "same_but_rand s s' \<longleftrightarrow> s'\<lparr>rt_pos := 0\<rparr> = s\<lparr>rt_pos := 0\<rparr>"

lemma same_but_rand_refl [simp]: "same_but_rand s s"
  by (simp add: same_but_rand_def)

lemma same_but_rand_trans [trans]:
  "same_but_rand s s' \<Longrightarrow> same_but_rand s' s'' \<Longrightarrow> same_but_rand s s''"
  by (simp add: same_but_rand_def)

lemma same_but_rand_upd [simp]: "same_but_rand s (s\<lparr>rt_pos := n\<rparr>)"
  by (simp add: same_but_rand_def)

lemma ok_c_rand: "ok c_rand s (\<lambda>r s'. r < 2 ^ 31 \<and> s' = s\<lparr>rt_pos := Suc (rt_pos s)\<rparr>)"
  by (simp add: ok_def c_rand_def)

lemma get_rand_int_apply:
  "0 < n \<Longrightarrow> get_rand_int n s =
     Inr (rt_rand s (rt_pos s) mod 2 ^ 31 mod n, s\<lparr>rt_pos := Suc (rt_pos s)\<rparr>)"
  by (simp add: get_rand_int_def c_rand_def bnd_def m_eval)

lemma ok_get_rand_int:
  "0 < n \<Longrightarrow> ok (get_rand_int n) s (\<lambda>i s'. i < n \<and> s' = s\<lparr>rt_pos := Suc (rt_pos s)\<rparr>)"
  by (simp add: ok_def get_rand_int_apply)

lemma post_get_rand_int:
  "post (get_rand_int n) s (\<lambda>i s'. i < n \<and> s' = s\<lparr>rt_pos := Suc (rt_pos s)\<rparr>)"
proof (cases "n = 0")
  case True
  then show ?thesis by (simp add: get_rand_int_def post_throw)
next
  case False
  then show ?thesis by (simp add: ok_post ok_get_rand_int)
qed

lemma ok_random_pick:
  "xs \<noteq> [] \<Longrightarrow> ok (random_pick xs) s (\<lambda>x s'. x \<in> set xs \<and> s' = s\<lparr>rt_pos := Suc (rt_pos s)\<rparr>)"
  by (auto simp: random_pick_def ok_bnd ok_return intro!: ok_mono [OF ok_get_rand_int])

lemma post_random_pick:
  "post (random_pick xs) s (\<lambda>x s'. x \<in> set xs \<and> s' = s\<lparr>rt_pos := Suc (rt_pos s)\<rparr>)"
  by (auto simp: random_pick_def post_bnd post_return intro!: post_mono [OF post_get_rand_int])

lemma vector_rand_ele_eq: "vector_rand_ele = random_pick"
  by (rule ext) (simp add: vector_rand_ele_def random_pick_def)

section \<open>\<open>std::map\<close> and \<open>std::set\<close>\<close>

text \<open>
  Both iterate in the order of their keys, and the program picks elements by their
  position in that order (\<open>random_pick\<close>), so they are modelled as lists sorted
  strictly by key: \<open>find\<close> is \<open>map_of\<close>, \<open>operator[]\<close> and \<open>insert\<close>
  keep the order.
\<close>

type_synonym ('k, 'v) omap = "('k \<times> 'v) list"

fun om_put :: "'k :: linorder \<Rightarrow> 'v \<Rightarrow> ('k, 'v) omap \<Rightarrow> ('k, 'v) omap" where
  "om_put k v [] = [(k, v)]"
| "om_put k v ((k', v') # m) =
     (if k < k' then (k, v) # (k', v') # m
      else if k = k' then (k, v) # m
      else (k', v') # om_put k v m)"

fun om_del :: "'k :: linorder \<Rightarrow> ('k, 'v) omap \<Rightarrow> ('k, 'v) omap" where
  "om_del k [] = []"
| "om_del k ((k', v') # m) = (if k = k' then m else (k', v') # om_del k m)"

definition om_get :: "('k, 'v) omap \<Rightarrow> 'k \<Rightarrow> 'v option" where
  "om_get m k = map_of m k"

definition om_sorted :: "('k :: linorder, 'v) omap \<Rightarrow> bool" where
  "om_sorted m \<longleftrightarrow> sorted_wrt (<) (map fst m)"

text \<open>\<open>m[k]\<close> as a value, with \<open>d\<close> the default the container would create, and
  \<open>m[k].push_back(x)\<close>.\<close>

definition om_at :: "'v \<Rightarrow> ('k, 'v) omap \<Rightarrow> 'k \<Rightarrow> 'v" where
  "om_at d m k = (case om_get m k of None \<Rightarrow> d | Some v \<Rightarrow> v)"

definition om_push :: "'k :: linorder \<Rightarrow> 'a \<Rightarrow> ('k, 'a list) omap \<Rightarrow> ('k, 'a list) omap" where
  "om_push k x m = om_put k (om_at [] m k @ [x]) m"

fun os_insert :: "'a :: linorder \<Rightarrow> 'a list \<Rightarrow> 'a list" where
  "os_insert x [] = [x]"
| "os_insert x (y # ys) =
     (if x < y then x # y # ys else if x = y then y # ys else y # os_insert x ys)"

definition os_of_list :: "'a :: linorder list \<Rightarrow> 'a list" where
  "os_of_list xs = fold os_insert xs []"

subsection \<open>The interface of a finite map and its client lemmas\<close>

locale finite_map =
  fixes empty :: "'m"
    and put :: "'k \<Rightarrow> 'v \<Rightarrow> 'm \<Rightarrow> 'm"
    and del :: "'k \<Rightarrow> 'm \<Rightarrow> 'm"
    and get :: "'m \<Rightarrow> 'k \<Rightarrow> 'v option"
    and keys :: "'m \<Rightarrow> 'k set"
    and inv :: "'m \<Rightarrow> bool"
  assumes inv_empty: "inv empty"
    and inv_put: "inv m \<Longrightarrow> inv (put k v m)"
    and inv_del: "inv m \<Longrightarrow> inv (del k m)"
    and get_empty: "get empty k = None"
    and get_put: "get (put k v m) = (get m)(k := Some v)"
    and get_del: "inv m \<Longrightarrow> get (del k m) = (get m)(k := None)"
    and keys_get: "keys m = dom (get m)"
begin

lemma keys_empty: "keys empty = {}"
  by (simp add: keys_get get_empty dom_def)

lemma keys_put: "keys (put k v m) = insert k (keys m)"
  by (simp add: keys_get get_put)

lemma keys_del: "inv m \<Longrightarrow> keys (del k m) = keys m - {k}"
  by (simp add: keys_get get_del)

lemma get_put_same: "get (put k v m) k = Some v"
  by (simp add: get_put)

lemma get_put_other: "k' \<noteq> k \<Longrightarrow> get (put k v m) k' = get m k'"
  by (simp add: get_put)

lemma inv_fold_put: "inv m \<Longrightarrow> inv (fold (\<lambda>x. put (f x) (g x)) xs m)"
  by (induction xs arbitrary: m) (simp_all add: inv_put)

lemma keys_fold_put: "keys (fold (\<lambda>x. put (f x) (g x)) xs m) = f ` set xs \<union> keys m"
  by (induction xs arbitrary: m) (auto simp: keys_put)

end

lemma om_get_put: "om_get (om_put k v m) = (om_get m)(k := Some v)"
  by (induction k v m rule: om_put.induct) (auto simp: om_get_def fun_eq_iff)

lemma om_sorted_Nil [simp]: "om_sorted []"
  by (simp add: om_sorted_def)

lemma om_sorted_Cons: "om_sorted ((k, v) # m) \<longleftrightarrow> (\<forall>p\<in>set m. k < fst p) \<and> om_sorted m"
  by (simp add: om_sorted_def)

lemma om_put_fst: "fst ` set (om_put k v m) = insert k (fst ` set m)"
  by (induction k v m rule: om_put.induct) auto

lemma om_put_keys_less:
  "k0 < k \<Longrightarrow> (\<forall>p\<in>set m. k0 < fst p) \<Longrightarrow> \<forall>p\<in>set (om_put k v m). k0 < fst p"
  by (induction k v m rule: om_put.induct) auto

lemma om_sorted_put: "om_sorted m \<Longrightarrow> om_sorted (om_put k v m)"
proof (induction k v m rule: om_put.induct)
  case (1 k v)
  show ?case by (simp add: om_sorted_Cons)
next
  case (2 k v k' v' m)
  then have "k' < k \<Longrightarrow> \<forall>p\<in>set (om_put k v m). k' < fst p"
    using om_put_keys_less [of k' k m v] by (simp add: om_sorted_Cons)
  with 2 show ?case by (auto simp: om_sorted_Cons dest: order.strict_trans)
qed

lemma om_del_subset: "set (om_del k m) \<subseteq> set m"
  by (induction k m rule: om_del.induct) auto

lemma om_sorted_del: "om_sorted m \<Longrightarrow> om_sorted (om_del k m)"
proof (induction k m rule: om_del.induct)
  case (1 k)
  show ?case by simp
next
  case (2 k k' v' m)
  then show ?case using om_del_subset [of k m] by (auto simp: om_sorted_Cons)
qed

lemma om_get_None: "\<forall>p\<in>set m. k < fst p \<Longrightarrow> om_get m (k :: 'k :: linorder) = None"
  by (induction m) (auto simp: om_get_def)

lemma om_get_del: "om_sorted m \<Longrightarrow> om_get (om_del k m) = (om_get m)(k := None)"
proof (induction k m rule: om_del.induct)
  case (1 k)
  show ?case by (simp add: om_get_def)
next
  case (2 k k' v' m)
  then show ?case
    using om_get_None [of m k'] by (auto simp: om_sorted_Cons om_get_def fun_eq_iff)
qed

lemma om_get_Nil [simp]: "om_get [] k = None"
  by (simp add: om_get_def)

lemma om_keys_dom: "fst ` set m = dom (om_get m)"
  unfolding dom_map_of_conv_image_fst [symmetric] by (simp add: dom_def om_get_def)

interpretation om: finite_map "[]" om_put om_del om_get "\<lambda>m. fst ` set m" om_sorted
  by unfold_locales
    (simp_all add: om_sorted_put om_sorted_del om_get_put om_get_del om_get_Nil om_keys_dom)

lemma om_distinct: "om_sorted m \<Longrightarrow> distinct (map fst m)"
  by (simp add: om_sorted_def strict_sorted_iff)

lemma om_get_iff: "om_sorted m \<Longrightarrow> om_get m k = Some v \<longleftrightarrow> (k, v) \<in> set m"
  by (simp add: om_get_def om_distinct)

lemma om_get_SomeD: "om_get m k = Some v \<Longrightarrow> (k, v) \<in> set m"
  by (simp add: om_get_def map_of_SomeD)

lemma om_sorted_push: "om_sorted m \<Longrightarrow> om_sorted (om_push k x m)"
  by (simp add: om_push_def om_sorted_put)

lemma om_get_push: "om_get (om_push k x m) = (om_get m)(k := Some (om_at [] m k @ [x]))"
  by (simp add: om_push_def om_get_put)

lemma om_at_push: "om_at [] (om_push k x m) k' = (if k' = k then om_at [] m k @ [x] else om_at [] m k')"
  by (simp add: om_at_def om_get_push)

lemmas om_laws [om_simps] =
  om_sorted_put om_sorted_del om_sorted_push om_get_put om_get_del om_get_push om_at_push

subsection \<open>The interface of a finite set\<close>

locale finite_set =
  fixes empty :: "'s"
    and ins :: "'a \<Rightarrow> 's \<Rightarrow> 's"
    and elems :: "'s \<Rightarrow> 'a set"
    and inv :: "'s \<Rightarrow> bool"
  assumes inv_empty: "inv empty"
    and inv_ins: "inv s \<Longrightarrow> inv (ins x s)"
    and elems_empty: "elems empty = {}"
    and elems_ins: "elems (ins x s) = insert x (elems s)"
begin

lemma inv_fold_ins: "inv s \<Longrightarrow> inv (fold ins xs s)"
  by (induction xs arbitrary: s) (simp_all add: inv_ins)

lemma elems_fold_ins: "elems (fold ins xs s) = set xs \<union> elems s"
  by (induction xs arbitrary: s) (auto simp: elems_ins)

end

definition os_sorted :: "'a :: linorder list \<Rightarrow> bool" where
  "os_sorted xs \<longleftrightarrow> sorted_wrt (<) xs"

lemma set_os_insert [simp]: "set (os_insert x xs) = insert x (set xs)"
  by (induction x xs rule: os_insert.induct) auto

lemma os_sorted_insert: "os_sorted xs \<Longrightarrow> os_sorted (os_insert x xs)"
  by (induction x xs rule: os_insert.induct) (auto simp: os_sorted_def)

interpretation os: finite_set "[]" os_insert set os_sorted
  by unfold_locales (auto simp: os_sorted_insert, simp add: os_sorted_def)

lemma set_os_of_list [simp]: "set (os_of_list xs) = set xs"
  by (simp add: os_of_list_def os.elems_fold_ins)

lemma os_sorted_of_list [simp]: "os_sorted (os_of_list xs)"
  by (simp add: os_of_list_def os.inv_fold_ins os.inv_empty)

end
