(* ===== verification/Text_Utils.thy ===== *)
theory Text_Utils
  imports Prelude
begin

text \<open>
  The string helpers of \<open>srcs/internal/srcs/utils.cpp\<close> and
  \<open>srcs/internal/include/utils.h\<close>: the in-place \<open>trim_string\<close> with its index
  arithmetic, \<open>strip_string\<close>, the \<open>Ltrim\<close>/\<open>Rtrim\<close>/\<open>Trim\<close> family, the name and
  number generators, the directory listing, and the two conversions of the standard library
  they and the translator rest on (\<open>std::to_string\<close>, \<open>std::stoi\<close>).
  \<open>std::string\<close> is a list of bytes.
\<close>

section \<open>Characters\<close>

definition sp :: char where "sp = CHR '' ''"
definition nl :: char where "nl = CHR 0x0A"

definition isspace :: "char \<Rightarrow> bool" where
  "isspace c \<longleftrightarrow> c \<in> {CHR '' '', CHR 0x09, CHR 0x0A, CHR 0x0B, CHR 0x0C, CHR 0x0D}"

definition isdigit :: "char \<Rightarrow> bool" where
  "isdigit c \<longleftrightarrow> 48 \<le> (of_char c :: nat) \<and> (of_char c :: nat) \<le> 57"

section \<open>trim\_string\<close>

text \<open>
  The loop of \<open>trim_string\<close>: \<open>i\<close> reads, \<open>idx\<close> writes into the same string,
  \<open>count\<close> is the final length. A blank right after \<open>;\<close>, \<open>}\<close> or \<open>{\<close> is first
  turned into a line feed, at the position the loop reads next.
\<close>

definition breaks_line :: "char \<Rightarrow> bool" where
  "breaks_line c \<longleftrightarrow> c = CHR '';'' \<or> c = CHR ''}'' \<or> c = CHR ''{''"

definition break_after :: "string \<Rightarrow> nat \<Rightarrow> string" where
  "break_after res i =
     (if breaks_line (res ! i) \<and> i \<noteq> length res - 1 \<and> res ! (i + 1) = sp
      then res[i + 1 := nl] else res)"

lemma length_break_after [simp]: "length (break_after res i) = length res"
  by (simp add: break_after_def)

function trim_loop :: "string \<Rightarrow> nat \<Rightarrow> nat \<Rightarrow> nat \<Rightarrow> bool \<Rightarrow> string \<times> nat" where
  "trim_loop res i idx count expect_space =
     (if i < length res then
        (let res = break_after res i in
         if res ! i = sp then
           (if \<not> expect_space then trim_loop res (i + 1) idx count expect_space
            else trim_loop (res[idx := res ! i]) (i + 1) (idx + 1) (count + 1) False)
         else trim_loop (res[idx := res ! i]) (i + 1) (idx + 1) (count + 1) True)
      else (res, count))"
  by pat_completeness auto
termination
  by (relation "measure (\<lambda>(res, i, _, _, _). length res - i)") (auto simp: Let_def)

declare trim_loop.simps [simp del]

definition trim_string :: "string \<Rightarrow> string" where
  "trim_string res = (case trim_loop res 0 0 0 False of (res', count) \<Rightarrow> take count res')"

text \<open>What the loop computes, as one pass that returns a new string.\<close>

definition break_hd :: "char \<Rightarrow> string \<Rightarrow> string" where
  "break_hd c cs = (case cs of [] \<Rightarrow> [] | d # ds \<Rightarrow> if breaks_line c \<and> d = sp then nl # ds else cs)"

lemma length_break_hd [simp]: "length (break_hd c cs) = length cs"
  by (simp add: break_hd_def split: list.split)

function trim_spec :: "bool \<Rightarrow> string \<Rightarrow> string" where
  "trim_spec e [] = []"
| "trim_spec e (c # cs) =
     (if c = sp then (if e then c # trim_spec False cs else trim_spec e cs)
      else c # trim_spec True (break_hd c cs))"
  by pat_completeness auto
termination
  by (relation "measure (\<lambda>(_, cs). length cs)") auto

lemma sp_no_break [simp]: "\<not> breaks_line sp" "\<not> breaks_line nl" "nl \<noteq> sp"
  by (simp_all add: breaks_line_def sp_def nl_def)

lemma break_after_nth: "break_after res i ! i = res ! i"
  by (simp add: break_after_def)

lemma drop_break_after:
  assumes "i < length res"
  shows "drop (Suc i) (break_after res i) = break_hd (res ! i) (drop (Suc i) res)"
proof (cases "Suc i < length res")
  case True
  have "drop (Suc i) res = res ! Suc i # drop (Suc (Suc i)) res"
    using True by (rule Cons_nth_drop_Suc [symmetric])
  moreover have "drop (Suc i) (res[Suc i := nl]) = nl # drop (Suc (Suc i)) res"
    using True by (simp add: drop_update_swap flip: Cons_nth_drop_Suc)
  ultimately show ?thesis
    using True by (auto simp: break_after_def break_hd_def)
next
  case False
  with assms have "i = length res - 1" by simp
  then show ?thesis using False assms by (auto simp: break_after_def break_hd_def)
qed

lemma take_break_after: "k \<le> Suc i \<Longrightarrow> take k (break_after res i) = take k res"
  by (simp add: break_after_def)

text \<open>The loop invariant: \<open>take idx\<close> is the output so far, \<open>drop i\<close> is still unread.\<close>

lemma trim_loop_spec:
  assumes "idx \<le> i" and "i \<le> length res" and "count = idx"
  shows "(case trim_loop res i idx count e of (res', n) \<Rightarrow> take n res')
           = take idx res @ trim_spec e (drop i res)"
  using assms
proof (induction res i idx count e rule: trim_loop.induct)
  case (1 res i idx count e)
  show ?case
  proof (cases "i < length res")
    case False
    with "1.prems" show ?thesis by (subst trim_loop.simps) simp
  next
    case True
    define r where "r = break_after res i"
    have r: "length r = length res" "r ! i = res ! i" "take idx r = take idx res"
      "drop (Suc i) r = break_hd (res ! i) (drop (Suc i) res)"
      using "1.prems" True
      by (simp_all add: r_def break_after_nth drop_break_after take_break_after)
    have d: "drop i res = res ! i # drop (Suc i) res"
      using True by (rule Cons_nth_drop_Suc [symmetric])
    have w: "take (Suc idx) (r[idx := r ! i]) = take idx res @ [res ! i]"
      "drop (Suc i) (r[idx := r ! i]) = drop (Suc i) r"
      using "1.prems" True r by (simp_all add: take_Suc_conv_app_nth)
    consider (skip) "res ! i = sp" "\<not> e" | (blank) "res ! i = sp" e | (other) "res ! i \<noteq> sp" by blast
    then show ?thesis
    proof cases
      case skip
      have "break_hd (res ! i) (drop (Suc i) res) = drop (Suc i) res"
        using skip by (simp add: break_hd_def split: list.split)
      then show ?thesis
        using skip True r d "1.IH"(1)[OF True r_def] "1.prems"
        by (subst trim_loop.simps) (simp add: r_def Let_def)
    next
      case blank
      have "break_hd (res ! i) (drop (Suc i) res) = drop (Suc i) res"
        using blank by (simp add: break_hd_def split: list.split)
      then show ?thesis
        using blank True r d w "1.IH"(2)[OF True r_def] "1.prems"
        by (subst trim_loop.simps) (simp add: r_def Let_def)
    next
      case other
      then show ?thesis
        using True r d w "1.IH"(3)[OF True r_def] "1.prems"
        by (subst trim_loop.simps) (simp add: r_def Let_def)
    qed
  qed
qed

lemma trim_string_spec: "trim_string s = trim_spec False s"
  using trim_loop_spec [of 0 0 s 0 False] by (simp add: trim_string_def)

text \<open>The visible text of a string: all of it but blanks and line feeds.\<close>

definition visible :: "string \<Rightarrow> string" where
  "visible s = filter (\<lambda>c. c \<noteq> sp \<and> c \<noteq> nl) s"

lemma visible_Nil [simp]: "visible [] = []"
  and visible_append [simp]: "visible (s @ t) = visible s @ visible t"
  and visible_sp [simp]: "visible (sp # s) = visible s"
  and visible_nl [simp]: "visible (nl # s) = visible s"
  by (simp_all add: visible_def)

lemma visible_blank [simp]: "visible '' '' = []"
  by (simp add: visible_def sp_def)

lemma visible_break_hd: "visible (break_hd c cs) = visible cs"
  by (auto simp: break_hd_def visible_def split: list.split)

lemma visible_trim_spec: "visible (trim_spec e cs) = visible cs"
proof (induction e cs rule: trim_spec.induct)
  case (1 e)
  show ?case by simp
next
  case (2 e c cs)
  then show ?case
    using visible_break_hd [of c cs] by (auto simp: visible_def)
qed

text \<open>No two blanks in a row, no blank at the start, no blank right after a line breaker.\<close>

fun single_spaced :: "string \<Rightarrow> bool" where
  "single_spaced (c # d # cs) =
     ((d = sp \<longrightarrow> c \<noteq> sp \<and> \<not> breaks_line c) \<and> single_spaced (d # cs))"
| "single_spaced _ = True"

definition tidy :: "string \<Rightarrow> bool" where
  "tidy s \<longleftrightarrow> single_spaced s \<and> (s \<noteq> [] \<longrightarrow> hd s \<noteq> sp)"

lemma trim_spec_hd_false: "trim_spec False cs \<noteq> [] \<Longrightarrow> hd (trim_spec False cs) \<noteq> sp"
proof (induction False cs rule: trim_spec.induct)
  case 1
  then show ?case by simp
next
  case (2 c cs)
  then show ?case by (auto split: if_splits)
qed

lemma single_spaced_Cons:
  "single_spaced (c # s) \<longleftrightarrow>
     single_spaced s \<and> (s \<noteq> [] \<and> hd s = sp \<longrightarrow> c \<noteq> sp \<and> \<not> breaks_line c)"
  by (cases s) auto

lemma trim_spec_hd_break:
  "breaks_line c \<Longrightarrow> trim_spec True (break_hd c cs) \<noteq> [] \<Longrightarrow> hd (trim_spec True (break_hd c cs)) \<noteq> sp"
  by (cases cs) (auto simp: break_hd_def)

lemma single_spaced_trim_spec: "single_spaced (trim_spec e cs)"
proof (induction e cs rule: trim_spec.induct)
  case (1 e)
  show ?case by simp
next
  case (2 e c cs)
  consider (skip) "c = sp" "\<not> e" | (blank) "c = sp" e | (other) "c \<noteq> sp" by blast
  then show ?case
  proof cases
    case skip
    with 2 show ?thesis by simp
  next
    case blank
    with 2 trim_spec_hd_false [of cs] show ?thesis by (auto simp: single_spaced_Cons)
  next
    case other
    with 2 trim_spec_hd_break [of c cs] show ?thesis by (auto simp: single_spaced_Cons)
  qed
qed

lemma tidy_trim_string: "tidy (trim_string s)"
  using trim_spec_hd_false [of s]
  by (simp add: tidy_def trim_string_spec single_spaced_trim_spec)

lemma trim_spec_tidy:
  "single_spaced cs \<Longrightarrow> (\<not> e \<longrightarrow> cs \<noteq> [] \<longrightarrow> hd cs \<noteq> sp) \<Longrightarrow> trim_spec e cs = cs"
proof (induction e cs rule: trim_spec.induct)
  case (1 e)
  show ?case by simp
next
  case (2 e c cs)
  have "c \<noteq> sp \<Longrightarrow> break_hd c cs = cs"
    using "2.prems" by (auto simp: break_hd_def single_spaced_Cons split: list.split)
  with 2 show ?case by (auto simp: single_spaced_Cons)
qed

lemma trim_string_tidy: "tidy s \<Longrightarrow> trim_string s = s"
  by (simp add: tidy_def trim_string_spec trim_spec_tidy)

section \<open>strip\_string, Ltrim, Rtrim, Trim\<close>

text \<open>\<open>strip_string\<close> walks an index down from the end; \<open>idx + 1\<close> is kept here.\<close>

fun strip_idx :: "string \<Rightarrow> nat \<Rightarrow> nat" where
  "strip_idx res 0 = 0"
| "strip_idx res (Suc idx) =
     (if res ! idx = sp \<or> res ! idx = nl \<or> res ! idx = CHR 0x09 then strip_idx res idx else Suc idx)"

definition strip_string :: "string \<Rightarrow> string" where
  "strip_string res = take (strip_idx res (length res)) res"

definition Ltrim :: "string \<Rightarrow> string" where
  "Ltrim s = dropWhile isspace s"

definition Rtrim :: "string \<Rightarrow> string" where
  "Rtrim s = rev (dropWhile isspace (rev s))"

definition Trim :: "string \<Rightarrow> string" where
  "Trim s = Ltrim (Rtrim s)"

definition stripped :: "char \<Rightarrow> bool" where
  "stripped c \<longleftrightarrow> c = sp \<or> c = nl \<or> c = CHR 0x09"

lemma strip_idx_take:
  "n \<le> length res \<Longrightarrow> take (strip_idx res n) res = rev (dropWhile stripped (rev (take n res)))"
  by (induction n) (auto simp: stripped_def take_Suc_conv_app_nth)

lemma strip_string_spec: "strip_string s = rev (dropWhile stripped (rev s))"
  by (simp add: strip_string_def strip_idx_take)

lemma hd_dropWhile_not: "dropWhile P xs \<noteq> [] \<Longrightarrow> \<not> P (hd (dropWhile P xs))"
  by (rule hd_dropWhile)

lemma last_rev_dropWhile: "rev (dropWhile P (rev xs)) \<noteq> [] \<Longrightarrow> \<not> P (last (rev (dropWhile P (rev xs))))"
  by (simp add: last_rev hd_dropWhile)

lemma last_dropWhile: "dropWhile P xs \<noteq> [] \<Longrightarrow> last (dropWhile P xs) = last xs"
  by (metis last_appendR takeWhile_dropWhile_id)

lemma Trim_ends:
  "Trim s \<noteq> [] \<Longrightarrow> \<not> isspace (hd (Trim s)) \<and> \<not> isspace (last (Trim s))"
proof -
  assume ne: "Trim s \<noteq> []"
  then have "Rtrim s \<noteq> []" by (auto simp: Trim_def Ltrim_def)
  then have "\<not> isspace (last (Rtrim s))" by (simp add: Rtrim_def last_rev_dropWhile)
  moreover have "last (Trim s) = last (Rtrim s)"
    using ne by (simp add: Trim_def Ltrim_def last_dropWhile)
  ultimately show ?thesis
    using ne by (simp add: Trim_def Ltrim_def hd_dropWhile)
qed

lemma Trim_infix: "\<exists>pre suf. s = pre @ Trim s @ suf \<and> list_all isspace pre \<and> list_all isspace suf"
proof -
  have "rev s = takeWhile isspace (rev s) @ dropWhile isspace (rev s)" by simp
  then have r: "s = Rtrim s @ rev (takeWhile isspace (rev s))"
    unfolding Rtrim_def by (metis rev_append rev_rev_ident)
  have "Rtrim s = takeWhile isspace (Rtrim s) @ Trim s"
    by (simp add: Trim_def Ltrim_def)
  with r have "s = takeWhile isspace (Rtrim s) @ Trim s @ rev (takeWhile isspace (rev s))"
    by (metis append.assoc)
  moreover have "list_all isspace (takeWhile isspace xs)" for xs
    by (auto simp: list_all_iff dest: set_takeWhileD)
  ultimately show ?thesis by (metis list_all_rev)
qed

section \<open>\<open>std::to_string\<close> and \<open>std::stoi\<close>\<close>

fun dec_of_nat :: "nat \<Rightarrow> string" where
  "dec_of_nat n =
     (if n < 10 then [char_of (48 + n)] else dec_of_nat (n div 10) @ [char_of (48 + n mod 10)])"

declare dec_of_nat.simps [simp del]

definition to_string :: "int \<Rightarrow> string" where
  "to_string i = (if i < 0 then CHR ''-'' # dec_of_nat (nat (- i)) else dec_of_nat (nat i))"

definition digit_value :: "char \<Rightarrow> nat" where
  "digit_value c = of_char c - 48"

definition digits_value :: "string \<Rightarrow> nat" where
  "digits_value ds = foldl (\<lambda>n c. 10 * n + digit_value c) 0 ds"

text \<open>
  \<open>std::stoi\<close>: leading white space is skipped, a sign is optional, the longest run of
  decimal digits is read and the rest of the text ignored; no digit at all is
  \<open>std::invalid_argument\<close>, a value that does not fit an \<open>int\<close> is
  \<open>std::out_of_range\<close>.
\<close>

definition stoi :: "string \<Rightarrow> error + int" where
  "stoi text =
     (let t = dropWhile isspace text;
          neg = (t \<noteq> [] \<and> hd t = CHR ''-'');
          body = (if t \<noteq> [] \<and> (hd t = CHR ''-'' \<or> hd t = CHR ''+'') then tl t else t);
          ds = takeWhile isdigit body;
          v = (if neg then - int (digits_value ds) else int (digits_value ds))
      in if ds = [] then Inl Stoi_invalid_argument
         else if v < - (2 ^ 31) \<or> 2 ^ 31 \<le> v then Inl Stoi_out_of_range
         else Inr v)"

lemma isspace_code: "isspace c \<Longrightarrow> (of_char c :: nat) \<le> 32"
  by (auto simp: isspace_def)

lemma digit_char:
  assumes "d < (10 :: nat)"
  shows "isdigit (char_of (48 + d))" and "digit_value (char_of (48 + d)) = d"
    and "\<not> isspace (char_of (48 + d))" and "char_of (48 + d) \<noteq> CHR ''-''"
    and "char_of (48 + d) \<noteq> CHR ''+''"
proof -
  have c: "(of_char (char_of (48 + d) :: char) :: nat) = 48 + d" using assms by simp
  then show "isdigit (char_of (48 + d))" "digit_value (char_of (48 + d)) = d"
    using assms by (simp_all add: isdigit_def digit_value_def)
  show "\<not> isspace (char_of (48 + d))" using c isspace_code by fastforce
  have "(of_char (CHR ''-'') :: nat) = 45" "(of_char (CHR ''+'') :: nat) = 43" by simp_all
  moreover have "(of_char (char_of (48 + d) :: char) :: nat) \<noteq> 45"
    "(of_char (char_of (48 + d) :: char) :: nat) \<noteq> 43" unfolding c by simp_all
  ultimately show "char_of (48 + d) \<noteq> CHR ''-''" "char_of (48 + d) \<noteq> CHR ''+''"
    by metis+
qed

lemma dec_of_nat_step: "\<not> n < 10 \<Longrightarrow> dec_of_nat n = dec_of_nat (n div 10) @ [char_of (48 + n mod 10)]"
  by (subst dec_of_nat.simps) simp

lemma dec_of_nat_small: "n < 10 \<Longrightarrow> dec_of_nat n = [char_of (48 + n)]"
  by (subst dec_of_nat.simps) simp

lemma dec_of_nat_digits: "list_all isdigit (dec_of_nat n)"
proof (induction n rule: dec_of_nat.induct)
  case (1 n)
  then show ?case
    by (cases "n < 10") (simp_all add: dec_of_nat_small dec_of_nat_step digit_char)
qed

lemma dec_of_nat_ne: "dec_of_nat n \<noteq> []"
  by (cases "n < 10") (simp_all add: dec_of_nat_small dec_of_nat_step)

lemma digits_value_snoc: "digits_value (ds @ [c]) = 10 * digits_value ds + digit_value c"
  by (simp add: digits_value_def)

lemma digits_value_dec: "digits_value (dec_of_nat n) = n"
proof (induction n rule: dec_of_nat.induct)
  case (1 n)
  show ?case
  proof (cases "n < 10")
    case True
    then show ?thesis by (simp add: dec_of_nat_small digits_value_def digit_char)
  next
    case False
    with 1 show ?thesis by (simp add: dec_of_nat_step digits_value_snoc digit_char)
  qed
qed

lemma hd_dec_of_nat: "\<exists>d<(10::nat). hd (dec_of_nat n) = char_of (48 + d)"
proof (induction n rule: dec_of_nat.induct)
  case (1 n)
  then show ?case
    by (cases "n < 10") (auto simp: dec_of_nat_small dec_of_nat_step dec_of_nat_ne hd_append)
qed

lemma dec_of_nat_inj: "dec_of_nat m = dec_of_nat n \<longleftrightarrow> m = n"
  by (metis digits_value_dec)

lemma dec_of_nat_text:
  "dropWhile isspace (dec_of_nat n) = dec_of_nat n" "hd (dec_of_nat n) \<noteq> CHR ''-''"
  "hd (dec_of_nat n) \<noteq> CHR ''+''" "takeWhile isdigit (dec_of_nat n) = dec_of_nat n"
proof -
  obtain d :: nat where d: "d < 10" "hd (dec_of_nat n) = char_of (48 + d)"
    using hd_dec_of_nat by blast
  with digit_char show "hd (dec_of_nat n) \<noteq> CHR ''-''" "hd (dec_of_nat n) \<noteq> CHR ''+''" by auto
  show "dropWhile isspace (dec_of_nat n) = dec_of_nat n"
    using d digit_char(3) dec_of_nat_ne by (cases "dec_of_nat n") auto
  show "takeWhile isdigit (dec_of_nat n) = dec_of_nat n"
    using dec_of_nat_digits by (simp add: list_all_iff)
qed

lemma stoi_to_string:
  assumes "- (2 ^ 31) \<le> i" and "i < 2 ^ 31"
  shows "stoi (to_string i) = Inr i"
proof (cases "i < 0")
  case True
  then have "to_string i = CHR ''-'' # dec_of_nat (nat (- i))" by (simp add: to_string_def)
  moreover have "\<not> isspace (CHR ''-'')" by (simp add: isspace_def)
  ultimately show ?thesis
    using True assms by (simp add: stoi_def dec_of_nat_text digits_value_dec dec_of_nat_ne)
next
  case False
  then show ?thesis
    using assms by (simp add: to_string_def stoi_def dec_of_nat_text digits_value_dec dec_of_nat_ne)
qed

section \<open>Names and random literals\<close>

definition reset_id_counter :: "('z runtime_scheme, unit) M" where
  "reset_id_counter = modify (\<lambda>s. s\<lparr>rt_name_counter := 0\<rparr>)"

definition gen_id_name :: "('z runtime_scheme, string) M" where
  "gen_id_name =
     bnd (gets rt_name_counter) (\<lambda>n.
     bnd (modify (\<lambda>s. s\<lparr>rt_name_counter := n + 1\<rparr>)) (\<lambda>_.
     return (''v'' @ to_string (uint n))))"

definition gen_random_num_string :: "('z runtime_scheme, string) M" where
  "gen_random_num_string = bnd (get_rand_int 0x1000) (\<lambda>n. return (to_string (int n)))"

lemma gen_id_name_apply:
  "gen_id_name s = Inr (''v'' @ to_string (uint (rt_name_counter s)),
                        s\<lparr>rt_name_counter := rt_name_counter s + 1\<rparr>)"
  by (simp add: gen_id_name_def bnd_def m_eval)

lemma to_string_inj: "0 \<le> i \<Longrightarrow> 0 \<le> j \<Longrightarrow> to_string i = to_string j \<longleftrightarrow> i = j"
  by (auto simp: to_string_def dec_of_nat_inj)

lemma ok_gen_random_num_string:
  "ok gen_random_num_string s
     (\<lambda>r s'. (\<exists>n<4096. r = to_string (int n)) \<and> s' = s\<lparr>rt_pos := Suc (rt_pos s)\<rparr>)"
  unfolding gen_random_num_string_def ok_bnd
  by (rule ok_mono [OF ok_get_rand_int]) (auto simp: ok_return)

lemma to_string_ne: "to_string i \<noteq> []"
  by (simp add: to_string_def dec_of_nat_ne)

section \<open>The file system\<close>

text \<open>
  What the program reads from outside: whether the mode that \<open>lstat\<close> left says
  "directory", the names \<open>opendir\<close>/\<open>readdir\<close> enumerate (\<open>None\<close>: it cannot be
  opened), and the bytes of a file (empty when it cannot be opened).
\<close>

record file_system =
  fs_is_dir :: "string \<Rightarrow> bool"
  fs_read_dir :: "string \<Rightarrow> string list option"
  fs_read_file :: "string \<Rightarrow> string"

definition get_all_files_in_dir :: "file_system \<Rightarrow> string option \<Rightarrow> error + string list" where
  "get_all_files_in_dir fs dir_name =
     (case dir_name of
        None \<Rightarrow> Inr []
      | Some d \<Rightarrow>
          if \<not> fs_is_dir fs d then Inr []
          else (case fs_read_dir fs d of
                  None \<Rightarrow> Inr []
                | Some names \<Rightarrow>
                    if d = [] then Inl Index_out_of_range
                    else (let abs_path = (if last d \<noteq> CHR ''/'' then d @ ''/'' else d)
                          in Inr (map ((@) abs_path)
                                   (filter (\<lambda>f. f \<noteq> ''.'' \<and> f \<noteq> ''..'') names)))))"

definition ReadFileIntoString :: "file_system \<Rightarrow> string \<Rightarrow> string" where
  "ReadFileIntoString fs file_name = fs_read_file fs file_name"

section \<open>Properties\<close>

text \<open>C29: \<open>trim_string\<close> normalises the white space of generated text: it equals the one-pass
  reference, loses nothing but blanks and line feeds, leaves no leading blank, no two blanks in
  a row and no blank after a line break, and changes nothing when applied again.\<close>

theorem trim_string_normal_form:
  "trim_string s = trim_spec False s \<and> visible (trim_string s) = visible s \<and> tidy (trim_string s) \<and>
   trim_string (trim_string s) = trim_string s"
  by (simp add: trim_string_tidy tidy_trim_string) (simp add: trim_string_spec visible_trim_spec)

text \<open>\<open>Trim\<close> cuts white space off both ends and nothing else: its result is an infix
  between two runs of white space, and neither starts nor ends with white space.\<close>

theorem Trim_cuts_ends:
  "(\<exists>pre suf. s = pre @ Trim s @ suf \<and> list_all isspace pre \<and> list_all isspace suf) \<and>
   (Trim s = [] \<or> \<not> isspace (hd (Trim s)) \<and> \<not> isspace (last (Trim s)))"
  using Trim_infix [of s] Trim_ends [of s] by blast

lemma gen_id_names: "mapM (\<lambda>_. gen_id_name) [0..<n] s =
   Inr (map (\<lambda>i. ''v'' @ to_string (uint (rt_name_counter s + word_of_nat i))) [0..<n],
        s\<lparr>rt_name_counter := rt_name_counter s + word_of_nat n\<rparr>)"
proof (induction n)
  case 0
  show ?case by (simp add: mapM_def m_eval)
next
  case (Suc n)
  have e: "mapM (\<lambda>_. gen_id_name) [0..<Suc n] =
      bnd (mapM (\<lambda>_. gen_id_name) [0..<n]) (\<lambda>ys. bnd gen_id_name (\<lambda>y. return (ys @ [y])))"
    by (rule ext) (simp add: mapM_def foldM_append bnd_def m_eval split: sum.splits prod.splits)
  show ?case
    unfolding e by (simp add: bnd_def Suc.IH gen_id_name_apply m_eval ac_simps)
qed

text \<open>C32: the names \<open>gen_id_name\<close> makes are all different until its 64-bit counter wraps around.\<close>

theorem gen_id_name_distinct:
  assumes "n \<le> 2 ^ 64"
  shows "ok (mapM (\<lambda>_. gen_id_name) [0..<n]) s (\<lambda>names _. distinct names)"
proof -
  have "inj_on (\<lambda>i. ''v'' @ to_string (uint (rt_name_counter s + word_of_nat i))) {0..<n}"
  proof (rule inj_onI)
    fix i j assume ij: "i \<in> {0..<n}" "j \<in> {0..<n}"
      and "''v'' @ to_string (uint (rt_name_counter s + word_of_nat i)) =
           ''v'' @ to_string (uint (rt_name_counter s + word_of_nat j))"
    then have "(word_of_nat i :: 64 word) = word_of_nat j"
      by (simp add: to_string_inj word_uint_eq_iff [symmetric])
    then have "unat (word_of_nat i :: 64 word) = unat (word_of_nat j :: 64 word)" by (rule arg_cong)
    then have "take_bit LENGTH(64) i = take_bit LENGTH(64) j" by (simp only: unsigned_of_nat of_nat_eq_iff)
    moreover have "i < 2 ^ LENGTH(64)" "j < 2 ^ LENGTH(64)" using ij assms by auto
    ultimately show "i = j" by (simp only: take_bit_nat_eq_self)
  qed
  then show ?thesis unfolding ok_def gen_id_names by (simp add: distinct_map)
qed

lemma gen_id_name_distinct_witness:
  "ok (mapM (\<lambda>_. gen_id_name) [0..<3]) demo_runtime (\<lambda>names _. distinct names)"
  by (rule gen_id_name_distinct) simp

end
