(* ===== verification/Ducking_Hash.thy ===== *)
theory Ducking_Hash
  imports Text_Utils
begin

text \<open>
  \<open>ducking_hash\<close> of \<open>srcs/internal/srcs/utils.cpp\<close>, the 64-bit hash by which
  the mutator and the IR library recognise test cases and trees they have already seen. It is
  modelled on 64-bit words with the multiplications, shifts and exclusive ors as written; a
  block is read as the (little-endian) machine the fuzzer runs on reads eight bytes. What
  matters to its clients is where it cannot collide: every step is a bijection of the hash
  state, so two texts of one length that differ in a single block never collide.
\<close>

unbundle bit_operations_syntax

section \<open>Reading memory\<close>

fun le_value :: "string \<Rightarrow> nat" where
  "le_value [] = 0"
| "le_value (c # cs) = of_char c + 256 * le_value cs"

definition load64 :: "string \<Rightarrow> 64 word" where
  "load64 cs = word_of_nat (le_value cs)"

definition byte :: "char \<Rightarrow> 64 word" where
  "byte c = word_of_nat (of_char c)"

section \<open>The hash\<close>

definition hash_m :: "64 word" where
  "hash_m = 0xc6a4a7935bd1e995"

definition hash_seed :: "64 word" where
  "hash_seed = 0xdeadbeefdeadbeef"

definition xshift :: "64 word \<Rightarrow> 64 word" where
  "xshift h = h XOR drop_bit 47 h"

definition mix_block :: "64 word \<Rightarrow> 64 word \<Rightarrow> 64 word" where
  "mix_block h k = (let k = k * hash_m; k = xshift k; k = k * hash_m; h = h XOR k in h * hash_m)"

text \<open>The loop over the whole blocks: the hash so far and the bytes that are left.\<close>

function hash_blocks :: "64 word \<Rightarrow> string \<Rightarrow> 64 word \<times> string" where
  "hash_blocks h data =
     (if 8 \<le> length data then hash_blocks (mix_block h (load64 (take 8 data))) (drop 8 data)
      else (h, data))"
  by pat_completeness auto
termination
  by (relation "measure (\<lambda>(_, data). length data)") auto

declare hash_blocks.simps [simp del]

text \<open>
  The switch over \<open>len & 7\<close>: every case falls through to the next, and the last one
  multiplies; case 0 does nothing.
\<close>

definition hash_tail :: "64 word \<Rightarrow> string \<Rightarrow> 64 word" where
  "hash_tail h data2 =
     (let n = length data2;
          h = (if 7 \<le> n then h XOR push_bit 48 (byte (data2 ! 6)) else h);
          h = (if 6 \<le> n then h XOR push_bit 40 (byte (data2 ! 5)) else h);
          h = (if 5 \<le> n then h XOR push_bit 32 (byte (data2 ! 4)) else h);
          h = (if 4 \<le> n then h XOR push_bit 24 (byte (data2 ! 3)) else h);
          h = (if 3 \<le> n then h XOR push_bit 16 (byte (data2 ! 2)) else h);
          h = (if 2 \<le> n then h XOR push_bit 8 (byte (data2 ! 1)) else h)
      in if 1 \<le> n then (h XOR byte (data2 ! 0)) * hash_m else h)"

definition hash_final :: "64 word \<Rightarrow> 64 word" where
  "hash_final h = (let h = xshift h; h = h * hash_m in xshift h)"

text \<open>\<open>len\<close> is an \<open>int\<close>; texts of \<open>2 ^ 31\<close> bytes or more are outside the model.\<close>

definition ducking_hash :: "string \<Rightarrow> 64 word" where
  "ducking_hash key =
     (case hash_blocks (hash_seed XOR (word_of_nat (length key) * hash_m)) key of
        (h, data2) \<Rightarrow> hash_final (hash_tail h data2))"

section \<open>Every step is injective\<close>

lemma hash_m_inverse: "hash_m * 0x5f7a0ea7e59b19bd = 1"
  by (simp add: hash_m_def)

lemma mult_hash_m_inj: "x * hash_m = y * hash_m \<longleftrightarrow> x = y"
proof
  assume "x * hash_m = y * hash_m"
  then have "x * hash_m * 0x5f7a0ea7e59b19bd = y * hash_m * 0x5f7a0ea7e59b19bd" by (rule arg_cong)
  then show "x = y" by (simp only: mult.assoc hash_m_inverse mult_1_right)
qed simp

lemma xshift_xshift: "xshift (xshift x) = x"
  by (simp add: xshift_def xor.assoc)

lemma xshift_inj: "xshift x = xshift y \<longleftrightarrow> x = y"
  by (metis xshift_xshift)

lemma xor_left_inj: "(h XOR k = h XOR k') \<longleftrightarrow> k = (k' :: 64 word)"
proof
  assume "h XOR k = h XOR k'"
  then have "h XOR (h XOR k) = h XOR (h XOR k')" by simp
  then show "k = k'" by (simp flip: xor.assoc)
qed simp

lemma xor_right_inj: "(h XOR k = h' XOR k) \<longleftrightarrow> h = (h' :: 64 word)"
  by (metis xor.commute xor_left_inj)

lemma mix_block_inj_block: "mix_block h k = mix_block h k' \<longleftrightarrow> k = k'"
  by (simp add: mix_block_def Let_def mult_hash_m_inj xor_left_inj xshift_inj)

lemma mix_block_inj_state: "mix_block h k = mix_block h' k \<longleftrightarrow> h = h'"
  by (simp add: mix_block_def Let_def mult_hash_m_inj xor_right_inj)

lemma hash_final_inj: "hash_final h = hash_final h' \<longleftrightarrow> h = h'"
  by (simp add: hash_final_def Let_def mult_hash_m_inj xshift_inj)

section \<open>What the bytes determine\<close>

lemma of_char_less: "of_char c < (256 :: nat)"
  by (metis of_char_mod_256 mod_less_divisor zero_less_numeral)

lemma le_value_less: "le_value cs < 256 ^ length cs"
proof (induction cs)
  case Nil
  show ?case by simp
next
  case (Cons c cs)
  then have "le_value cs + 1 \<le> 256 ^ length cs" by simp
  moreover have "k < 256 \<Longrightarrow> v + 1 \<le> p \<Longrightarrow> k + 256 * v < 256 * p" for k v p :: nat
    by linarith
  ultimately show ?case unfolding le_value.simps length_Cons power_Suc using of_char_less by blast
qed

lemma le_value_inj: "length cs = length ds \<Longrightarrow> le_value cs = le_value ds \<Longrightarrow> cs = ds"
proof (induction cs ds rule: list_induct2)
  case Nil
  show ?case by simp
next
  case (Cons c cs d ds)
  have e: "of_char c + 256 * le_value cs = of_char d + 256 * le_value ds"
    using Cons.prems by simp
  then have "(of_char c + 256 * le_value cs) mod 256 = (of_char d + 256 * le_value ds) mod 256"
    and "(of_char c + 256 * le_value cs) div 256 = (of_char d + 256 * le_value ds) div 256"
    by simp_all
  then have "(of_char c :: nat) = of_char d" "le_value cs = le_value ds"
    using of_char_less [of c] of_char_less [of d] by simp_all
  then show ?case using Cons.IH by simp
qed

lemma load64_inj:
  assumes "length cs = length ds" and "length cs \<le> 8" and "load64 cs = load64 ds"
  shows "cs = ds"
proof -
  have "256 ^ length cs \<le> (256 :: nat) ^ 8" using assms(2) by (rule power_increasing) simp
  then have "le_value cs < 2 ^ 64" "le_value ds < 2 ^ 64"
    using le_value_less [of cs] le_value_less [of ds] assms(1) by simp_all
  then have "unat (load64 cs) = le_value cs" "unat (load64 ds) = le_value ds"
    by (simp_all add: load64_def unat_of_nat)
  with assms le_value_inj show ?thesis by metis
qed

lemma le_value_snoc: "le_value (cs @ [c]) = le_value cs + 256 ^ length cs * of_char c"
  by (induction cs) (simp_all add: algebra_simps)

lemma add_push_xor: "a < 2 ^ n \<Longrightarrow> a + push_bit n b = a XOR push_bit n (b :: nat)"
proof (rule disjunctive_add_eq_xor)
  assume "a < 2 ^ n"
  then have "take_bit n a = a" by (rule take_bit_nat_eq_self)
  then have "bit a k \<Longrightarrow> k < n" for k by (metis bit_take_bit_iff)
  then show "a AND push_bit n b = 0" by (auto simp: bit_eq_iff bit_simps dest: leD)
qed

lemma load64_snoc: "load64 (cs @ [c]) = load64 cs XOR push_bit (8 * length cs) (byte c)"
proof -
  have p: "(256 :: nat) ^ length cs = 2 ^ (8 * length cs)" by (simp add: power_mult)
  have "le_value (cs @ [c]) = le_value cs XOR push_bit (8 * length cs) (of_char c)"
    using add_push_xor [of "le_value cs" "8 * length cs" "of_char c"] le_value_less [of cs]
    by (simp add: le_value_snoc p push_bit_eq_mult mult.commute)
  then show ?thesis by (simp add: load64_def byte_def of_nat_xor_eq of_nat_push_bit)
qed

lemma load64_Nil [simp]: "load64 [] = 0"
  by (simp add: load64_def)

lemma load64_singleton [simp]: "load64 [c] = byte c"
  using load64_snoc [of "[]" c] by simp

text \<open>The unrolled switch is one little-endian read of the bytes that are left.\<close>

lemma hash_tail_load:
  assumes "length d < 8"
  shows "hash_tail h d = (if d = [] then h else (h XOR load64 d) * hash_m)"
proof -
  consider (0) "d = []" | (1) a where "d = [a]" | (2) a b where "d = [a, b]"
    | (3) a b c where "d = [a, b, c]" | (4) a b c e where "d = [a, b, c, e]"
    | (5) a b c e f where "d = [a, b, c, e, f]" | (6) a b c e f g where "d = [a, b, c, e, f, g]"
    | (7) a b c e f g i where "d = [a, b, c, e, f, g, i]"
    using assms by (auto simp: less_Suc_eq length_Suc_conv numeral_eq_Suc)
  then show ?thesis
  proof cases
    case 0 then show ?thesis by (simp add: hash_tail_def)
  next
    case 1 then show ?thesis by (simp add: hash_tail_def)
  next
    case (2 a b) then show ?thesis
      using load64_snoc [of "[a]" b] by (simp add: hash_tail_def ac_simps)
  next
    case (3 a b c) then show ?thesis
      using load64_snoc [of "[a]" b] load64_snoc [of "[a, b]" c]
      by (simp add: hash_tail_def ac_simps)
  next
    case (4 a b c e) then show ?thesis
      using load64_snoc [of "[a]" b] load64_snoc [of "[a, b]" c] load64_snoc [of "[a, b, c]" e]
      by (simp add: hash_tail_def ac_simps)
  next
    case (5 a b c e f) then show ?thesis
      using load64_snoc [of "[a]" b] load64_snoc [of "[a, b]" c] load64_snoc [of "[a, b, c]" e]
        load64_snoc [of "[a, b, c, e]" f]
      by (simp add: hash_tail_def ac_simps)
  next
    case (6 a b c e f g) then show ?thesis
      using load64_snoc [of "[a]" b] load64_snoc [of "[a, b]" c] load64_snoc [of "[a, b, c]" e]
        load64_snoc [of "[a, b, c, e]" f] load64_snoc [of "[a, b, c, e, f]" g]
      by (simp add: hash_tail_def ac_simps)
  next
    case (7 a b c e f g i) then show ?thesis
      using load64_snoc [of "[a]" b] load64_snoc [of "[a, b]" c] load64_snoc [of "[a, b, c]" e]
        load64_snoc [of "[a, b, c, e]" f] load64_snoc [of "[a, b, c, e, f]" g]
        load64_snoc [of "[a, b, c, e, f, g]" i]
      by (simp add: hash_tail_def ac_simps)
  qed
qed

section \<open>Collisions need two blocks\<close>

definition hash_from :: "64 word \<Rightarrow> string \<Rightarrow> 64 word" where
  "hash_from h s = (case hash_blocks h s of (h', d) \<Rightarrow> hash_final (hash_tail h' d))"

lemma hash_from_block:
  "8 \<le> length s \<Longrightarrow> hash_from h s = hash_from (mix_block h (load64 (take 8 s))) (drop 8 s)"
  by (simp add: hash_from_def hash_blocks.simps [of h s])

lemma hash_from_tail:
  "length s < 8 \<Longrightarrow> hash_from h s = hash_final (if s = [] then h else (h XOR load64 s) * hash_m)"
  by (simp add: hash_from_def hash_blocks.simps [of h s] hash_tail_load)

lemma hash_from_inj: "hash_from h s = hash_from h' s \<longleftrightarrow> h = h'"
proof (induction s arbitrary: h h' rule: length_induct)
  case (1 s)
  show ?case
  proof (cases "8 \<le> length s")
    case True
    then have "length (drop 8 s) < length s" by simp
    with 1 True show ?thesis by (simp add: hash_from_block mix_block_inj_state)
  next
    case False
    then show ?thesis
      by (simp add: hash_from_tail hash_final_inj mult_hash_m_inj xor_right_inj)
  qed
qed

lemma hash_from_one_block:
  assumes "length s = length t" and "take (8 * i) s = take (8 * i) t"
    and "drop (8 * i + 8) s = drop (8 * i + 8) t" and "hash_from h s = hash_from h t"
  shows "s = t"
  using assms
proof (induction i arbitrary: h s t)
  case 0
  show ?case
  proof (cases "8 \<le> length s")
    case True
    with 0 have "load64 (take 8 s) = load64 (take 8 t)"
      by (simp add: hash_from_block hash_from_inj mix_block_inj_block)
    then have "take 8 s = take 8 t" using 0 by (intro load64_inj) simp_all
    with 0 show ?thesis by (metis append_take_drop_id add_0 mult_0_right)
  next
    case False
    with 0 have "s \<noteq> [] \<Longrightarrow> load64 s = load64 t"
      by (auto simp: hash_from_tail hash_final_inj mult_hash_m_inj xor_left_inj split: if_splits)
    then show ?thesis using 0 False load64_inj [of s t] by (cases "s = []") auto
  qed
next
  case (Suc i)
  show ?case
  proof (cases "8 \<le> length s")
    case True
    have t8: "take 8 s = take 8 t"
      using arg_cong [OF Suc.prems(2), of "take 8"] by (simp add: min_def)
    have "drop 8 s = drop 8 t"
    proof (rule Suc.IH)
      show "hash_from (mix_block h (load64 (take 8 s))) (drop 8 s) =
            hash_from (mix_block h (load64 (take 8 s))) (drop 8 t)"
        using Suc.prems True t8 by (simp add: hash_from_block)
      show "take (8 * i) (drop 8 s) = take (8 * i) (drop 8 t)"
        using arg_cong [OF Suc.prems(2), of "drop 8"] by (simp add: drop_take)
      show "drop (8 * i + 8) (drop 8 s) = drop (8 * i + 8) (drop 8 t)"
        using Suc.prems(3) by (simp add: add.commute)
    qed (use Suc.prems in simp)
    with t8 show ?thesis by (metis append_take_drop_id)
  next
    case False
    with Suc.prems show ?thesis by simp
  qed
qed

lemma ducking_hash_from:
  "ducking_hash s = hash_from (hash_seed XOR (word_of_nat (length s) * hash_m)) s"
  by (simp add: ducking_hash_def hash_from_def)

section \<open>An evaluation\<close>

lemma demo_hash_mod: "(227973808939887454510855336636624944122 :: 64 word) = 13008455382884957178"
  by simp

lemma demo_hash: "ducking_hash ''x + x '' = 13008455382885028596"
  by (simp add: ducking_hash_def hash_seed_def hash_m_def hash_blocks.simps hash_tail_def hash_final_def
      xshift_def mix_block_def byte_def Let_def demo_hash_mod)

section \<open>Properties\<close>

text \<open>C30: two texts of the same length that differ only inside one aligned block of eight bytes
  have different hashes.\<close>

theorem ducking_hash_one_block:
  assumes "length s = length t" and "take (8 * i) s = take (8 * i) t"
    and "drop (8 * i + 8) s = drop (8 * i + 8) t" and "s \<noteq> t"
  shows "ducking_hash s \<noteq> ducking_hash t"
  using hash_from_one_block [OF assms(1-3)] assms(1,4) by (metis ducking_hash_from)

lemma ducking_hash_one_block_witness: "ducking_hash ''x = 1 ; y'' \<noteq> ducking_hash ''x = 2 ; y''"
  by (rule ducking_hash_one_block [where i = 0]) simp_all

end
