(* ===== verification/IR_Tree.thy ===== *)
theory IR_Tree
  imports Ducking_Hash
begin

text \<open>
  The intermediate representation of \<open>srcs/internal/include/ir.h\<close> and
  \<open>srcs/internal/srcs/ir.cpp\<close>. An \<open>IRPtr\<close> is either null or points to a node;
  a node carries its identity (\<open>ir_addr\<close>, what \<open>==\<close> on pointers compares), its
  members and its two child pointers. The trees the program works on are unshared (the
  translator and \<open>deep_copy\<close> allocate every node afresh), so a store through a pointer is
  an update of the one node with that identity (\<open>update_at\<close>); that \<open>deep_copy\<close>
  keeps trees unshared and identities fresh is proved here. Members a constructor does not
  initialise take the value the memory of that node holds (\<open>rt_junk_scope\<close>,
  \<open>rt_junk_stmt\<close>). How a double is printed is a parameter \<open>fd\<close> (Abseil's
  \<open>StrAppend\<close>).
\<close>

section \<open>Data\<close>

type_synonym IRTYPE = "32 word"
type_synonym StatementID = "64 word"
type_synonym ScopeID = "64 word"

datatype DataType =
    kDataDefault | kFunctionDefinition | kFunctionName | kFunctionArgument
  | kFunctionReturnType | kFunctionBody | kClassDefinition | kClassName | kClassBody
  | kVariableDefinition | kVariableName | kVariableType | kPointer | kFixUnit

datatype ScopeType =
  kScopeDefault | kScopeGlobal | kScopeFunction | kScopeStatement | kScopeClass

record IROperator =
  op_prefix :: string
  op_middle :: string
  op_suffix :: string

definition empty_op :: IROperator where
  "empty_op = \<lparr>op_prefix = [], op_middle = [], op_suffix = []\<rparr>"

text \<open>\<open>std::variant<std::monostate, std::string, int, double>\<close>; a double by its bits.\<close>

datatype ir_variant = Monostate | StringData string | IntData int | FloatData "64 word"

record IRInfo =
  ir_type :: IRTYPE
  ir_op :: "IROperator option"
  ir_scope_type :: ScopeType
  ir_scope_id :: ScopeID
  ir_data_type :: DataType
  ir_statement_id :: StatementID
  ir_data :: ir_variant

datatype IR =
  NullIR
| Node (ir_addr: nat) (ir_info: IRInfo) (LeftChild: IR) (RightChild: IR)
where
  "LeftChild NullIR = NullIR"
| "RightChild NullIR = NullIR"

definition ptr_eq :: "IR \<Rightarrow> IR \<Rightarrow> bool" where
  "ptr_eq p q =
     (case p of NullIR \<Rightarrow> q = NullIR
      | Node a _ _ _ \<Rightarrow> (case q of NullIR \<Rightarrow> False | Node b _ _ _ \<Rightarrow> a = b))"

section \<open>Construction\<close>

definition new_addr :: "('z runtime_scheme, nat) M" where
  "new_addr = bnd (gets rt_next) (\<lambda>a. bnd (modify (\<lambda>s. s\<lparr>rt_next := Suc a\<rparr>)) (\<lambda>_. return a))"

text \<open>The macro \<open>GEN_NAME()\<close>: \<open>statement_id_ = id_counter++\<close>.\<close>

definition GEN_NAME :: "('z runtime_scheme, StatementID) M" where
  "GEN_NAME =
     bnd (gets rt_id_counter) (\<lambda>n.
     bnd (modify (\<lambda>s. s\<lparr>rt_id_counter := n + 1\<rparr>)) (\<lambda>_. return n))"

text \<open>\<open>IR(type, op, left, right)\<close>, and the three constructors that take data.\<close>

definition new_op_IR ::
  "IRTYPE \<Rightarrow> IROperator option \<Rightarrow> IR \<Rightarrow> IR \<Rightarrow> ('z runtime_scheme, IR) M" where
  "new_op_IR type op l r =
     bnd new_addr (\<lambda>a. bnd GEN_NAME (\<lambda>sid. bnd (gets (\<lambda>s. rt_junk_scope s a)) (\<lambda>junk.
     return (Node a \<lparr>ir_type = type, ir_op = op, ir_scope_type = kScopeDefault,
       ir_scope_id = junk, ir_data_type = kDataDefault, ir_statement_id = sid,
       ir_data = Monostate\<rparr> l r))))"

definition new_data_IR :: "IRTYPE \<Rightarrow> ir_variant \<Rightarrow> ('z runtime_scheme, IR) M" where
  "new_data_IR type d =
     bnd new_addr (\<lambda>a. bnd GEN_NAME (\<lambda>sid. bnd (gets (\<lambda>s. rt_junk_scope s a)) (\<lambda>junk.
     return (Node a \<lparr>ir_type = type, ir_op = None, ir_scope_type = kScopeDefault,
       ir_scope_id = junk, ir_data_type = kDataDefault, ir_statement_id = sid,
       ir_data = d\<rparr> NullIR NullIR))))"

text \<open>
  \<open>IR(ir, left, right)\<close>: type, operator (an empty one if there was none), data, data type
  and scope type are copied; neither the scope id nor the statement id is initialised.
\<close>

definition copied_op :: "IROperator option \<Rightarrow> IROperator" where
  "copied_op op = (case op of Some oper \<Rightarrow> oper | None \<Rightarrow> empty_op)"

definition new_copy_IR :: "IRInfo \<Rightarrow> IR \<Rightarrow> IR \<Rightarrow> ('z runtime_scheme, IR) M" where
  "new_copy_IR i l r =
     bnd new_addr (\<lambda>a.
     bnd (gets (\<lambda>s. rt_junk_scope s a)) (\<lambda>jscope. bnd (gets (\<lambda>s. rt_junk_stmt s a)) (\<lambda>jstmt.
     return (Node a (i\<lparr>ir_op := Some (copied_op (ir_op i)), ir_scope_id := jscope,
       ir_statement_id := jstmt\<rparr>) l r))))"

text \<open>The defaulted copy constructor \<open>IR(const IR&)\<close> followed by new children.\<close>

definition new_clone_IR :: "IRInfo \<Rightarrow> IR \<Rightarrow> IR \<Rightarrow> ('z runtime_scheme, IR) M" where
  "new_clone_IR i l r = bnd new_addr (\<lambda>a. return (Node a i l r))"

fun deep_copy :: "IR \<Rightarrow> ('z runtime_scheme, IR) M" where
  "deep_copy NullIR = throw Null_dereference"
| "deep_copy (Node a i l r) =
     bnd (if l \<noteq> NullIR then deep_copy l else return NullIR) (\<lambda>l'.
     bnd (if r \<noteq> NullIR then deep_copy r else return NullIR) (\<lambda>r'.
     new_copy_IR i l' r'))"

section \<open>Members\<close>

fun SetLeftChild :: "IR \<Rightarrow> IR \<Rightarrow> IR" where
  "SetLeftChild l (Node a i _ r) = Node a i l r"
| "SetLeftChild l NullIR = NullIR"

fun SetRightChild :: "IR \<Rightarrow> IR \<Rightarrow> IR" where
  "SetRightChild r (Node a i l _) = Node a i l r"
| "SetRightChild r NullIR = NullIR"

fun set_info :: "(IRInfo \<Rightarrow> IRInfo) \<Rightarrow> IR \<Rightarrow> IR" where
  "set_info f (Node a i l r) = Node a (f i) l r"
| "set_info f NullIR = NullIR"

definition SetString :: "string \<Rightarrow> IR \<Rightarrow> IR" where
  "SetString str = set_info (\<lambda>i. i\<lparr>ir_data := StringData str\<rparr>)"

definition SetInt :: "int \<Rightarrow> IR \<Rightarrow> IR" where
  "SetInt n = set_info (\<lambda>i. i\<lparr>ir_data := IntData n\<rparr>)"

definition SetFloat :: "64 word \<Rightarrow> IR \<Rightarrow> IR" where
  "SetFloat f = set_info (\<lambda>i. i\<lparr>ir_data := FloatData f\<rparr>)"

definition SetScopeID :: "ScopeID \<Rightarrow> IR \<Rightarrow> IR" where
  "SetScopeID sid = set_info (\<lambda>i. i\<lparr>ir_scope_id := sid\<rparr>)"

definition SetStatementID :: "StatementID \<Rightarrow> IR \<Rightarrow> IR" where
  "SetStatementID sid = set_info (\<lambda>i. i\<lparr>ir_statement_id := sid\<rparr>)"

definition SetDataType :: "DataType \<Rightarrow> IR \<Rightarrow> IR" where
  "SetDataType ty = set_info (\<lambda>i. i\<lparr>ir_data_type := ty\<rparr>)"

definition SetScopeType :: "ScopeType \<Rightarrow> IR \<Rightarrow> IR" where
  "SetScopeType ty = set_info (\<lambda>i. i\<lparr>ir_scope_type := ty\<rparr>)"

definition ContainString :: "IRInfo \<Rightarrow> bool" where
  "ContainString i = (case ir_data i of StringData _ \<Rightarrow> True | _ \<Rightarrow> False)"

definition GetString :: "IRInfo \<Rightarrow> error + string" where
  "GetString i = (case ir_data i of StringData str \<Rightarrow> Inr str | _ \<Rightarrow> Inl Bad_variant_access)"

text \<open>The test \<open>ContainString() && GetString() == "FIXME"\<close> that several passes make.\<close>

definition is_fixme :: "IRInfo \<Rightarrow> bool" where
  "is_fixme i \<longleftrightarrow> ir_data i = StringData ''FIXME''"

definition is_leaf :: "IR \<Rightarrow> bool" where
  "is_leaf t \<longleftrightarrow> LeftChild t = NullIR \<and> RightChild t = NullIR"

section \<open>Printing\<close>

definition data_text :: "(64 word \<Rightarrow> string) \<Rightarrow> ir_variant \<Rightarrow> string" where
  "data_text fd d =
     (case d of FloatData f \<Rightarrow> fd f | IntData n \<Rightarrow> to_string n | StringData str \<Rightarrow> str
      | Monostate \<Rightarrow> [])"

fun ToStringImpl :: "(64 word \<Rightarrow> string) \<Rightarrow> IR \<Rightarrow> string \<Rightarrow> string" where
  "ToStringImpl fd NullIR res = res"
| "ToStringImpl fd (Node a i l r) res =
     (if ir_data i \<noteq> Monostate then res @ data_text fd (ir_data i)
      else
        let res = (case ir_op i of Some oper \<Rightarrow> res @ op_prefix oper @ '' '' | None \<Rightarrow> res);
            res = (if l \<noteq> NullIR then ToStringImpl fd l res @ '' '' else res);
            res = (case ir_op i of Some oper \<Rightarrow> res @ op_middle oper @ '' '' | None \<Rightarrow> res);
            res = (if r \<noteq> NullIR then ToStringImpl fd r res @ '' '' else res)
        in (case ir_op i of Some oper \<Rightarrow> res @ op_suffix oper | None \<Rightarrow> res))"

definition ToString :: "(64 word \<Rightarrow> string) \<Rightarrow> IR \<Rightarrow> string" where
  "ToString fd t = trim_string (ToStringImpl fd t [])"

section \<open>Traversals\<close>

text \<open>All nodes below the root, children before their parents, left before right.\<close>

fun GetAllChildren :: "IR \<Rightarrow> IR list" where
  "GetAllChildren NullIR = []"
| "GetAllChildren (Node a i l r) =
     (if l \<noteq> NullIR then GetAllChildren l @ [l] else []) @
     (if r \<noteq> NullIR then GetAllChildren r @ [r] else [])"

definition CollectAllIRs :: "IR \<Rightarrow> IR list" where
  "CollectAllIRs root = GetAllChildren root @ [root]"

text \<open>\<open>GetChildNum\<close> sums in an \<open>unsigned int\<close>.\<close>

fun GetChildNum :: "IR \<Rightarrow> 32 word" where
  "GetChildNum NullIR = 0"
| "GetChildNum (Node a i l r) =
     (if l \<noteq> NullIR then GetChildNum l else 0) + (if r \<noteq> NullIR then GetChildNum r else 0) + 1"

fun NeedFixing :: "IR \<Rightarrow> bool" where
  "NeedFixing NullIR = False"
| "NeedFixing (Node a i l r) =
     (if l \<noteq> NullIR \<or> r \<noteq> NullIR
      then (l \<noteq> NullIR \<and> NeedFixing l) \<or> (r \<noteq> NullIR \<and> NeedFixing r)
      else is_fixme i)"

fun locate_parent :: "IR \<Rightarrow> IR \<Rightarrow> IR" where
  "locate_parent NullIR old_ir = NullIR"
| "locate_parent (Node a i l r) old_ir =
     (if (l \<noteq> NullIR \<and> ptr_eq l old_ir) \<or> (r \<noteq> NullIR \<and> ptr_eq r old_ir) then Node a i l r
      else if l \<noteq> NullIR \<and> locate_parent l old_ir \<noteq> NullIR then locate_parent l old_ir
      else if r \<noteq> NullIR then locate_parent r old_ir
      else NullIR)"

text \<open>A store through a pointer to the node with identity \<open>a\<close>.\<close>

fun update_at :: "nat \<Rightarrow> (IR \<Rightarrow> IR) \<Rightarrow> IR \<Rightarrow> IR" where
  "update_at a f NullIR = NullIR"
| "update_at a f (Node b i l r) =
     (let t = Node b i (update_at a f l) (update_at a f r) in if a = b then f t else t)"

section \<open>Shape, identities, copies\<close>

fun ir_size :: "IR \<Rightarrow> nat" where
  "ir_size NullIR = 0"
| "ir_size (Node a i l r) = Suc (ir_size l + ir_size r)"

fun addrs :: "IR \<Rightarrow> nat list" where
  "addrs NullIR = []"
| "addrs (Node a i l r) = a # addrs l @ addrs r"

definition unshared :: "IR \<Rightarrow> bool" where
  "unshared t \<longleftrightarrow> distinct (addrs t)"

fun subtrees :: "IR \<Rightarrow> IR list" where
  "subtrees NullIR = []"
| "subtrees (Node a i l r) = Node a i l r # subtrees l @ subtrees r"

definition same_content :: "IRInfo \<Rightarrow> IRInfo \<Rightarrow> bool" where
  "same_content i j \<longleftrightarrow>
     ir_type j = ir_type i \<and> ir_op j = Some (copied_op (ir_op i)) \<and>
     ir_scope_type j = ir_scope_type i \<and> ir_data_type j = ir_data_type i \<and> ir_data j = ir_data i"

text \<open>\<open>is_copy t t'\<close>: what \<open>deep_copy\<close> makes of \<open>t\<close>, up to identities and to the
  two members it leaves uninitialised.\<close>

fun is_copy :: "IR \<Rightarrow> IR \<Rightarrow> bool" where
  "is_copy NullIR t = (t = NullIR)"
| "is_copy (Node a i l r) t =
     (case t of NullIR \<Rightarrow> False
      | Node b j l' r' \<Rightarrow> same_content i j \<and> is_copy l l' \<and> is_copy r r')"

text \<open>The text of a tree: its operators and literals in print order, without separators.\<close>

fun ir_text :: "(64 word \<Rightarrow> string) \<Rightarrow> IR \<Rightarrow> string" where
  "ir_text fd NullIR = []"
| "ir_text fd (Node a i l r) =
     (if ir_data i \<noteq> Monostate then data_text fd (ir_data i)
      else op_prefix (copied_op (ir_op i)) @ ir_text fd l @ op_middle (copied_op (ir_op i)) @
           ir_text fd r @ op_suffix (copied_op (ir_op i)))"

lemma new_copy_IR_apply:
  "new_copy_IR i l r s =
     Inr (Node (rt_next s) (i\<lparr>ir_op := Some (copied_op (ir_op i)),
            ir_scope_id := rt_junk_scope s (rt_next s), ir_statement_id := rt_junk_stmt s (rt_next s)\<rparr>) l r,
          s\<lparr>rt_next := Suc (rt_next s)\<rparr>)"
  by (simp add: new_copy_IR_def new_addr_def bnd_def m_eval)

lemma ok_deep_copy:
  "t \<noteq> NullIR \<Longrightarrow>
     ok (deep_copy t) s (\<lambda>t' s'. t' \<noteq> NullIR \<and> is_copy t t' \<and> unshared t' \<and>
       set (addrs t') = {rt_next s ..< rt_next s + ir_size t} \<and>
       s' = s\<lparr>rt_next := rt_next s + ir_size t\<rparr>)"
proof (induction t arbitrary: s)
  case NullIR
  then show ?case by simp
next
  case (Node a i l r)
  have L: "ok (if l \<noteq> NullIR then deep_copy l else return NullIR) s
     (\<lambda>t' s'. is_copy l t' \<and> unshared t' \<and> set (addrs t') = {rt_next s ..< rt_next s + ir_size l} \<and>
       s' = s\<lparr>rt_next := rt_next s + ir_size l\<rparr>)" for s :: "'a runtime_scheme"
  proof (cases "l = NullIR")
    case True
    then show ?thesis by (simp add: ok_return unshared_def)
  next
    case False
    then show ?thesis using ok_mono [OF Node.IH(1) [of s]] by simp
  qed
  have R: "ok (if r \<noteq> NullIR then deep_copy r else return NullIR) s
     (\<lambda>t' s'. is_copy r t' \<and> unshared t' \<and> set (addrs t') = {rt_next s ..< rt_next s + ir_size r} \<and>
       s' = s\<lparr>rt_next := rt_next s + ir_size r\<rparr>)" for s :: "'a runtime_scheme"
  proof (cases "r = NullIR")
    case True
    then show ?thesis by (simp add: ok_return unshared_def)
  next
    case False
    then show ?thesis using ok_mono [OF Node.IH(2) [of s]] by simp
  qed
  show ?case
    unfolding deep_copy.simps ok_bnd
  proof (rule ok_mono [OF L], rule ok_mono [OF R], elim conjE, goal_cases)
    case (1 l' s1 r' s2)
    then show ?case
      by (auto simp: ok_def new_copy_IR_apply unshared_def same_content_def)
  qed
qed

lemma deep_copyE:
  assumes "deep_copy t s = Inr (t', s')"
  obtains "t \<noteq> NullIR" "t' \<noteq> NullIR" "is_copy t t'" "unshared t'"
    "set (addrs t') = {rt_next s ..< rt_next s + ir_size t}"
    "s' = s\<lparr>rt_next := rt_next s + ir_size t\<rparr>"
proof -
  have "t \<noteq> NullIR" using assms by (auto simp: m_eval)
  with ok_deep_copy [OF this, of s] assms that show thesis by (simp add: ok_def)
qed

lemma is_copy_Null [simp]: "is_copy t NullIR \<longleftrightarrow> t = NullIR"
  by (cases t) auto

lemma is_copy_size: "is_copy t t' \<Longrightarrow> ir_size t' = ir_size t"
  by (induction t t' rule: is_copy.induct) (auto split: IR.splits)

lemma is_copy_text: "is_copy t t' \<Longrightarrow> ir_text fd t' = ir_text fd t"
  by (induction t t' rule: is_copy.induct) (auto simp: same_content_def copied_op_def split: IR.splits)

lemma is_copy_type: "is_copy t t' \<Longrightarrow> t \<noteq> NullIR \<Longrightarrow> ir_type (ir_info t') = ir_type (ir_info t)"
  by (cases t) (auto simp: same_content_def split: IR.splits)

lemma is_copy_NeedFixing: "is_copy t t' \<Longrightarrow> NeedFixing t' = NeedFixing t"
  by (induction t t' rule: is_copy.induct)
    (auto simp: same_content_def is_fixme_def split: IR.splits)

lemma is_copy_children:
  "is_copy t t' \<Longrightarrow> is_copy (LeftChild t) (LeftChild t') \<and> is_copy (RightChild t) (RightChild t')"
  by (cases t; cases t') auto

lemma copied_op_idem [simp]: "copied_op (Some oper) = oper"
  by (simp add: copied_op_def)

lemma is_copy_trans: "is_copy t u \<Longrightarrow> is_copy u v \<Longrightarrow> is_copy t v"
proof (induction t arbitrary: u v)
  case NullIR
  then show ?case by simp
next
  case (Node a i l r)
  then show ?case by (fastforce simp: same_content_def split: IR.splits)
qed

section \<open>What printing keeps\<close>

lemma visible_ToStringImpl: "visible (ToStringImpl fd t res) = visible res @ visible (ir_text fd t)"
proof (induction t arbitrary: res)
  case NullIR
  then show ?case by simp
next
  case (Node a i l r)
  have b: "visible (x @ '' '') = visible x" for x by simp
  show ?case
    by (cases "ir_op i")
      (auto simp: Node.IH Let_def copied_op_def empty_op_def simp del: visible_append simp: visible_append [of _ "[_]"] visible_append)
qed

lemma visible_ToString: "visible (ToString fd t) = visible (ir_text fd t)"
  by (simp add: ToString_def trim_string_spec visible_trim_spec visible_ToStringImpl)

section \<open>Traversal lemmas\<close>

lemma length_GetAllChildren: "t \<noteq> NullIR \<Longrightarrow> Suc (length (GetAllChildren t)) = ir_size t"
proof (induction t)
  case NullIR
  then show ?case by simp
next
  case (Node a i l r)
  then show ?case by (cases "l = NullIR"; cases "r = NullIR") auto
qed

lemma length_CollectAllIRs: "t \<noteq> NullIR \<Longrightarrow> length (CollectAllIRs t) = ir_size t"
  by (simp add: CollectAllIRs_def length_GetAllChildren)

lemma GetChildNum_size: "GetChildNum t = word_of_nat (ir_size t)"
proof (induction t)
  case NullIR
  then show ?case by simp
next
  case (Node a i l r)
  then show ?case by (cases "l = NullIR"; cases "r = NullIR") (auto simp: algebra_simps)
qed

lemma set_GetAllChildren: "set (GetAllChildren t) = set (subtrees (LeftChild t)) \<union> set (subtrees (RightChild t))"
proof (induction t)
  case NullIR
  then show ?case by simp
next
  case (Node a i l r)
  then show ?case by (cases l; cases r) auto
qed

lemma set_CollectAllIRs: "t \<noteq> NullIR \<Longrightarrow> set (CollectAllIRs t) = set (subtrees t)"
  by (cases t) (auto simp only: CollectAllIRs_def set_GetAllChildren subtrees.simps IR.sel set_append
      list.set Un_iff insert_iff empty_iff)

lemma subtrees_not_Null: "NullIR \<notin> set (subtrees t)"
  by (induction t) auto

lemma subtree_addr: "u \<in> set (subtrees t) \<Longrightarrow> ir_addr u \<in> set (addrs t)"
  by (induction t) auto

lemma addr_subtree: "a \<in> set (addrs t) \<Longrightarrow> \<exists>u\<in>set (subtrees t). ir_addr u = a"
  by (induction t) auto

lemma subtree_size: "u \<in> set (subtrees t) \<Longrightarrow> ir_size u \<le> ir_size t"
  by (induction t) auto

lemma subtree_proper: "u \<in> set (subtrees t) \<Longrightarrow> u \<noteq> t \<Longrightarrow> ir_size u < ir_size t"
  by (cases t) (auto dest: subtree_size)

lemma subtree_trans: "u \<in> set (subtrees t) \<Longrightarrow> v \<in> set (subtrees u) \<Longrightarrow> v \<in> set (subtrees t)"
  by (induction t) auto

lemma subtrees_self: "t \<noteq> NullIR \<Longrightarrow> t \<in> set (subtrees t)"
  by (cases t) auto

lemma length_addrs: "length (addrs t) = ir_size t"
  by (induction t) auto

text \<open>\<open>NeedFixing\<close> looks for a leaf with the tag.\<close>

lemma NeedFixing_iff:
  "NeedFixing t \<longleftrightarrow> (\<exists>u\<in>set (subtrees t). is_leaf u \<and> is_fixme (ir_info u))"
proof (induction t)
  case NullIR
  then show ?case by simp
next
  case (Node a i l r)
  then show ?case by (cases "l = NullIR"; cases "r = NullIR") (auto simp: is_leaf_def)
qed

section \<open>Substituting a subtree through its parent\<close>

fun subst_at :: "nat \<Rightarrow> IR \<Rightarrow> IR \<Rightarrow> IR" where
  "subst_at a new NullIR = NullIR"
| "subst_at a new (Node b i l r) =
     (if a = b then new else Node b i (subst_at a new l) (subst_at a new r))"

lemma subst_at_notin: "a \<notin> set (addrs t) \<Longrightarrow> subst_at a new t = t"
  by (induction t) auto

lemma update_at_notin: "a \<notin> set (addrs t) \<Longrightarrow> update_at a f t = t"
  by (induction t) (auto simp: Let_def)

lemma ptr_eq_addr: "old \<noteq> NullIR \<Longrightarrow> ptr_eq p old \<longleftrightarrow> p \<noteq> NullIR \<and> ir_addr p = ir_addr old"
  by (cases p; cases old) (auto simp: ptr_eq_def)

lemma locate_parent_Null:
  "old \<noteq> NullIR \<Longrightarrow> ir_addr old \<notin> set (addrs t) \<Longrightarrow> locate_parent t old = NullIR"
proof (induction t)
  case NullIR
  then show ?case by simp
next
  case (Node a i l r)
  then show ?case by (cases l; cases r) (auto simp: ptr_eq_addr)
qed

lemma unshared_Node:
  "unshared (Node a i l r) \<longleftrightarrow>
     a \<notin> set (addrs l) \<and> a \<notin> set (addrs r) \<and> unshared l \<and> unshared r \<and> set (addrs l) \<inter> set (addrs r) = {}"
  by (auto simp: unshared_def)

lemma subst_at_root: "t \<noteq> NullIR \<Longrightarrow> ir_addr t = a \<Longrightarrow> subst_at a new t = new"
  by (cases t) auto

text \<open>
  In an unshared tree the parent that \<open>locate_parent\<close> finds is the one whose child is the
  wanted node, and storing into that child replaces exactly the wanted subtree.
\<close>

lemma locate_parent_subst:
  assumes "old \<noteq> NullIR" and "unshared t" and "ir_addr old \<in> set (addrs t)" and "ir_addr t \<noteq> ir_addr old"
  shows "locate_parent t old \<in> set (subtrees t) \<and>
    (if ptr_eq (LeftChild (locate_parent t old)) old
     then update_at (ir_addr (locate_parent t old)) (SetLeftChild new) t = subst_at (ir_addr old) new t
     else ptr_eq (RightChild (locate_parent t old)) old \<and>
          update_at (ir_addr (locate_parent t old)) (SetRightChild new) t = subst_at (ir_addr old) new t)"
  using assms
proof (induction t)
  case NullIR
  then show ?case by simp
next
  case (Node b i l r)
  let ?a = "ir_addr old"
  have sh: "b \<notin> set (addrs l)" "b \<notin> set (addrs r)" "unshared l" "unshared r"
    "set (addrs l) \<inter> set (addrs r) = {}" "?a \<noteq> b"
    using Node.prems by (simp_all add: unshared_Node)
  consider (hereL) "ptr_eq l old" | (hereR) "\<not> ptr_eq l old" "ptr_eq r old"
    | (inL) "\<not> ptr_eq l old" "\<not> ptr_eq r old" "?a \<in> set (addrs l)"
    | (inR) "\<not> ptr_eq l old" "\<not> ptr_eq r old" "?a \<notin> set (addrs l)" "?a \<in> set (addrs r)"
    using Node.prems sh by auto
  then show ?case
  proof cases
    case hereL
    then have l: "l \<noteq> NullIR" "ir_addr l = ?a" using Node.prems by (simp_all add: ptr_eq_addr)
    then have "?a \<in> set (addrs l)" by (cases l) auto
    then have "?a \<notin> set (addrs r)" using sh by auto
    then show ?thesis
      using hereL l sh by (auto simp: Let_def update_at_notin subst_at_notin subst_at_root)
  next
    case hereR
    then have r: "r \<noteq> NullIR" "ir_addr r = ?a" using Node.prems by (simp_all add: ptr_eq_addr)
    then have "?a \<in> set (addrs r)" by (cases r) auto
    then have "?a \<notin> set (addrs l)" using sh by auto
    then show ?thesis
      using hereR r sh by (auto simp: Let_def update_at_notin subst_at_notin subst_at_root)
  next
    case inL
    then have ne: "l \<noteq> NullIR" and na: "ir_addr l \<noteq> ?a"
      using Node.prems by (auto simp: ptr_eq_addr)
    note IH = Node.IH(1) [OF Node.prems(1) sh(3) inL(3) na]
    then have p: "locate_parent l old \<in> set (subtrees l)" by simp
    then have pn: "locate_parent l old \<noteq> NullIR" and pa: "ir_addr (locate_parent l old) \<in> set (addrs l)"
      using subtrees_not_Null subtree_addr by metis+
    have e: "locate_parent (Node b i l r) old = locate_parent l old"
      using inL ne pn by auto
    have "ir_addr (locate_parent l old) \<noteq> b" "ir_addr (locate_parent l old) \<notin> set (addrs r)" "?a \<notin> set (addrs r)"
      using pa sh inL by auto
    then show ?thesis
      unfolding e using IH sh by (auto simp: Let_def update_at_notin subst_at_notin)
  next
    case inR
    then have ne: "r \<noteq> NullIR" and na: "ir_addr r \<noteq> ?a"
      using Node.prems by (auto simp: ptr_eq_addr)
    note IH = Node.IH(2) [OF Node.prems(1) sh(4) inR(4) na]
    then have p: "locate_parent r old \<in> set (subtrees r)" by simp
    then have pa: "ir_addr (locate_parent r old) \<in> set (addrs r)"
      using subtree_addr by metis
    have e: "locate_parent (Node b i l r) old = locate_parent r old"
      using inR ne locate_parent_Null [OF Node.prems(1) inR(3)] by auto
    have "ir_addr (locate_parent r old) \<noteq> b" "ir_addr (locate_parent r old) \<notin> set (addrs l)"
      using pa sh by auto
    then show ?thesis
      unfolding e using IH sh inR by (auto simp: Let_def update_at_notin subst_at_notin)
  qed
qed

section \<open>Properties\<close>

text \<open>\<open>deep_copy\<close> of a tree returns an unshared tree of newly allocated nodes with the same
  shape, types, operators and data, which prints the same text and needs fixing exactly when the
  original does.\<close>

theorem deep_copy_copies:
  assumes "t \<noteq> NullIR"
  shows "ok (deep_copy t) s (\<lambda>t' s'. is_copy t t' \<and> unshared t' \<and>
     set (addrs t') = {rt_next s ..< rt_next s + ir_size t} \<and> s' = s\<lparr>rt_next := rt_next s + ir_size t\<rparr> \<and>
     visible (ToString fd t') = visible (ToString fd t) \<and> NeedFixing t' = NeedFixing t)"
proof (rule ok_mono [OF ok_deep_copy [OF assms]], goal_cases)
  case (1 t' s')
  then have "is_copy t t'" by simp
  then show ?case
    using 1 is_copy_text [of t t' fd] is_copy_NeedFixing [of t t'] by (simp add: visible_ToString)
qed

definition demo_leaf :: IR where
  "demo_leaf = Node 6 \<lparr>ir_type = 7, ir_op = None, ir_scope_type = kScopeDefault, ir_scope_id = 0,
     ir_data_type = kDataDefault, ir_statement_id = 0, ir_data = StringData ''x''\<rparr> NullIR NullIR"

definition demo_parent :: IR where
  "demo_parent = Node 5 (ir_info demo_leaf) demo_leaf NullIR"

lemma deep_copy_copies_witness:
  "ok (deep_copy demo_leaf) demo_runtime (\<lambda>t' s'. unshared t' \<and> set (addrs t') = {0})"
  by (rule ok_mono [OF deep_copy_copies]) (auto simp: demo_leaf_def demo_runtime_def)

text \<open>\<open>CollectAllIRs\<close> lists the nodes of a tree: as many entries as nodes, exactly its
  subtrees, the root last.\<close>

theorem CollectAllIRs_nodes:
  assumes "t \<noteq> NullIR"
  shows "set (CollectAllIRs t) = set (subtrees t) \<and> length (CollectAllIRs t) = ir_size t \<and>
    last (CollectAllIRs t) = t \<and> word_of_nat (length (CollectAllIRs t)) = GetChildNum t"
  using assms by (simp add: set_CollectAllIRs length_CollectAllIRs GetChildNum_size)
    (simp add: CollectAllIRs_def)

lemma CollectAllIRs_nodes_witness: "length (CollectAllIRs demo_parent) = 2"
  using CollectAllIRs_nodes [of demo_parent] by (simp add: demo_parent_def demo_leaf_def)

text \<open>a program needs fixing exactly when one of its leaves carries the string \<open>FIXME\<close>.\<close>

theorem NeedFixing_leaf:
  "NeedFixing t \<longleftrightarrow> (\<exists>u\<in>set (subtrees t). is_leaf u \<and> ir_data (ir_info u) = StringData ''FIXME'')"
  unfolding NeedFixing_iff by (simp add: is_fixme_def)

text \<open>C28: in a tree without sharing \<open>locate_parent\<close> finds the parent of any node but the root,
  and replacing the child there is substituting the node in the tree.\<close>

theorem locate_parent_replaces:
  assumes "old \<noteq> NullIR" and "unshared t" and "ir_addr old \<in> set (addrs t)" and "ir_addr t \<noteq> ir_addr old"
  shows "locate_parent t old \<noteq> NullIR \<and>
    (if ptr_eq (LeftChild (locate_parent t old)) old
     then update_at (ir_addr (locate_parent t old)) (SetLeftChild new) t = subst_at (ir_addr old) new t
     else ptr_eq (RightChild (locate_parent t old)) old \<and>
          update_at (ir_addr (locate_parent t old)) (SetRightChild new) t = subst_at (ir_addr old) new t)"
  using locate_parent_subst [OF assms, of new] subtrees_not_Null by metis

lemma locate_parent_replaces_witness: "locate_parent demo_parent demo_leaf \<noteq> NullIR"
  using locate_parent_replaces [of demo_leaf demo_parent NullIR]
  by (simp add: unshared_def demo_parent_def demo_leaf_def)

end
