(* ===== verification/IR_Translater.thy ===== *)
theory IR_Translater
  imports IR_Tree
begin

text \<open>
  \<open>srcs/antlr/ir_translater.cpp\<close>: from the parse tree ANTLR returns to the binary IR.
  The children of a rule are kept on a stack of strings and IRs; \<open>ExtractOneIR\<close> takes as
  many from its top as one IR node can hold (prefix, left, middle, right, suffix), and the loop
  around it folds the stack into one node. The lexer, the parser and the rule names are generated
  from the grammar of the language under test and are parameters: \<open>parse\<close> gives for an input
  whether the listener saw an error and what the start rule returned (\<open>None\<close> for
  \<open>IllegalArgumentException\<close>). The results: one extraction keeps the order of the pieces,
  the folding loop terminates, and the text of the IR is the text of the parse
  tree, in which only integer literals may be written differently.
\<close>

section \<open>Parse trees\<close>

text \<open>The members of \<open>PolyGlotRuleContext\<close> and of its ANTLR base class that are read;
  \<open>rc_text\<close> is what \<open>getText()\<close> returns.\<close>

record rule_context =
  rc_text :: string
  rc_rule_index :: nat
  rc_is_string_literal :: bool
  rc_is_int_literal :: bool
  rc_data_type :: DataType
  rc_scope_type :: ScopeType

datatype parse_tree = Rule rule_context "parse_tree list" | Terminal string | ErrorNode string

record parser_run =
  pr_error :: bool
  pr_tree :: "parse_tree option"

definition kUnknown :: IRTYPE where
  "kUnknown = 0xdeadbeef"

section \<open>ExtractOneIR\<close>

datatype IM = IM_None | IM_Str string | IM_IR IR

record OneIR =
  o_prefix :: IM
  o_middle :: IM
  o_suffix :: IM
  o_left :: IM
  o_right :: IM

definition empty_OneIR :: OneIR where
  "empty_OneIR = \<lparr>o_prefix = IM_None, o_middle = IM_None, o_suffix = IM_None,
                  o_left = IM_None, o_right = IM_None\<rparr>"

text \<open>A stack is a list with its top first; what is pushed back stays on it.\<close>

fun extract_loop :: "OneIR \<Rightarrow> IM list \<Rightarrow> OneIR \<times> IM list" where
  "extract_loop one [] = (one, [])"
| "extract_loop one (im # stk) =
     (case im of
        IM_Str _ \<Rightarrow>
          if o_left one = IM_None \<and> o_prefix one = IM_None
          then extract_loop (one\<lparr>o_prefix := im\<rparr>) stk
          else if o_middle one = IM_None \<and> o_right one = IM_None
          then extract_loop (one\<lparr>o_middle := im\<rparr>) stk
          else if o_suffix one = IM_None
          then extract_loop (one\<lparr>o_suffix := im\<rparr>) stk
          else (one, im # stk)
      | IM_IR _ \<Rightarrow>
          if o_left one = IM_None \<and> o_middle one = IM_None
          then extract_loop (one\<lparr>o_left := im\<rparr>) stk
          else if o_right one = IM_None \<and> o_suffix one = IM_None
          then extract_loop (one\<lparr>o_right := im\<rparr>) stk
          else (one, im # stk)
      | IM_None \<Rightarrow> extract_loop one stk)"

definition ExtractOneIR :: "IM list \<Rightarrow> OneIR \<times> IM list" where
  "ExtractOneIR stk = extract_loop empty_OneIR stk"

lemma extract_loop_length: "length (snd (extract_loop one stk)) \<le> length stk"
  by (induction one stk rule: extract_loop.induct) (auto split: IM.splits intro: le_SucI)

lemma extract_loop_progress1:
  assumes "o_right one = IM_None" "o_suffix one = IM_None" "o_middle one = IM_None"
    and "snd (extract_loop one stk) \<noteq> []"
  shows "length (snd (extract_loop one stk)) < length stk"
  using assms
proof (induction one stk rule: extract_loop.induct)
  case (1 one)
  then show ?case by simp
next
  case (2 one im stk)
  have le: "length (snd (extract_loop one' stk)) < length (im # stk)" for one'
    using extract_loop_length [of one' stk] by simp
  show ?case using 2 le by (auto split: IM.splits)
qed

lemma extract_loop_progress2:
  assumes "snd (extract_loop empty_OneIR stk) \<noteq> []"
  shows "Suc (length (snd (extract_loop empty_OneIR stk))) < length stk"
  using assms
proof (induction stk)
  case Nil
  then show ?case by simp
next
  case (Cons im stk)
  show ?case
  proof (cases im)
    case IM_None
    then show ?thesis using Cons by auto
  next
    case (IM_Str x)
    then show ?thesis
      using Cons.prems extract_loop_progress1 [of "empty_OneIR\<lparr>o_prefix := im\<rparr>" stk]
      by (auto simp: empty_OneIR_def)
  next
    case (IM_IR x)
    then show ?thesis
      using Cons.prems extract_loop_progress1 [of "empty_OneIR\<lparr>o_left := im\<rparr>" stk]
      by (auto simp: empty_OneIR_def)
  qed
qed

section \<open>Folding the stack\<close>

definition im_string :: "IM \<Rightarrow> string" where
  "im_string im = (case im of IM_Str str \<Rightarrow> str | _ \<Rightarrow> [])"

definition im_ptr :: "IM \<Rightarrow> IR" where
  "im_ptr im = (case im of IM_IR t \<Rightarrow> t | _ \<Rightarrow> NullIR)"

text \<open>
  The \<open>do .. while (stk.size() > 1)\<close> loop: the last node gets the type of the rule, the
  ones before it \<open>kUnknown\<close>.
\<close>

function fold_stack :: "IRTYPE \<Rightarrow> IM list \<Rightarrow> ('z runtime_scheme, IM list) M" where
  "fold_stack rule_index stk =
     (let one = fst (ExtractOneIR stk); rest = snd (ExtractOneIR stk)
      in bnd (new_op_IR (if rest = [] then rule_index else kUnknown)
                (Some \<lparr>op_prefix = im_string (o_prefix one), op_middle = im_string (o_middle one),
                       op_suffix = im_string (o_suffix one)\<rparr>)
                (im_ptr (o_left one)) (im_ptr (o_right one)))
           (\<lambda>n. if rest \<noteq> [] then fold_stack rule_index (IM_IR n # rest) else return [IM_IR n]))"
  by pat_completeness auto
termination
  by (relation "measure (\<lambda>(_, stk). length stk)")
    (auto simp: ExtractOneIR_def dest: extract_loop_progress2)

declare fold_stack.simps [simp del]

section \<open>TranslateNode\<close>

text \<open>What both branches end with: the context's data type, and its scope type unless default.\<close>

definition finish_node :: "rule_context \<Rightarrow> IR \<Rightarrow> IR" where
  "finish_node ctx t =
     (let t = SetDataType (rc_data_type ctx) t
      in if rc_scope_type ctx \<noteq> kScopeDefault then SetScopeType (rc_scope_type ctx) t else t)"

fun TranslateNode :: "parse_tree \<Rightarrow> ('z runtime_scheme, IR) M"
and TranslateChildren :: "parse_tree list \<Rightarrow> IM list \<Rightarrow> ('z runtime_scheme, IM list) M" where
  "TranslateNode (Terminal txt) = throw Assert_failed"
| "TranslateNode (ErrorNode txt) = throw Assert_failed"
| "TranslateNode (Rule ctx children) =
     (if rc_is_string_literal ctx then
        bnd (new_data_IR (word_of_nat (rc_rule_index ctx)) (StringData (rc_text ctx))) (\<lambda>t.
        return (finish_node ctx t))
      else if rc_is_int_literal ctx then
        bnd (lift_result (stoi (rc_text ctx))) (\<lambda>n.
        bnd (new_data_IR (word_of_nat (rc_rule_index ctx)) (IntData n)) (\<lambda>t.
        return (finish_node ctx t)))
      else if children = [] then return NullIR
      else
        bnd (TranslateChildren children []) (\<lambda>tmp_stk.
        if tmp_stk = [] \<and> (rc_text ctx = ''<EOF>'' \<or> rc_text ctx = []) then return NullIR
        else
          bnd (require Assert_failed (tmp_stk \<noteq> [])) (\<lambda>_.
          bnd (fold_stack (word_of_nat (rc_rule_index ctx)) (rev tmp_stk)) (\<lambda>stk.
          bnd (require Assert_failed (length stk = 1)) (\<lambda>_.
          return (finish_node ctx (im_ptr (hd stk))))))))"
| "TranslateChildren [] tmp_stk = return tmp_stk"
| "TranslateChildren (c # cs) tmp_stk =
     (case c of
        Terminal txt \<Rightarrow>
          if txt \<noteq> ''<EOF>'' then TranslateChildren cs (IM_Str txt # tmp_stk)
          else TranslateChildren cs tmp_stk
      | _ \<Rightarrow>
          bnd (TranslateNode c) (\<lambda>child_ir.
          if child_ir \<noteq> NullIR then TranslateChildren cs (IM_IR child_ir # tmp_stk)
          else TranslateChildren cs tmp_stk))"

text \<open>
  \<open>TranslateToIR\<close>. The listener's flag is static: it is raised by this parse, read and
  lowered after it, but an \<open>IllegalArgumentException\<close> leaves it as it is.
\<close>

definition TranslateToIR :: "(string \<Rightarrow> parser_run) \<Rightarrow> string \<Rightarrow> ('z runtime_scheme, IR) M" where
  "TranslateToIR parse input_program =
     (let run = parse input_program in
      bnd (modify (\<lambda>s. s\<lparr>rt_listener_error := rt_listener_error s \<or> pr_error run\<rparr>)) (\<lambda>_.
      case pr_tree run of
        None \<Rightarrow> return NullIR
      | Some tree \<Rightarrow>
          bnd (gets rt_listener_error) (\<lambda>has_error.
          if has_error then
            bnd (modify (\<lambda>s. s\<lparr>rt_listener_error := False\<rparr>)) (\<lambda>_. return NullIR)
          else
            bnd (modify (\<lambda>s. s\<lparr>rt_parse_counter :=
                   (if 10000 < rt_parse_counter s then 0 else Suc (rt_parse_counter s))\<rparr>)) (\<lambda>_.
            TranslateNode tree))))"

section \<open>Rule names\<close>

definition GetIRTypeStr :: "string list \<Rightarrow> IRTYPE \<Rightarrow> error + string" where
  "GetIRTypeStr rule_names type =
     (if unat type < length rule_names then Inr (rule_names ! unat type) else Inl Assert_failed)"

definition GetRuleNum :: "string list \<Rightarrow> nat" where
  "GetRuleNum rule_names = length rule_names"

text \<open>The static \<open>type_map\<close>: later rules of the same name overwrite earlier ones.\<close>

fun type_map_from :: "nat \<Rightarrow> string list \<Rightarrow> (string \<rightharpoonup> IRTYPE) \<Rightarrow> (string \<rightharpoonup> IRTYPE)" where
  "type_map_from i [] m = m"
| "type_map_from i (n # ns) m = type_map_from (Suc i) ns (m(n \<mapsto> word_of_nat i))"

definition GetIRTypeByStr :: "string list \<Rightarrow> string \<Rightarrow> error + IRTYPE" where
  "GetIRTypeByStr rule_names type_str =
     (case type_map_from 0 rule_names Map.empty type_str of
        None \<Rightarrow> Inl Assert_failed | Some t \<Rightarrow> Inr t)"

section \<open>One extraction keeps the order\<close>

text \<open>
  Filled slots are never followed by a slot that is still open on their left. The statement is
  for any way \<open>h\<close> of listing something about a piece (its text, its identities).
\<close>

definition slots_in_order :: "OneIR \<Rightarrow> bool" where
  "slots_in_order one \<longleftrightarrow>
     (o_left one = IM_None \<and> o_prefix one = IM_None \<longrightarrow>
        o_middle one = IM_None \<and> o_right one = IM_None \<and> o_suffix one = IM_None) \<and>
     (o_left one = IM_None \<and> o_middle one = IM_None \<longrightarrow>
        o_right one = IM_None \<and> o_suffix one = IM_None) \<and>
     (o_middle one = IM_None \<and> o_right one = IM_None \<longrightarrow> o_suffix one = IM_None)"

definition one_flat :: "(IM \<Rightarrow> 'a list) \<Rightarrow> OneIR \<Rightarrow> 'a list" where
  "one_flat h one =
     h (o_prefix one) @ h (o_left one) @ h (o_middle one) @ h (o_right one) @ h (o_suffix one)"

definition slots_typed :: "OneIR \<Rightarrow> bool" where
  "slots_typed one \<longleftrightarrow>
     (\<forall>t. o_prefix one \<noteq> IM_IR t \<and> o_middle one \<noteq> IM_IR t \<and> o_suffix one \<noteq> IM_IR t) \<and>
     (\<forall>x. o_left one \<noteq> IM_Str x \<and> o_right one \<noteq> IM_Str x)"

lemma extract_loop_flat:
  assumes "h IM_None = []" and "slots_in_order one"
  shows "one_flat h (fst (extract_loop one stk)) @ concat (map h (snd (extract_loop one stk)))
           = one_flat h one @ concat (map h stk)"
  using assms(2)
proof (induction one stk rule: extract_loop.induct)
  case (1 one)
  then show ?case by simp
next
  case (2 one im stk)
  show ?case
  proof (cases im)
    case IM_None
    then show ?thesis using 2 assms(1) by simp
  next
    case (IM_Str x)
    then show ?thesis
      using 2 assms(1) by (auto simp: slots_in_order_def one_flat_def)
  next
    case (IM_IR t)
    then show ?thesis
      using 2 assms(1) by (auto simp: slots_in_order_def one_flat_def)
  qed
qed

lemma extract_loop_typed: "slots_typed one \<Longrightarrow> slots_typed (fst (extract_loop one stk))"
proof (induction one stk rule: extract_loop.induct)
  case (1 one)
  then show ?case by simp
next
  case (2 one im stk)
  then show ?case by (cases im) (auto simp: slots_typed_def)
qed

lemma ExtractOneIR_flat:
  "h IM_None = [] \<Longrightarrow>
     one_flat h (fst (ExtractOneIR stk)) @ concat (map h (snd (ExtractOneIR stk))) = concat (map h stk)"
  using extract_loop_flat [of h empty_OneIR stk]
  by (simp add: ExtractOneIR_def slots_in_order_def one_flat_def empty_OneIR_def)

lemma ExtractOneIR_typed: "slots_typed (fst (ExtractOneIR stk))"
  unfolding ExtractOneIR_def by (rule extract_loop_typed) (simp add: slots_typed_def empty_OneIR_def)

section \<open>Folding keeps the text\<close>

definition im_text :: "(64 word \<Rightarrow> string) \<Rightarrow> IM \<Rightarrow> string" where
  "im_text fd im = (case im of IM_None \<Rightarrow> [] | IM_Str x \<Rightarrow> x | IM_IR t \<Rightarrow> ir_text fd t)"

definition im_addrs :: "IM \<Rightarrow> nat list" where
  "im_addrs im = (case im of IM_IR t \<Rightarrow> addrs t | _ \<Rightarrow> [])"

abbreviation stk_text :: "(64 word \<Rightarrow> string) \<Rightarrow> IM list \<Rightarrow> string" where
  "stk_text fd stk \<equiv> concat (map (im_text fd) stk)"

abbreviation stk_addrs :: "IM list \<Rightarrow> nat list" where
  "stk_addrs stk \<equiv> concat (map im_addrs stk)"

text \<open>Literals are leaves without an operator, all other nodes carry one and no data.\<close>

fun ir_wf :: "IR \<Rightarrow> bool" where
  "ir_wf NullIR = True"
| "ir_wf (Node a i l r) =
     ((if ir_data i = Monostate then ir_op i \<noteq> None else l = NullIR \<and> r = NullIR) \<and> ir_wf l \<and> ir_wf r)"

definition im_wf :: "IM \<Rightarrow> bool" where
  "im_wf im = (case im of IM_IR t \<Rightarrow> ir_wf t | _ \<Rightarrow> True)"

lemma im_not_IR: "\<forall>t. im \<noteq> IM_IR t \<Longrightarrow> im_text fd im = im_string im \<and> im_addrs im = []"
  by (cases im) (simp_all add: im_text_def im_string_def im_addrs_def)

lemma im_not_Str:
  "\<forall>x. im \<noteq> IM_Str x \<Longrightarrow> im_text fd im = ir_text fd (im_ptr im) \<and> im_addrs im = addrs (im_ptr im)"
  by (cases im) (simp_all add: im_text_def im_ptr_def im_addrs_def)

lemma new_op_IR_apply:
  "new_op_IR type op l r s =
     Inr (Node (rt_next s) \<lparr>ir_type = type, ir_op = op, ir_scope_type = kScopeDefault,
            ir_scope_id = rt_junk_scope s (rt_next s), ir_data_type = kDataDefault,
            ir_statement_id = rt_id_counter s, ir_data = Monostate\<rparr> l r,
          s\<lparr>rt_next := Suc (rt_next s), rt_id_counter := rt_id_counter s + 1\<rparr>)"
  by (simp add: new_op_IR_def new_addr_def GEN_NAME_def bnd_def m_eval)

lemma new_data_IR_apply:
  "new_data_IR type d s =
     Inr (Node (rt_next s) \<lparr>ir_type = type, ir_op = None, ir_scope_type = kScopeDefault,
            ir_scope_id = rt_junk_scope s (rt_next s), ir_data_type = kDataDefault,
            ir_statement_id = rt_id_counter s, ir_data = d\<rparr> NullIR NullIR,
          s\<lparr>rt_next := Suc (rt_next s), rt_id_counter := rt_id_counter s + 1\<rparr>)"
  by (simp add: new_data_IR_def new_addr_def GEN_NAME_def bnd_def m_eval)

definition stack_ok :: "IM list \<Rightarrow> 'z runtime_scheme \<Rightarrow> bool" where
  "stack_ok stk s \<longleftrightarrow>
     distinct (stk_addrs stk) \<and> (\<forall>a\<in>set (stk_addrs stk). a < rt_next s) \<and> (\<forall>im\<in>set stk. im_wf im)"

lemma extract_loop_wf:
  assumes "\<forall>im\<in>set stk. im_wf im" "im_wf (o_left one)" "im_wf (o_right one)"
  shows "(\<forall>im\<in>set (snd (extract_loop one stk)). im_wf im) \<and>
         im_wf (o_left (fst (extract_loop one stk))) \<and> im_wf (o_right (fst (extract_loop one stk)))"
  using assms
proof (induction one stk rule: extract_loop.induct)
  case (1 one)
  then show ?case by simp
next
  case (2 one im stk)
  then show ?case by (cases im) auto
qed

lemma extracted_node:
  assumes "stack_ok stk s" and "ExtractOneIR stk = (one, rest)"
    and "op = \<lparr>op_prefix = im_string (o_prefix one), op_middle = im_string (o_middle one),
               op_suffix = im_string (o_suffix one)\<rparr>"
    and "new_op_IR type (Some op) (im_ptr (o_left one)) (im_ptr (o_right one)) s = Inr (t, s')"
  shows "stack_ok (IM_IR t # rest) s'" and "stk_text fd (IM_IR t # rest) = stk_text fd stk"
    and "set (addrs t) \<subseteq> insert (rt_next s) (set (stk_addrs stk))"
    and "set (stk_addrs rest) \<subseteq> set (stk_addrs stk)"
    and "rt_next s' = Suc (rt_next s)"
    and "t \<noteq> NullIR" "ir_type (ir_info t) = type" "ir_data (ir_info t) = Monostate"
proof -
  have st: "slots_typed one" using ExtractOneIR_typed [of stk] assms(2) by simp
  have fl: "one_flat h one @ concat (map h rest) = concat (map h stk)" if "h IM_None = []" for h :: "IM \<Rightarrow> 'b list"
    using ExtractOneIR_flat [of h stk, OF that] assms(2) by simp
  have A: "addrs (im_ptr (o_left one)) @ addrs (im_ptr (o_right one)) @ stk_addrs rest = stk_addrs stk"
    using fl [of im_addrs] st im_not_IR [of "o_prefix one"] im_not_IR [of "o_middle one"]
      im_not_IR [of "o_suffix one"] im_not_Str [of "o_left one"] im_not_Str [of "o_right one"]
    by (simp add: one_flat_def slots_typed_def im_addrs_def [of IM_None])
  have T: "im_string (o_prefix one) @ ir_text fd (im_ptr (o_left one)) @ im_string (o_middle one) @
      ir_text fd (im_ptr (o_right one)) @ im_string (o_suffix one) @ stk_text fd rest = stk_text fd stk"
    using fl [of "im_text fd"] st im_not_IR [of "o_prefix one"] im_not_IR [of "o_middle one"]
      im_not_IR [of "o_suffix one"] im_not_Str [of "o_left one"] im_not_Str [of "o_right one"]
    by (simp add: one_flat_def slots_typed_def im_text_def [of _ IM_None])
  have W: "\<forall>im\<in>set rest. im_wf im" "im_wf (o_left one)" "im_wf (o_right one)"
    using extract_loop_wf [of stk empty_OneIR] assms(1,2)
    by (simp_all add: stack_ok_def ExtractOneIR_def empty_OneIR_def im_wf_def)
  then have W': "ir_wf (im_ptr (o_left one))" "ir_wf (im_ptr (o_right one))"
    by (simp_all add: im_wf_def im_ptr_def split: IM.splits)
  have S: "distinct (stk_addrs stk)" "\<forall>a\<in>set (stk_addrs stk). a < rt_next s"
    using assms(1) by (simp_all add: stack_ok_def)
  have t: "t = Node (rt_next s) \<lparr>ir_type = type, ir_op = Some op, ir_scope_type = kScopeDefault,
            ir_scope_id = rt_junk_scope s (rt_next s), ir_data_type = kDataDefault,
            ir_statement_id = rt_id_counter s, ir_data = Monostate\<rparr>
            (im_ptr (o_left one)) (im_ptr (o_right one))"
    and s': "s' = s\<lparr>rt_next := Suc (rt_next s), rt_id_counter := rt_id_counter s + 1\<rparr>"
    using assms(4) by (simp_all add: new_op_IR_apply)
  show "stk_text fd (IM_IR t # rest) = stk_text fd stk"
    using T by (simp add: t assms(3) im_text_def)
  show "set (addrs t) \<subseteq> insert (rt_next s) (set (stk_addrs stk))"
    and "set (stk_addrs rest) \<subseteq> set (stk_addrs stk)"
    unfolding A [symmetric] by (auto simp: t)
  show "rt_next s' = Suc (rt_next s)" "t \<noteq> NullIR" "ir_type (ir_info t) = type"
    "ir_data (ir_info t) = Monostate" by (simp_all add: t s')
  have "distinct (addrs t @ stk_addrs rest) \<and> (\<forall>a\<in>set (addrs t @ stk_addrs rest). a < rt_next s')"
    using S unfolding A [symmetric] by (auto simp: t s' less_Suc_eq)
  then show "stack_ok (IM_IR t # rest) s'"
    using W W' by (simp add: stack_ok_def im_addrs_def im_wf_def t)
qed

lemma ok_fold_stack:
  assumes "stack_ok stk s"
  shows "ok (fold_stack ri stk) s (\<lambda>stk' s'. \<exists>t. stk' = [IM_IR t] \<and> t \<noteq> NullIR \<and>
     (\<forall>fd. ir_text fd t = stk_text fd stk) \<and> ir_type (ir_info t) = ri \<and>
     ir_data (ir_info t) = Monostate \<and> unshared t \<and> ir_wf t \<and>
     set (addrs t) \<subseteq> set (stk_addrs stk) \<union> {rt_next s ..< rt_next s'} \<and> rt_next s \<le> rt_next s')"
  using assms
proof (induction stk arbitrary: s rule: measure_induct_rule [of length])
  case (less stk)
  obtain one rest where E: "ExtractOneIR stk = (one, rest)" by (cases "ExtractOneIR stk")
  define ty where "ty = (if rest = [] then ri else kUnknown)"
  define oper where "oper = \<lparr>op_prefix = im_string (o_prefix one),
    op_middle = im_string (o_middle one), op_suffix = im_string (o_suffix one)\<rparr>"
  obtain t s' where N: "new_op_IR ty (Some oper) (im_ptr (o_left one)) (im_ptr (o_right one)) s = Inr (t, s')"
    by (simp add: new_op_IR_apply)
  note X = extracted_node [OF less.prems E oper_def N]
  have ap: "ok (fold_stack ri stk) s Q \<longleftrightarrow>
      ok (if rest \<noteq> [] then fold_stack ri (IM_IR t # rest) else return [IM_IR t]) s' Q" for Q
    using N by (subst fold_stack.simps) (simp add: E Let_def ok_def bnd_def ty_def oper_def)
  show ?case
  proof (cases "rest = []")
    case True
    have "ir_text fd t = stk_text fd stk" for fd
      using X(2) [of fd] True by (simp add: im_text_def)
    moreover have "unshared t" "ir_wf t"
      using X(1) True by (simp_all add: stack_ok_def unshared_def im_addrs_def im_wf_def)
    ultimately show ?thesis
      unfolding ap using True X(3,5-8) by (auto simp: ok_return ty_def)
  next
    case False
    have len: "length (IM_IR t # rest) < length stk"
      using extract_loop_progress2 [of stk] E False by (simp add: ExtractOneIR_def)
    have tx: "stk_text fd (IM_IR t # rest) = stk_text fd stk" for fd by (rule X(2))
    have ad: "set (stk_addrs (IM_IR t # rest)) \<subseteq> insert (rt_next s) (set (stk_addrs stk))"
      using X(3,4) by (auto simp: im_addrs_def)
    have sub: "set (stk_addrs (IM_IR t # rest)) \<union> {rt_next s' ..< n} \<subseteq>
        set (stk_addrs stk) \<union> {rt_next s ..< n}" if "rt_next s' \<le> n" for n
      using ad X(5) that by (auto simp: subset_iff)
    have "ok (fold_stack ri (IM_IR t # rest)) s' (\<lambda>stk' s''. \<exists>t'. stk' = [IM_IR t'] \<and> t' \<noteq> NullIR \<and>
       (\<forall>fd. ir_text fd t' = stk_text fd stk) \<and> ir_type (ir_info t') = ri \<and>
       ir_data (ir_info t') = Monostate \<and> unshared t' \<and> ir_wf t' \<and>
       set (addrs t') \<subseteq> set (stk_addrs stk) \<union> {rt_next s ..< rt_next s''} \<and> rt_next s \<le> rt_next s'')"
    proof (rule ok_mono [OF less.IH [OF len X(1), unfolded tx]], elim exE conjE, goal_cases)
      case (1 stk' s'' t')
      then show ?case
        using order_trans [OF 1(8) sub [OF 1(9)]] X(5) by (intro exI [of _ t']) simp
    qed
    then show ?thesis unfolding ap using False by simp
  qed
qed

section \<open>TranslateNode keeps the text of the parse tree\<close>

text \<open>
  The text of a parse tree as the translation reads it: the tokens in order without the
  end-of-file marker, a string literal as its whole text, and an integer literal not as its text but
  as the number that \<open>std::stoi\<close> reads from it, printed in decimal (\<open>007\<close> becomes \<open>7\<close>, \<open>0x1F\<close> becomes
  \<open>0\<close>).
\<close>

fun pt_text :: "parse_tree \<Rightarrow> string" where
  "pt_text (Terminal txt) = (if txt = ''<EOF>'' then [] else txt)"
| "pt_text (ErrorNode txt) = []"
| "pt_text (Rule ctx children) =
     (if rc_is_string_literal ctx then rc_text ctx
      else if rc_is_int_literal ctx then
        (case stoi (rc_text ctx) of Inr n \<Rightarrow> to_string n | Inl _ \<Rightarrow> [])
      else concat (map pt_text children))"

text \<open>
  The tokens themselves, in order, and the parse trees whose tokens the translation does not rewrite:
  \<open>getText()\<close> of a literal rule is the concatenation of its tokens, and an integer literal is written
  the way its number is printed.
\<close>

fun pt_tokens :: "parse_tree \<Rightarrow> string" where
  "pt_tokens (Terminal txt) = (if txt = ''<EOF>'' then [] else txt)"
| "pt_tokens (ErrorNode txt) = txt"
| "pt_tokens (Rule ctx children) = concat (map pt_tokens children)"

fun pt_verbatim :: "parse_tree \<Rightarrow> bool" where
  "pt_verbatim (Terminal txt) = True"
| "pt_verbatim (ErrorNode txt) = False"
| "pt_verbatim (Rule ctx children) =
     (if rc_is_string_literal ctx then rc_text ctx = concat (map pt_tokens children)
      else if rc_is_int_literal ctx then
        rc_text ctx = concat (map pt_tokens children) \<and>
        (case stoi (rc_text ctx) of Inr n \<Rightarrow> to_string n = rc_text ctx | Inl _ \<Rightarrow> False)
      else list_all pt_verbatim children)"

lemma pt_text_verbatim: "pt_verbatim pt \<Longrightarrow> pt_text pt = pt_tokens pt"
proof (induction pt)
  case (Rule ctx children)
  have "concat (map pt_text children) = concat (map pt_tokens children)" if "list_all pt_verbatim children"
    using Rule.IH that by (induction children) auto
  then show ?case using Rule.prems by (auto split: if_splits sum.splits)
qed simp_all

text \<open>The rules that translate to no node at all.\<close>

fun pt_null :: "parse_tree \<Rightarrow> bool" where
  "pt_null (Terminal txt) = (txt = ''<EOF>'')"
| "pt_null (ErrorNode txt) = False"
| "pt_null (Rule ctx children) =
     (\<not> rc_is_string_literal ctx \<and> \<not> rc_is_int_literal ctx \<and> list_all pt_null children)"

text \<open>
  What the translation relies on: no error node below a rule that reports no error, integer
  literals \<open>stoi\<close> can read, and no text in a rule that produced nothing.
\<close>

fun pt_ok :: "parse_tree \<Rightarrow> bool" where
  "pt_ok (Terminal txt) = True"
| "pt_ok (ErrorNode txt) = False"
| "pt_ok (Rule ctx children) =
     (rc_is_string_literal ctx \<or>
      (if rc_is_int_literal ctx then (case stoi (rc_text ctx) of Inr _ \<Rightarrow> True | Inl _ \<Rightarrow> False)
       else list_all pt_ok children \<and>
            (children \<noteq> [] \<and> list_all pt_null children \<longrightarrow>
               rc_text ctx = ''<EOF>'' \<or> rc_text ctx = [])))"

definition is_rule :: "parse_tree \<Rightarrow> bool" where
  "is_rule t = (case t of Rule _ _ \<Rightarrow> True | _ \<Rightarrow> False)"

lemma finish_node_simps [simp]:
  "finish_node ctx t = NullIR \<longleftrightarrow> t = NullIR"
  "ir_text fd (finish_node ctx t) = ir_text fd t"
  "addrs (finish_node ctx t) = addrs t"
  "ir_wf (finish_node ctx t) = ir_wf t"
  by (cases t; simp add: finish_node_def SetDataType_def SetScopeType_def Let_def)+

lemma finish_node_info:
  "t \<noteq> NullIR \<Longrightarrow>
     ir_type (ir_info (finish_node ctx t)) = ir_type (ir_info t) \<and>
     ir_data_type (ir_info (finish_node ctx t)) = rc_data_type ctx"
  by (cases t) (simp_all add: finish_node_def SetDataType_def SetScopeType_def Let_def)

definition translated :: "parse_tree \<Rightarrow> 'z runtime_scheme \<Rightarrow> IR \<Rightarrow> 'z runtime_scheme \<Rightarrow> bool" where
  "translated pt s t s' \<longleftrightarrow>
     (\<forall>fd. ir_text fd t = pt_text pt) \<and> (t = NullIR \<longleftrightarrow> pt_null pt) \<and> unshared t \<and> ir_wf t \<and>
     set (addrs t) \<subseteq> {rt_next s ..< rt_next s'} \<and> rt_next s \<le> rt_next s' \<and>
     (\<forall>ctx cs. pt = Rule ctx cs \<and> t \<noteq> NullIR \<longrightarrow>
        ir_type (ir_info t) = word_of_nat (rc_rule_index ctx) \<and>
        ir_data_type (ir_info t) = rc_data_type ctx)"

definition pushed :: "parse_tree list \<Rightarrow> IM list \<Rightarrow> 'z runtime_scheme \<Rightarrow> IM list \<Rightarrow> 'z runtime_scheme \<Rightarrow> bool" where
  "pushed cs stk s stk' s' \<longleftrightarrow>
     (\<forall>fd. stk_text fd (rev stk') = stk_text fd (rev stk) @ concat (map pt_text cs)) \<and>
     (stk' = [] \<longleftrightarrow> stk = [] \<and> list_all pt_null cs) \<and> stack_ok (rev stk') s' \<and>
     set (stk_addrs stk') \<subseteq> set (stk_addrs stk) \<union> {rt_next s ..< rt_next s'} \<and> rt_next s \<le> rt_next s'"

lemma ok_literal:
  assumes "\<And>fd. data_text fd d = pt_text (Rule ctx cs)" and "\<not> pt_null (Rule ctx cs)"
    and "d \<noteq> Monostate"
  shows "ok (bnd (new_data_IR (word_of_nat (rc_rule_index ctx)) d) (\<lambda>t. return (finish_node ctx t))) s
           (translated (Rule ctx cs) s)"
  using assms finish_node_info
  by (simp add: ok_def bnd_def m_eval new_data_IR_apply translated_def unshared_def)

lemma stack_ok_push:
  assumes "stack_ok (rev stk) s" and "translated c s t s'" and "t \<noteq> NullIR"
  shows "stack_ok (rev (IM_IR t # stk)) s'"
proof -
  have "\<forall>a\<in>set (addrs t). rt_next s \<le> a \<and> a < rt_next s'" "rt_next s \<le> rt_next s'" "distinct (addrs t)"
    "ir_wf t" using assms(2) by (auto simp: translated_def unshared_def)
  moreover have "\<forall>a\<in>set (stk_addrs (rev stk)). a < rt_next s" "distinct (stk_addrs (rev stk))"
    "\<forall>im\<in>set stk. im_wf im" using assms(1) by (auto simp: stack_ok_def)
  moreover from calculation have "set (stk_addrs (rev stk)) \<inter> set (addrs t) = {}"
    by (metis disjoint_iff leD)
  moreover have "\<forall>a\<in>set (stk_addrs (rev stk)). a < rt_next s'"
    using calculation(2,5) by (metis order.strict_trans2)
  ultimately show ?thesis
    by (simp add: stack_ok_def im_addrs_def im_wf_def) blast
qed

lemma stack_ok_mono: "stack_ok stk s \<Longrightarrow> rt_next s \<le> rt_next s' \<Longrightarrow> stack_ok stk s'"
  by (force simp: stack_ok_def)

lemma stack_ok_push_str: "stack_ok (rev stk) s \<Longrightarrow> stack_ok (rev (IM_Str x # stk)) s"
  by (simp add: stack_ok_def im_addrs_def im_wf_def)

lemma range_extend:
  "A \<subseteq> X \<union> {b ..< c} \<Longrightarrow> X \<subseteq> {a ..< b} \<Longrightarrow> a \<le> b \<Longrightarrow> b \<le> c \<Longrightarrow> A \<subseteq> {a ..< c :: nat}"
  by (auto simp: subset_iff)

lemma range_widen:
  "A \<subseteq> X \<union> {b ..< c} \<Longrightarrow> X \<subseteq> Z \<union> {a ..< b} \<Longrightarrow> a \<le> b \<Longrightarrow> b \<le> c \<Longrightarrow>
     A \<subseteq> Z \<union> {a ..< c :: nat}"
proof
  fix x
  assume "A \<subseteq> X \<union> {b ..< c}" "X \<subseteq> Z \<union> {a ..< b}" "a \<le> b" "b \<le> c" "x \<in> A"
  then have "x \<in> Z \<or> x \<in> {a ..< b} \<or> x \<in> {b ..< c}" by blast
  with \<open>a \<le> b\<close> \<open>b \<le> c\<close> show "x \<in> Z \<union> {a ..< c}" by auto
qed

lemma pushed_skip:
  assumes "pushed cs stk s1 stk' s'" and "pt_text c = []" and "pt_null c" and "rt_next s \<le> rt_next s1"
  shows "pushed (c # cs) stk s stk' s'"
  unfolding pushed_def
proof (intro conjI)
  show "set (stk_addrs stk') \<subseteq> set (stk_addrs stk) \<union> {rt_next s ..< rt_next s'}"
    using range_widen [of "set (stk_addrs stk')" "set (stk_addrs stk)" "rt_next s1" "rt_next s'"
        "set (stk_addrs stk)" "rt_next s"] assms
    by (simp add: pushed_def)
qed (use assms in \<open>simp_all add: pushed_def\<close>)

lemma pushed_str:
  assumes "pushed cs (IM_Str w # stk) s stk' s'" and "w \<noteq> ''<EOF>''"
  shows "pushed (Terminal w # cs) stk s stk' s'"
  using assms by (simp add: pushed_def im_text_def im_addrs_def)

lemma pushed_ir:
  assumes "pushed cs (IM_IR t # stk) s1 stk' s'" and T: "translated c s t s1" and "t \<noteq> NullIR"
  shows "pushed (c # cs) stk s stk' s'"
  unfolding pushed_def
proof (intro conjI)
  have "set (stk_addrs (IM_IR t # stk)) \<subseteq> set (stk_addrs stk) \<union> {rt_next s ..< rt_next s1}"
    using T by (auto simp: translated_def im_addrs_def)
  then show "set (stk_addrs stk') \<subseteq> set (stk_addrs stk) \<union> {rt_next s ..< rt_next s'}"
    using range_widen [of "set (stk_addrs stk')" "set (stk_addrs (IM_IR t # stk))" "rt_next s1" "rt_next s'"
        "set (stk_addrs stk)" "rt_next s"] assms
    by (simp add: pushed_def translated_def)
qed (use assms in \<open>simp_all add: pushed_def translated_def im_text_def\<close>)

text \<open>The node of a rule, from the stack of its children.\<close>

lemma ok_rule_node:
  assumes rule: "\<not> rc_is_string_literal ctx" "\<not> rc_is_int_literal ctx" "children \<noteq> []" and P: "pushed children [] s tmp s1"
    and empty: "list_all pt_null children \<longrightarrow> rc_text ctx = ''<EOF>'' \<or> rc_text ctx = []"
  shows "ok (if tmp = [] \<and> (rc_text ctx = ''<EOF>'' \<or> rc_text ctx = []) then return NullIR
     else bnd (require Assert_failed (tmp \<noteq> [])) (\<lambda>_.
       bnd (fold_stack (word_of_nat (rc_rule_index ctx)) (rev tmp)) (\<lambda>stk.
       bnd (require Assert_failed (length stk = 1)) (\<lambda>_.
       return (finish_node ctx (im_ptr (hd stk))))))) s1 (translated (Rule ctx children) s)"
proof (cases "tmp = []")
  case True
  then have "list_all pt_null children" "concat (map pt_text children) = []" using P by (simp_all add: pushed_def)
  then show ?thesis
    using True P rule empty by (auto simp: ok_return translated_def unshared_def pushed_def)
next
  case False
  have so: "stack_ok (rev tmp) s1" and nn: "\<not> list_all pt_null children"
    and tx: "stk_text fd (rev tmp) = concat (map pt_text children)" for fd
    using P False by (simp_all add: pushed_def)
  have ad: "set (stk_addrs (rev tmp)) \<subseteq> {rt_next s ..< rt_next s1}" "rt_next s \<le> rt_next s1"
    using P by (auto simp: pushed_def)
  have "ok (fold_stack (word_of_nat (rc_rule_index ctx)) (rev tmp)) s1
      (\<lambda>stk s'. length stk = 1 \<and> translated (Rule ctx children) s (finish_node ctx (im_ptr (hd stk))) s')"
  proof (rule ok_mono [OF ok_fold_stack [OF so]], elim exE conjE, goal_cases)
    case (1 stk s2 t)
    have "set (addrs t) \<subseteq> {rt_next s ..< rt_next s2}" "rt_next s \<le> rt_next s2"
      using range_extend [OF 1(8) ad 1(9)] ad(2) 1(9) by simp_all
    with 1 rule nn tx finish_node_info [of t ctx] show ?case
      by (simp add: translated_def im_ptr_def unshared_def)
  qed
  then show ?thesis using False by (auto simp: m_simps elim!: ok_mono)
qed

text \<open>A translated child goes on the stack unless it is null.\<close>

lemma ok_child:
  assumes T: "translated c s t s1" and st: "stack_ok (rev stk) s"
    and push: "t \<noteq> NullIR \<Longrightarrow> stack_ok (rev (IM_IR t # stk)) s1 \<Longrightarrow>
      ok (TranslateChildren cs (IM_IR t # stk)) s1 (pushed cs (IM_IR t # stk) s1)"
    and skip: "t = NullIR \<Longrightarrow> stack_ok (rev stk) s1 \<Longrightarrow> ok (TranslateChildren cs stk) s1 (pushed cs stk s1)"
  shows "ok (if t \<noteq> NullIR then TranslateChildren cs (IM_IR t # stk) else TranslateChildren cs stk) s1 (pushed (c # cs) stk s)"
proof (cases "t = NullIR")
  case True
  have "stack_ok (rev stk) s1" using T st by (auto simp: translated_def intro: stack_ok_mono)
  moreover have "pt_text c = []" "pt_null c" "rt_next s \<le> rt_next s1" using T True by (simp_all add: translated_def)
  ultimately show ?thesis using True skip by (auto intro: pushed_skip elim!: ok_mono)
next
  case False
  then show ?thesis
    using push [OF False stack_ok_push [OF st T False]] pushed_ir [OF _ T False] by (auto elim!: ok_mono)
qed

lemma ok_TranslateNode_Children:
  shows "is_rule pt \<Longrightarrow> pt_ok pt \<Longrightarrow> ok (TranslateNode pt) s (translated pt s)"
    and "list_all pt_ok cs \<Longrightarrow> stack_ok (rev stk) s \<Longrightarrow>
           ok (TranslateChildren cs stk) s (pushed cs stk s)"
proof (induction pt and cs stk arbitrary: s and s
    rule: TranslateNode_TranslateChildren.induct)
  case (1 w)
  then show ?case by (simp add: is_rule_def)
next
  case (2 w)
  then show ?case by simp
next
  case (3 ctx children)
  consider (str) "rc_is_string_literal ctx" | (int) "\<not> rc_is_string_literal ctx" "rc_is_int_literal ctx"
    | (nil) "\<not> rc_is_string_literal ctx" "\<not> rc_is_int_literal ctx" "children = []"
    | (rule) "\<not> rc_is_string_literal ctx" "\<not> rc_is_int_literal ctx" "children \<noteq> []" by blast
  then show ?case
  proof cases
    case str
    then show ?thesis by (simp add: ok_literal data_text_def)
  next
    case int
    with 3 obtain n where n: "stoi (rc_text ctx) = Inr n" by (auto split: sum.splits)
    have "ok (bnd (new_data_IR (word_of_nat (rc_rule_index ctx)) (IntData n)) (\<lambda>t.
        return (finish_node ctx t))) s (translated (Rule ctx children) s)"
      using int n by (intro ok_literal) (simp_all add: data_text_def)
    then show ?thesis using int n by (simp add: ok_bnd lift_result_def ok_return)
  next
    case nil
    then show ?thesis by (simp add: ok_return translated_def unshared_def)
  next
    case rule
    have "ok (TranslateChildren children []) s (pushed children [] s)"
      using "3.IH" [OF rule] "3.prems" rule by (simp add: stack_ok_def)
    then show ?thesis
      unfolding TranslateNode.simps if_not_P [OF rule(1)] if_not_P [OF rule(2)] if_not_P [OF rule(3)] ok_bnd [of "TranslateChildren _ _"]
      by (rule ok_mono) (rule ok_rule_node [OF rule], assumption, use "3.prems" rule in simp)
  qed
next
  case (4 tmp_stk)
  then show ?case by (simp add: ok_return pushed_def)
next
  case (5 c cs tmp_stk)
  show ?case
  proof (cases c)
    case (Terminal w)
    then show ?thesis
      using "5.IH"(4,5) [OF Terminal, of s] "5.prems" stack_ok_push_str [OF "5.prems"(2), of w]
      by (cases "w = ''<EOF>''") (auto intro: pushed_str pushed_skip elim!: ok_mono)
  next
    case (ErrorNode w)
    then show ?thesis using "5.prems" by simp
  next
    case (Rule ctx ch)
    have N: "ok (TranslateNode c) s (translated c s)"
      by (rule "5.IH"(1) [OF Rule]) (use Rule "5.prems" in \<open>simp_all add: is_rule_def\<close>)
    have "ok (bnd (TranslateNode c) (\<lambda>child_ir.
          if child_ir \<noteq> NullIR then TranslateChildren cs (IM_IR child_ir # tmp_stk)
          else TranslateChildren cs tmp_stk)) s (pushed (c # cs) tmp_stk s)"
      unfolding ok_bnd [of "TranslateNode _"]
      by (rule ok_mono [OF N], erule ok_child) (use "5.IH"(2,3) [OF Rule] "5.prems" in simp_all)
    then show ?thesis using Rule by simp
  qed
qed

section \<open>Which parse trees translate\<close>

lemma Translate_returns:
  shows "TranslateNode pt s = Inr r \<Longrightarrow> is_rule pt \<and> pt_ok pt"
    and "TranslateChildren cs stk s = Inr q \<Longrightarrow> list_all pt_ok cs"
proof (induction pt and cs stk arbitrary: s r and s q rule: TranslateNode_TranslateChildren.induct)
  case (1 w)
  then show ?case by (simp add: throw_apply)
next
  case (2 w)
  then show ?case by (simp add: throw_apply)
next
  case (3 ctx children)
  consider (str) "rc_is_string_literal ctx" | (int) "\<not> rc_is_string_literal ctx" "rc_is_int_literal ctx"
    | (nil) "\<not> rc_is_string_literal ctx" "\<not> rc_is_int_literal ctx" "children = []"
    | (rule) "\<not> rc_is_string_literal ctx" "\<not> rc_is_int_literal ctx" "children \<noteq> []" by blast
  then show ?case
  proof cases
    case int
    then show ?thesis
      using "3.prems" by (auto simp: is_rule_def bnd_eq_Inr_iff lift_result_def throw_apply split: sum.splits)
  next
    case rule
    then obtain tmp s1 where C: "TranslateChildren children [] s = Inr (tmp, s1)"
      and tmp: "tmp = [] \<longrightarrow> rc_text ctx = ''<EOF>'' \<or> rc_text ctx = []"
      using "3.prems" by (auto simp: bnd_eq_Inr_iff require_apply split: if_splits)
    have okc: "list_all pt_ok children" by (rule "3.IH" [OF rule C])
    then have "ok (TranslateChildren children []) s (pushed children [] s)"
      by (rule ok_TranslateNode_Children(2)) (simp add: stack_ok_def)
    then have "tmp = [] \<longleftrightarrow> list_all pt_null children"
      by (simp add: ok_def C pushed_def)
    then show ?thesis using rule okc tmp by (simp add: is_rule_def)
  qed (auto simp: is_rule_def)
next
  case (4 tmp_stk)
  then show ?case by simp
next
  case (5 c cs tmp_stk)
  show ?case
  proof (cases c)
    case (Terminal w)
    then show ?thesis
      using "5.prems" "5.IH"(4,5) [OF Terminal] by (cases "w = ''<EOF>''") auto
  next
    case (ErrorNode w)
    then show ?thesis using "5.prems" by (simp add: bnd_def throw_apply)
  next
    case (Rule ctx ch)
    then obtain t s1 where T: "TranslateNode c s = Inr (t, s1)"
      using "5.prems" by (auto simp: bnd_eq_Inr_iff simp del: TranslateNode.simps)
    then show ?thesis
      using "5.prems" "5.IH"(1) [OF Rule T] "5.IH"(2,3) [OF Rule, of t] Rule
      by (cases "t = NullIR") (auto simp: bnd_def simp del: TranslateNode.simps)
  qed
qed

text \<open>C10: The translation of a rule returns exactly on the trees \<open>pt_ok\<close> describes; on the
  others it stops (an error node or an empty rule with text fails an assertion, an integer
  literal outside \<open>int\<close> makes \<open>std::stoi\<close> throw).\<close>

theorem TranslateNode_returns_iff:
  "(\<exists>r. TranslateNode pt s = Inr r) \<longleftrightarrow> is_rule pt \<and> pt_ok pt"
  using Translate_returns(1) [of pt s] ok_TranslateNode_Children(1) [of pt s]
  by (auto simp: ok_Inr_iff simp del: TranslateNode.simps)

lemma post_TranslateNode: "post (TranslateNode pt) s (translated pt s)"
proof (cases "TranslateNode pt s")
  case (Inl e)
  then show ?thesis by (simp add: post_def)
next
  case (Inr r)
  then show ?thesis
    using Translate_returns(1) [OF Inr] by (intro ok_post ok_TranslateNode_Children(1)) auto
qed

section \<open>Translating a program\<close>

lemma TranslateToIR_apply:
  "TranslateToIR parse src s =
     (let run = parse src; s1 = s\<lparr>rt_listener_error := rt_listener_error s \<or> pr_error run\<rparr>
      in case pr_tree run of
           None \<Rightarrow> Inr (NullIR, s1)
         | Some tree \<Rightarrow>
             if rt_listener_error s1 then Inr (NullIR, s1\<lparr>rt_listener_error := False\<rparr>)
             else TranslateNode tree (s1\<lparr>rt_parse_counter :=
                    (if 10000 < rt_parse_counter s then 0 else Suc (rt_parse_counter s))\<rparr>))"
  by (simp add: TranslateToIR_def bnd_def m_eval Let_def split: option.splits)

lemma post_TranslateToIR:
  "post (TranslateToIR parse src) s (\<lambda>t s'.
     unshared t \<and> set (addrs t) \<subseteq> {rt_next s ..< rt_next s'} \<and> rt_next s \<le> rt_next s')"
proof (cases "pr_tree (parse src)")
  case None
  then show ?thesis by (simp add: post_def TranslateToIR_apply Let_def unshared_def)
next
  case (Some tree)
  have "post (TranslateNode tree) (s\<lparr>rt_listener_error := b, rt_parse_counter := n\<rparr>) (\<lambda>t s'.
     unshared t \<and> set (addrs t) \<subseteq> {rt_next s ..< rt_next s'} \<and> rt_next s \<le> rt_next s')" for b n
    by (rule post_mono [OF post_TranslateNode]) (auto simp: translated_def)
  then show ?thesis using Some by (simp add: post_def TranslateToIR_apply Let_def unshared_def)
qed

text \<open>C4: Translating an input the parser accepts succeeds, and the text of the IR (printed by
  \<open>ToString\<close>, white space apart) is that of the parse tree in which every integer literal is
  replaced by the number \<open>std::stoi\<close> reads from it: no token is lost, duplicated or moved when the
  children of a rule are folded into binary nodes. If every integer literal is written the way
  its number is printed, the printed text is exactly the tokens. The tree is unshared and its nodes are
  newly allocated, its root has the type of the start rule, and the translator returns null
  exactly on parse trees without a token or a literal.\<close>

theorem TranslateToIR_text:
  assumes "parse src = \<lparr>pr_error = False, pr_tree = Some (Rule ctx cs)\<rparr>"
    and "pt_ok (Rule ctx cs)" and "\<not> rt_listener_error s"
  shows "ok (TranslateToIR parse src) s (\<lambda>t s'.
           visible (ToString fd t) = visible (pt_text (Rule ctx cs)) \<and>
           (pt_verbatim (Rule ctx cs) \<longrightarrow> visible (ToString fd t) = visible (pt_tokens (Rule ctx cs))) \<and>
           (t = NullIR \<longleftrightarrow> pt_null (Rule ctx cs)) \<and> unshared t \<and>
           set (addrs t) \<subseteq> {rt_next s ..< rt_next s'} \<and>
           (t \<noteq> NullIR \<longrightarrow> ir_type (ir_info t) = word_of_nat (rc_rule_index ctx)))"
proof -
  let ?s = "s\<lparr>rt_parse_counter := (if 10000 < rt_parse_counter s then 0 else Suc (rt_parse_counter s))\<rparr>"
  have "ok (TranslateNode (Rule ctx cs)) ?s (translated (Rule ctx cs) ?s)"
    by (rule ok_TranslateNode_Children(1)) (use assms(2) in \<open>simp_all add: is_rule_def\<close>)
  moreover have "TranslateToIR parse src s = TranslateNode (Rule ctx cs) ?s"
  proof -
    have e: "s\<lparr>rt_listener_error := False, rt_parse_counter := n\<rparr> = s\<lparr>rt_parse_counter := n\<rparr>" for n
      using assms(3) by (cases s) simp
    show ?thesis
      using assms(1,3) by (simp add: TranslateToIR_apply Let_def e del: TranslateNode.simps)
  qed
  ultimately have "ok (TranslateToIR parse src) s (translated (Rule ctx cs) ?s)"
    by (simp only: ok_def)
  then show ?thesis
    by (rule ok_mono)
      (simp add: translated_def visible_ToString pt_text_verbatim
        del: pt_text.simps pt_tokens.simps pt_verbatim.simps pt_null.simps)
qed

text \<open>An input with a syntax error is rejected: the translator returns null, allocates
  nothing and clears the listener's flag, so the next input is judged on its own.\<close>

theorem TranslateToIR_syntax_error:
  assumes "pr_error (parse src)" and "pr_tree (parse src) \<noteq> None"
  shows "TranslateToIR parse src s = Inr (NullIR, s\<lparr>rt_listener_error := False\<rparr>)"
  using assms by (auto simp: TranslateToIR_apply Let_def)

text \<open>C26: The flag survives an \<open>IllegalArgumentException\<close>: when an input raises a lexer error
  and then the exception, the following input is rejected even if it has no error.\<close>

theorem TranslateToIR_stale_error:
  assumes "pr_error (parse bad)" and "pr_tree (parse bad) = None"
    and "parse good = \<lparr>pr_error = False, pr_tree = Some tree\<rparr>"
  shows "bnd (TranslateToIR parse bad) (\<lambda>_. TranslateToIR parse good) s =
           Inr (NullIR, s\<lparr>rt_listener_error := False\<rparr>)"
  using assms by (simp add: bnd_def TranslateToIR_apply Let_def)

lemma type_map_from_other:
  "n \<notin> set ns \<Longrightarrow> type_map_from i ns m n = m n"
  by (induction i ns m rule: type_map_from.induct) auto

lemma type_map_from_nth:
  "distinct ns \<Longrightarrow> k < length ns \<Longrightarrow> type_map_from i ns m (ns ! k) = Some (word_of_nat (i + k))"
proof (induction ns arbitrary: i k m)
  case Nil
  then show ?case by simp
next
  case (Cons n ns)
  then show ?case by (cases k) (simp_all add: type_map_from_other)
qed

text \<open>Rule numbers and rule names translate into each other.\<close>

theorem GetIRTypeByStr_GetIRTypeStr:
  assumes "distinct rule_names" and "unat ty < GetRuleNum rule_names"
  shows "\<exists>name. GetIRTypeStr rule_names ty = Inr name \<and> GetIRTypeByStr rule_names name = Inr ty"
proof -
  have "type_map_from 0 rule_names Map.empty (rule_names ! unat ty) = Some ty"
    using type_map_from_nth [OF assms(1), of "unat ty" 0 Map.empty] assms(2)
    by (simp add: GetRuleNum_def)
  then show ?thesis using assms(2) by (simp add: GetIRTypeStr_def GetIRTypeByStr_def GetRuleNum_def)
qed

section \<open>Witnesses\<close>

definition demo_ctx :: "nat \<Rightarrow> string \<Rightarrow> rule_context" where
  "demo_ctx n w = \<lparr>rc_text = w, rc_rule_index = n, rc_is_string_literal = False,
     rc_is_int_literal = False, rc_data_type = kDataDefault, rc_scope_type = kScopeDefault\<rparr>"

definition demo_state :: runtime where
  "demo_state = \<lparr>rt_rand = (\<lambda>n. n), rt_pos = 0, rt_next = 0, rt_id_counter = 0, rt_name_counter = 0,
     rt_listener_error = False, rt_parse_counter = 0, rt_junk_scope = (\<lambda>_. 0), rt_junk_stmt = (\<lambda>_. 0)\<rparr>"

text \<open>The parse tree of \<open>int x = 1;\<close>.\<close>

definition demo_tree :: parse_tree where
  "demo_tree = Rule (demo_ctx 0 ''intx=1;'')
     [Rule (demo_ctx 1 ''int'') [Terminal ''int''],
      Rule ((demo_ctx 2 ''x'')\<lparr>rc_is_string_literal := True\<rparr>) [Terminal ''x''],
      Terminal ''='', Rule ((demo_ctx 3 ''1'')\<lparr>rc_is_int_literal := True\<rparr>) [Terminal ''1''],
      Terminal '';'', Terminal ''<EOF>'']"

definition demo_parse :: "string \<Rightarrow> parser_run" where
  "demo_parse src =
     (if src = ''int x = 1;'' then \<lparr>pr_error = False, pr_tree = Some demo_tree\<rparr>
      else if src = ''int'' then \<lparr>pr_error = True, pr_tree = Some (Rule (demo_ctx 0 []) [])\<rparr>
      else \<lparr>pr_error = True, pr_tree = None\<rparr>)"

lemma demo_tree_ok: "pt_ok demo_tree"
  by code_simp

lemma demo_tree_Rule: "demo_tree = Rule (demo_ctx 0 ''intx=1;'') (case demo_tree of Rule _ cs \<Rightarrow> cs | _ \<Rightarrow> [])"
  by (simp add: demo_tree_def)

text \<open>A hexadecimal literal whose text the printed program does not keep.\<close>

definition demo_hex_tree :: parse_tree where
  "demo_hex_tree = Rule (demo_ctx 0 ''x=0x1F'')
     [Rule ((demo_ctx 2 ''x'')\<lparr>rc_is_string_literal := True\<rparr>) [Terminal ''x''], Terminal ''='',
      Rule ((demo_ctx 3 ''0x1F'')\<lparr>rc_is_int_literal := True\<rparr>) [Terminal ''0x1F'']]"

lemma demo_texts:
  "pt_verbatim demo_tree" "visible (pt_tokens demo_tree) = ''intx=1;''" "\<not> pt_null demo_tree"
  "pt_ok demo_hex_tree" "visible (pt_text demo_hex_tree) = ''x=0''" "pt_tokens demo_hex_tree = ''x=0x1F''"
  by code_simp+

lemma TranslateToIR_text_witness:
  "ok (TranslateToIR demo_parse ''int x = 1;'') demo_state (\<lambda>t s'.
     visible (ToString (\<lambda>_. []) t) = ''intx=1;'' \<and> t \<noteq> NullIR) \<and>
   ok (TranslateToIR (\<lambda>_. \<lparr>pr_error = False, pr_tree = Some demo_hex_tree\<rparr>) ''x = 0x1F'') demo_state (\<lambda>t s'.
     visible (ToString (\<lambda>_. []) t) = ''x=0'')"
proof (intro conjI)
  define cs where "cs = (case demo_tree of Rule _ cs \<Rightarrow> cs | _ \<Rightarrow> [])"
  have t: "demo_tree = Rule (demo_ctx 0 ''intx=1;'') cs" unfolding cs_def by (rule demo_tree_Rule)
  have "demo_parse ''int x = 1;'' =
      \<lparr>pr_error = False, pr_tree = Some (Rule (demo_ctx 0 ''intx=1;'') cs)\<rparr>"
    using t by (simp add: demo_parse_def)
  from TranslateToIR_text [of demo_parse, OF this, of demo_state "\<lambda>_. []"] demo_texts(1,2,3) demo_tree_ok
  show "ok (TranslateToIR demo_parse ''int x = 1;'') demo_state (\<lambda>t s'.
     visible (ToString (\<lambda>_. []) t) = ''intx=1;'' \<and> t \<noteq> NullIR)"
    by (auto simp: t demo_state_def simp del: pt_text.simps pt_tokens.simps pt_verbatim.simps pt_null.simps
        pt_ok.simps elim!: ok_mono)
next
  obtain ctx cs where t: "demo_hex_tree = Rule ctx cs" by (simp add: demo_hex_tree_def)
  show "ok (TranslateToIR (\<lambda>_. \<lparr>pr_error = False, pr_tree = Some demo_hex_tree\<rparr>) ''x = 0x1F'') demo_state (\<lambda>t s'.
     visible (ToString (\<lambda>_. []) t) = ''x=0'')"
    using demo_texts(4,5) unfolding t
    by (intro ok_mono [OF TranslateToIR_text [where ctx = ctx and cs = cs and fd = "\<lambda>_. []"]])
      (simp_all add: demo_state_def del: pt_text.simps pt_tokens.simps pt_verbatim.simps pt_null.simps pt_ok.simps)
qed

lemma TranslateToIR_syntax_error_witness:
  "TranslateToIR demo_parse ''int'' demo_state = Inr (NullIR, demo_state)"
  using TranslateToIR_syntax_error [of demo_parse "''int''" demo_state]
  by (simp add: demo_parse_def demo_state_def)

lemma TranslateToIR_stale_error_witness:
  "bnd (TranslateToIR demo_parse ''$'') (\<lambda>_. TranslateToIR demo_parse ''int x = 1;'') demo_state =
     Inr (NullIR, demo_state)"
  using TranslateToIR_stale_error [of demo_parse "''$''" "''int x = 1;''" demo_tree demo_state]
  by (simp add: demo_parse_def demo_state_def)

lemma GetIRTypeByStr_GetIRTypeStr_witness:
  "\<exists>name. GetIRTypeStr [''program'', ''expr''] 1 = Inr name \<and>
     GetIRTypeByStr [''program'', ''expr''] name = Inr 1"
  using GetIRTypeByStr_GetIRTypeStr [of "[''program'', ''expr'']" 1]
  by (simp add: GetRuleNum_def)

end
