(* ===== verification/Frontend.thy ===== *)
theory Frontend
  imports IR_Translater
begin

text \<open>
  \<open>srcs/internal/include/frontend.h\<close>, \<open>srcs/internal/srcs/frontend.cpp\<close>: the abstract
  class \<open>Frontend\<close> is a locale, whose laws say what the mutator, the validator and the
  fuzzer rely on; \<open>AntlrFrontend\<close>, a wrapper of the translator, is its interpretation. The
  parser and the list of rule names come from the grammar and are its parameters.
\<close>

datatype FrontendType = kANTLR | kBISON

locale frontend =
  fixes Parsable :: "string \<Rightarrow> ('z runtime_scheme, bool) M"
    and to_ir :: "string \<Rightarrow> ('z runtime_scheme, IR) M"
    and type_by_str :: "string \<Rightarrow> error + IRTYPE"
    and type_str :: "IRTYPE \<Rightarrow> error + string"
    and type_num :: nat
  assumes parsable: "Parsable src = bnd (to_ir src) (\<lambda>t. return (t \<noteq> NullIR))"
    and fresh: "post (to_ir src) s (\<lambda>t s'.
          unshared t \<and> set (addrs t) \<subseteq> {rt_next s ..< rt_next s'} \<and> rt_next s \<le> rt_next s')"
    and type_str_total: "(\<exists>n. type_str ty = Inr n) \<longleftrightarrow> unat ty < type_num"
begin

lemma parsable_iff: "Parsable src s = Inr (b, s') \<longleftrightarrow> (\<exists>t. to_ir src s = Inr (t, s') \<and> b = (t \<noteq> NullIR))"
  by (auto simp: parsable bnd_eq_Inr_iff return_apply)

lemma fresh_inputs:
  "post (bnd (to_ir p) (\<lambda>t. bnd (to_ir q) (\<lambda>u. return (t, u)))) s (\<lambda>(t, u) s'.
     unshared t \<and> unshared u \<and> set (addrs t) \<inter> set (addrs u) = {})"
  unfolding post_bnd post_return
proof (rule post_mono [OF fresh], rule post_mono [OF fresh], goal_cases)
  case (1 t s' u s'')
  then have "x < rt_next s'" if "x \<in> set (addrs t)" for x using that by auto
  moreover have "rt_next s' \<le> x" if "x \<in> set (addrs u)" for x using 1(2) that by auto
  ultimately have "set (addrs t) \<inter> set (addrs u) = {}" by (metis disjoint_iff leD)
  then show ?case using 1 by simp
qed

end

section \<open>AntlrFrontend\<close>

definition antlr_Parsable :: "(string \<Rightarrow> parser_run) \<Rightarrow> string \<Rightarrow> ('z runtime_scheme, bool) M" where
  "antlr_Parsable parse input = bnd (TranslateToIR parse input) (\<lambda>t. return (t \<noteq> NullIR))"

definition antlr_TranslateToIR :: "(string \<Rightarrow> parser_run) \<Rightarrow> string \<Rightarrow> ('z runtime_scheme, IR) M" where
  "antlr_TranslateToIR parse input = TranslateToIR parse input"

definition antlr_GetIRTypeByStr :: "string list \<Rightarrow> string \<Rightarrow> error + IRTYPE" where
  "antlr_GetIRTypeByStr rule_names type = GetIRTypeByStr rule_names type"

definition antlr_GetIRTypeStr :: "string list \<Rightarrow> IRTYPE \<Rightarrow> error + string" where
  "antlr_GetIRTypeStr rule_names type = GetIRTypeStr rule_names type"

definition GetUnknownType :: IRTYPE where
  "GetUnknownType = kUnknown"

definition GetFrontendType :: FrontendType where
  "GetFrontendType = kANTLR"

definition GetIRTypeNum :: "string list \<Rightarrow> nat" where
  "GetIRTypeNum rule_names = GetRuleNum rule_names"

interpretation antlr: frontend "antlr_Parsable parse" "antlr_TranslateToIR parse"
  "antlr_GetIRTypeByStr rule_names" "antlr_GetIRTypeStr rule_names" "GetIRTypeNum rule_names"
  for parse rule_names
proof unfold_locales
  fix src s
  show "antlr_Parsable parse src = bnd (antlr_TranslateToIR parse src) (\<lambda>t. return (t \<noteq> NullIR))"
    by (simp add: antlr_Parsable_def antlr_TranslateToIR_def)
  show "post (antlr_TranslateToIR parse src) s (\<lambda>t s'.
          unshared t \<and> set (addrs t) \<subseteq> {rt_next s ..< rt_next s'} \<and> rt_next s \<le> rt_next s')"
    unfolding antlr_TranslateToIR_def by (rule post_TranslateToIR)
next
  fix ty
  show "(\<exists>n. antlr_GetIRTypeStr rule_names ty = Inr n) \<longleftrightarrow> unat ty < GetIRTypeNum rule_names"
    by (simp add: antlr_GetIRTypeStr_def GetIRTypeNum_def GetIRTypeStr_def GetRuleNum_def)
qed

section \<open>Properties\<close>

text \<open>two inputs translated one after the other give trees that share no node, so changing
  one program never changes another.\<close>

theorem antlr_inputs_disjoint:
  "post (bnd (antlr_TranslateToIR parse p) (\<lambda>t. bnd (antlr_TranslateToIR parse q) (\<lambda>u. return (t, u)))) s
     (\<lambda>(t, u) s'. unshared t \<and> unshared u \<and> set (addrs t) \<inter> set (addrs u) = {})"
  by (rule antlr.fresh_inputs)

end
