(* ===== verification/IR_Library.thy ===== *)
theory IR_Library
  imports Frontend "HOL-Library.Multiset"
begin

text \<open>
  \<open>IRLibrary\<close> of \<open>srcs/internal/srcs/mutate.cpp\<close>: per node type the IRs seen so far (at most
  \<open>0x200\<close>, a random one is evicted when full) and the hashes of their texts. Saved IRs are
  pointers into the program they come from; nothing stores through them afterwards, so they are
  values here. The client interface is the locale \<open>ir_store\<close>; the results are the library's
  invariant (bounds, no duplicates, hash sets equal to the hashes of the stored IRs) and where
  the IRs it returns come from.
\<close>

section \<open>State and operations\<close>

record ir_library = runtime +
  lib_irs :: "IRTYPE \<Rightarrow> IR list"
  lib_hash :: "IRTYPE \<Rightarrow> 64 word set"
  lib_empty_ir :: IR

definition ir_hash :: "(64 word \<Rightarrow> string) \<Rightarrow> IR \<Rightarrow> 64 word" where
  "ir_hash fd root = ducking_hash (ToString fd root)"

definition kMaxIRNumForOneType :: nat where
  "kMaxIRNumForOneType = 0x200"

text \<open>\<open>std::swap(v[idx], v.back())\<close>.\<close>

definition swap_back :: "nat \<Rightarrow> 'a list \<Rightarrow> 'a list" where
  "swap_back idx v = v[idx := last v, length v - 1 := v ! idx]"

definition evict :: "(64 word \<Rightarrow> string) \<Rightarrow> IRTYPE \<Rightarrow> ('z ir_library_scheme, unit) M" where
  "evict fd type =
     bnd (gets (\<lambda>s. lib_irs s type)) (\<lambda>lib.
     bnd (get_rand_int (length lib)) (\<lambda>rand_idx.
     let swapped = swap_back rand_idx lib; removed_ir = last swapped
     in modify (\<lambda>s. s\<lparr>lib_irs := (lib_irs s)(type := butlast swapped),
                     lib_hash := (lib_hash s)(type := lib_hash s type - {ir_hash fd removed_ir})\<rparr>)))"

fun SaveIRRecursive :: "(64 word \<Rightarrow> string) \<Rightarrow> IR \<Rightarrow> ('z ir_library_scheme, unit) M" where
  "SaveIRRecursive fd NullIR = throw Null_dereference"
| "SaveIRRecursive fd (Node a i l r) =
     (let type = ir_type i; h = ir_hash fd (Node a i l r) in
      bnd (gets (\<lambda>s. h \<in> lib_hash s type)) (\<lambda>known.
      if known then return ()
      else
        bnd (gets (\<lambda>s. kMaxIRNumForOneType \<le> length (lib_irs s type))) (\<lambda>full.
        bnd (if full then evict fd type else return ()) (\<lambda>_.
        bnd (modify (\<lambda>s. s\<lparr>lib_irs := (lib_irs s)(type := lib_irs s type @ [Node a i l r]),
                          lib_hash := (lib_hash s)(type := insert h (lib_hash s type))\<rparr>)) (\<lambda>_.
        bnd (if l \<noteq> NullIR then SaveIRRecursive fd l else return ()) (\<lambda>_.
        if r \<noteq> NullIR then SaveIRRecursive fd r else return ()))))))"

text \<open>The static \<open>empty_ir\<close> is created by the first call.\<close>

definition GetRandomIR :: "IRTYPE \<Rightarrow> ('z ir_library_scheme, IR) M" where
  "GetRandomIR type =
     bnd (gets (\<lambda>s. lib_empty_ir s = NullIR)) (\<lambda>first.
     bnd (if first
          then bnd (new_data_IR 0x1234567 (StringData [])) (\<lambda>e. modify (\<lambda>s. s\<lparr>lib_empty_ir := e\<rparr>))
          else return ()) (\<lambda>_.
     bnd (gets (\<lambda>s. lib_irs s type)) (\<lambda>lib.
     if lib = [] then gets lib_empty_ir else vector_rand_ele lib)))"

section \<open>What a client relies on\<close>

locale ir_store =
  fixes save :: "IR \<Rightarrow> ('s, unit) M"
    and pick :: "IRTYPE \<Rightarrow> ('s, IR) M"
    and inv :: "'s \<Rightarrow> bool"
    and stored :: "'s \<Rightarrow> IRTYPE \<Rightarrow> IR set"
    and is_default :: "IR \<Rightarrow> bool"
  assumes save_ok: "inv s \<Longrightarrow> t \<noteq> NullIR \<Longrightarrow> ok (save t) s (\<lambda>_ s'. inv s' \<and>
        (\<forall>ty. stored s' ty \<subseteq> stored s ty \<union> {u \<in> set (subtrees t). ir_type (ir_info u) = ty}))"
    and pick_ok: "inv s \<Longrightarrow> ok (pick ty) s (\<lambda>t s'. inv s' \<and> stored s' = stored s \<and>
        (if stored s ty = {} then is_default t else t \<in> stored s ty))"
begin

text \<open>Saving a corpus and then drawing: what is drawn was part of the corpus, with its type.\<close>

lemma save_all:
  assumes "inv s" and "NullIR \<notin> set ts"
  shows "ok (foldM (\<lambda>t _. save t) ts ()) s (\<lambda>_ s'. inv s' \<and>
     (\<forall>ty. stored s' ty \<subseteq> stored s ty \<union> {u. \<exists>t\<in>set ts. u \<in> set (subtrees t) \<and> ir_type (ir_info u) = ty}))"
proof (rule ok_foldM)
  fix t and b :: unit and s'
  assume t: "t \<in> set ts" and I: "inv s' \<and>
     (\<forall>ty. stored s' ty \<subseteq> stored s ty \<union> {u. \<exists>t\<in>set ts. u \<in> set (subtrees t) \<and> ir_type (ir_info u) = ty})"
  then have "t \<noteq> NullIR" using assms(2) by auto
  show "ok (save t) s' (\<lambda>_ s'. inv s' \<and>
     (\<forall>ty. stored s' ty \<subseteq> stored s ty \<union> {u. \<exists>t\<in>set ts. u \<in> set (subtrees t) \<and> ir_type (ir_info u) = ty}))"
    by (rule ok_mono [OF save_ok [OF conjunct1 [OF I] \<open>t \<noteq> NullIR\<close>]]) (use I t in fast)
qed (use assms(1) in simp)

lemma save_all_pick:
  assumes "inv s" and "NullIR \<notin> set ts" and "stored s ty = {}"
  shows "ok (bnd (foldM (\<lambda>t _. save t) ts ()) (\<lambda>_. pick ty)) s (\<lambda>u s'. inv s' \<and>
     (is_default u \<or> (\<exists>t\<in>set ts. u \<in> set (subtrees t) \<and> ir_type (ir_info u) = ty)))"
  unfolding ok_bnd
proof (rule ok_mono [OF save_all [OF assms(1,2)]], elim conjE, goal_cases)
  case (1 x s')
  show ?case
    by (rule ok_mono [OF pick_ok [OF 1(1), of ty]]) (use 1 assms(3) in \<open>fastforce split: if_splits\<close>)
qed

end

section \<open>The invariant\<close>

definition shelf_ok :: "(64 word \<Rightarrow> string) \<Rightarrow> IRTYPE \<Rightarrow> IR list \<Rightarrow> 64 word set \<Rightarrow> bool" where
  "shelf_ok fd ty irs hashes \<longleftrightarrow>
     length irs \<le> kMaxIRNumForOneType \<and> distinct (map (ir_hash fd) irs) \<and>
     hashes = ir_hash fd ` set irs \<and> (\<forall>t\<in>set irs. t \<noteq> NullIR \<and> ir_type (ir_info t) = ty)"

definition empty_ok :: "IR \<Rightarrow> bool" where
  "empty_ok t \<longleftrightarrow>
     (t \<noteq> NullIR \<longrightarrow> is_leaf t \<and> ir_type (ir_info t) = 0x1234567 \<and> ir_data (ir_info t) = StringData [])"

definition lib_inv :: "(64 word \<Rightarrow> string) \<Rightarrow> 'z ir_library_scheme \<Rightarrow> bool" where
  "lib_inv fd s \<longleftrightarrow>
     (\<forall>ty. shelf_ok fd ty (lib_irs s ty) (lib_hash s ty)) \<and> empty_ok (lib_empty_ir s)"

definition lib_stored :: "'z ir_library_scheme \<Rightarrow> IRTYPE \<Rightarrow> IR set" where
  "lib_stored s ty = set (lib_irs s ty)"

definition empty_ir_like :: "IR \<Rightarrow> bool" where
  "empty_ir_like t \<longleftrightarrow>
     t \<noteq> NullIR \<and> is_leaf t \<and> ir_type (ir_info t) = 0x1234567 \<and> ir_data (ir_info t) = StringData []"

lemma swap_back_last: "idx < length v \<Longrightarrow> last (swap_back idx v) = v ! idx"
  by (subst last_conv_nth) (auto simp: swap_back_def)

lemma swap_back_mset:
  assumes "idx < length v"
  shows "mset v = add_mset (v ! idx) (mset (butlast (swap_back idx v)))"
proof -
  have ne: "v \<noteq> []" and nes: "swap_back idx v \<noteq> []" using assms by (auto simp: swap_back_def)
  have "mset v = mset (swap_back idx v)"
    unfolding swap_back_def last_conv_nth [OF ne] using assms by (intro mset_swap [symmetric]) auto
  also have "\<dots> = mset (butlast (swap_back idx v) @ [last (swap_back idx v)])" using nes by simp
  finally show ?thesis by (simp add: swap_back_last assms del: append_butlast_last_id)
qed

lemma evict_list:
  assumes "idx < length v" and "distinct (map f v)"
  shows "length (butlast (swap_back idx v)) = length v - 1"
    and "distinct (map f (butlast (swap_back idx v)))"
    and "f ` set v - {f (v ! idx)} = f ` set (butlast (swap_back idx v))"
    and "set (butlast (swap_back idx v)) \<subseteq> set v"
proof -
  let ?w = "butlast (swap_back idx v)"
  have m: "mset v = mset (v ! idx # ?w)" using swap_back_mset [OF assms(1)] by simp
  then have "mset (map f v) = mset (map f (v ! idx # ?w))" by (metis mset_map)
  then have d: "distinct (map f (v ! idx # ?w))" using assms(2) mset_eq_imp_distinct_iff by blast
  have st: "set v = insert (v ! idx) (set ?w)" using mset_eq_setD [OF m] by simp
  show "length ?w = length v - 1" by (simp add: swap_back_def)
  show "distinct (map f ?w)" using d by simp
  show "f ` set v - {f (v ! idx)} = f ` set ?w" using d unfolding st by auto
  show "set ?w \<subseteq> set v" unfolding st by auto
qed

lemma shelf_evict:
  assumes "shelf_ok fd ty v hs" and "idx < length v"
  shows "shelf_ok fd ty (butlast (swap_back idx v)) (hs - {ir_hash fd (last (swap_back idx v))})"
proof -
  have "distinct (map (ir_hash fd) v)" using assms(1) by (simp add: shelf_ok_def)
  from evict_list [OF assms(2) this] assms(1) show ?thesis
    unfolding shelf_ok_def swap_back_last [OF assms(2)] by (metis diff_le_self order_trans subsetD)
qed

lemma shelf_push:
  assumes "shelf_ok fd (ir_type (ir_info t)) v hs" and "ir_hash fd t \<notin> hs" and "t \<noteq> NullIR"
    and "length v < kMaxIRNumForOneType"
  shows "shelf_ok fd (ir_type (ir_info t)) (v @ [t]) (insert (ir_hash fd t) hs)"
  using assms by (auto simp: shelf_ok_def)

lemma ok_evict:
  assumes I: "lib_inv fd s" and ne: "lib_irs s ty \<noteq> []"
  shows "ok (evict fd ty) s (\<lambda>_ s'. lib_inv fd s' \<and> length (lib_irs s' ty) < kMaxIRNumForOneType \<and>
     (\<forall>ty'. set (lib_irs s' ty') \<subseteq> set (lib_irs s ty') \<and> lib_hash s' ty' \<subseteq> lib_hash s ty'))"
proof -
  let ?v = "lib_irs s ty"
  have pos: "0 < length ?v" using ne by simp
  have sh: "shelf_ok fd ty ?v (lib_hash s ty)" using I by (simp add: lib_inv_def)
  show ?thesis
    unfolding evict_def ok_bnd ok_gets Let_def ok_modify
  proof (rule ok_mono [OF ok_get_rand_int [OF pos]], elim conjE, goal_cases)
    case (1 i s')
    note sh' = shelf_evict [OF sh 1(1)]
    have "set (butlast (swap_back i ?v)) \<subseteq> set ?v"
      using evict_list(4) [OF 1(1), of "ir_hash fd"] sh by (simp add: shelf_ok_def)
    moreover have "length (butlast (swap_back i ?v)) < kMaxIRNumForOneType"
    proof -
      have "length (butlast (swap_back i ?v)) = length ?v - 1" by (simp add: swap_back_def)
      moreover have "length ?v \<le> kMaxIRNumForOneType" using sh by (simp add: shelf_ok_def)
      ultimately show ?thesis using pos by linarith
    qed
    ultimately show ?case
      using I sh' unfolding 1(2) by (auto simp: lib_inv_def)
  qed
qed

lemma ok_SaveIRRecursive:
  assumes "lib_inv fd s" and "t \<noteq> NullIR"
  shows "ok (SaveIRRecursive fd t) s (\<lambda>_ s'. lib_inv fd s' \<and>
     (\<forall>ty. lib_stored s' ty \<subseteq> lib_stored s ty \<union> {u \<in> set (subtrees t). ir_type (ir_info u) = ty}))"
  using assms
proof (induction t arbitrary: s)
  case NullIR
  then show ?case by simp
next
  case (Node a i l r)
  let ?t = "Node a i l r" and ?ty = "ir_type i"
  let ?in = "\<lambda>us (s' :: 'a ir_library_scheme). lib_inv fd s' \<and>
     (\<forall>ty. lib_stored s' ty \<subseteq> lib_stored s ty \<union> {u \<in> us. ir_type (ir_info u) = ty})"
  have child: "ok (if c \<noteq> NullIR then SaveIRRecursive fd c else return ()) s1 (\<lambda>_. ?in (us \<union> set (subtrees c)))"
    if "?in us s1" and IH: "\<And>s :: 'a ir_library_scheme. lib_inv fd s \<Longrightarrow> c \<noteq> NullIR \<Longrightarrow>
          ok (SaveIRRecursive fd c) s (\<lambda>_ s'. lib_inv fd s' \<and>
            (\<forall>ty. lib_stored s' ty \<subseteq> lib_stored s ty \<union> {u \<in> set (subtrees c). ir_type (ir_info u) = ty}))"
    for c s1 us
  proof (cases "c = NullIR")
    case True
    then show ?thesis using that(1) by (simp add: ok_return)
  next
    case False
    show ?thesis
      unfolding if_P [OF False] by (rule ok_mono [OF IH [OF conjunct1 [OF that(1)] False]]) (use that(1) in fast)
  qed
  show ?case
  proof (cases "ir_hash fd ?t \<in> lib_hash s ?ty")
    case True
    show ?thesis
      unfolding SaveIRRecursive.simps Let_def ok_bnd ok_gets if_P [OF True] ok_return
      using Node.prems(1) by simp
  next
    case False
    let ?make_room = "if kMaxIRNumForOneType \<le> length (lib_irs s ?ty) then evict fd ?ty else return ()"
    have ev: "ok ?make_room s (\<lambda>_ s'. lib_inv fd s' \<and> length (lib_irs s' ?ty) < kMaxIRNumForOneType \<and>
        (\<forall>ty'. set (lib_irs s' ty') \<subseteq> set (lib_irs s ty') \<and> lib_hash s' ty' \<subseteq> lib_hash s ty'))"
    proof (cases "kMaxIRNumForOneType \<le> length (lib_irs s ?ty)")
      case True
      then have "lib_irs s ?ty \<noteq> []" by (auto simp: kMaxIRNumForOneType_def)
      from ok_evict [OF Node.prems(1) this] True show ?thesis by simp
    next
      case False
      then show ?thesis using Node.prems(1) by (simp add: ok_return)
    qed
    show ?thesis
      unfolding SaveIRRecursive.simps Let_def ok_bnd ok_gets if_not_P [OF False] ok_modify
    proof (rule ok_mono [OF ev], elim conjE, goal_cases)
      case (1 _ s1)
      then have nh: "ir_hash fd ?t \<notin> lib_hash s1 ?ty" and sh: "shelf_ok fd (ir_type (ir_info ?t)) (lib_irs s1 ?ty) (lib_hash s1 ?ty)"
        using False by (auto simp: lib_inv_def)
      have st: "?in {?t} (s1\<lparr>lib_irs := (lib_irs s1)(?ty := lib_irs s1 ?ty @ [?t]),
          lib_hash := (lib_hash s1)(?ty := insert (ir_hash fd ?t) (lib_hash s1 ?ty))\<rparr>)"
        using 1 shelf_push [OF sh nh] by (auto simp: lib_inv_def lib_stored_def)
      show ?case
        by (rule ok_mono [OF child [OF st Node.IH(1)]], assumption, assumption,
            rule ok_mono [OF child [OF _ Node.IH(2)]], assumption, assumption, assumption) auto
    qed
  qed
qed

lemma ok_GetRandomIR:
  assumes "lib_inv fd s"
  shows "ok (GetRandomIR ty) s (\<lambda>t s'. lib_inv fd s' \<and> lib_irs s' = lib_irs s \<and> rt_next s \<le> rt_next s' \<and>
     ir_library.more s' = ir_library.more s \<and>
     (if lib_irs s ty = [] then empty_ir_like t else t \<in> set (lib_irs s ty)))"
proof -
  let ?init = "if lib_empty_ir s = NullIR
     then bnd (new_data_IR 0x1234567 (StringData [])) (\<lambda>e. modify (\<lambda>s. s\<lparr>lib_empty_ir := e\<rparr>))
     else return ()"
  have "ok ?init s (\<lambda>_ s'. lib_inv fd s' \<and> lib_irs s' = lib_irs s \<and> rt_next s \<le> rt_next s' \<and>
      ir_library.more s' = ir_library.more s \<and> empty_ir_like (lib_empty_ir s'))"
    using assms
    by (auto simp: ok_def bnd_def new_data_IR_apply m_eval lib_inv_def empty_ok_def empty_ir_like_def is_leaf_def)
  then show ?thesis
    unfolding GetRandomIR_def ok_bnd ok_gets
  proof (rule ok_mono, elim conjE, goal_cases)
    case (1 _ s1)
    show ?case
    proof (cases "lib_irs s1 ty = []")
      case True
      then show ?thesis using 1 by (simp add: ok_gets)
    next
      case False
      show ?thesis
        unfolding if_not_P [OF False] vector_rand_ele_eq
        by (rule ok_mono [OF ok_random_pick [OF False]]) (use 1 False in \<open>simp add: lib_inv_def\<close>)
    qed
  qed
qed

interpretation lib: ir_store "SaveIRRecursive fd" GetRandomIR "lib_inv fd" lib_stored empty_ir_like
  for fd
proof unfold_locales
  show "ok (GetRandomIR ty) s (\<lambda>t s'. lib_inv fd s' \<and> lib_stored s' = lib_stored s \<and>
      (if lib_stored s ty = {} then empty_ir_like t else t \<in> lib_stored s ty))"
    if "lib_inv fd s" for s :: "'a ir_library_scheme" and ty
    by (rule ok_mono [OF ok_GetRandomIR [OF that]]) (auto simp: lib_stored_def fun_eq_iff split: if_splits)
qed (rule ok_SaveIRRecursive)

section \<open>Properties\<close>

text \<open>C6: Saving a program never fails and keeps the library's invariant: at most \<open>0x200\<close> IRs of
  a type, no two with the same text hash, the hash set equal to the hashes of the stored IRs
  (through evictions as well), every IR on the shelf of its own type. Nothing but subtrees of the
  program enters it.\<close>

theorem SaveIRRecursive_inv:
  assumes "lib_inv fd s" and "t \<noteq> NullIR"
  shows "ok (SaveIRRecursive fd t) s (\<lambda>_ s'.
     (\<forall>ty. length (lib_irs s' ty) \<le> 0x200 \<and> distinct (map (ir_hash fd) (lib_irs s' ty)) \<and>
           lib_hash s' ty = ir_hash fd ` set (lib_irs s' ty) \<and>
           (\<forall>u\<in>set (lib_irs s' ty). u \<noteq> NullIR \<and> ir_type (ir_info u) = ty \<and>
              (u \<in> set (lib_irs s ty) \<or> u \<in> set (subtrees t)))))"
proof (rule ok_mono [OF lib.save_ok [OF assms]], goal_cases)
  case (1 _ s')
  then have "shelf_ok fd ty (lib_irs s' ty) (lib_hash s' ty)"
    "lib_stored s' ty \<subseteq> lib_stored s ty \<union> {u \<in> set (subtrees t). ir_type (ir_info u) = ty}" for ty
    by (auto simp: lib_inv_def)
  then show ?case by (fastforce simp: shelf_ok_def lib_stored_def kMaxIRNumForOneType_def)
qed

text \<open>C25: After a corpus has been saved into an empty library, a random IR of a type is a subtree
  of that type of one of the corpus programs, or the default IR with the empty text.\<close>

theorem GetRandomIR_from_corpus:
  assumes "lib_inv fd s" and "lib_irs s ty = []" and "NullIR \<notin> set corpus"
  shows "ok (bnd (foldM (\<lambda>t _. SaveIRRecursive fd t) corpus ()) (\<lambda>_. GetRandomIR ty)) s (\<lambda>u s'.
     lib_inv fd s' \<and>
     (empty_ir_like u \<or> (\<exists>t\<in>set corpus. u \<in> set (subtrees t) \<and> ir_type (ir_info u) = ty)))"
  by (rule lib.save_all_pick [OF assms(1,3)]) (simp add: lib_stored_def assms(2))

text \<open>Saving a program whose text hash is already on the shelf of its type changes nothing, not
  even for its subtrees (they are not visited).\<close>

theorem SaveIRRecursive_known:
  assumes "t \<noteq> NullIR" and "ir_hash fd t \<in> lib_hash s (ir_type (ir_info t))"
  shows "SaveIRRecursive fd t s = Inr ((), s)"
  using assms by (cases t) (simp_all add: bnd_def m_eval Let_def)

section \<open>Witnesses\<close>

definition demo_library :: ir_library where
  "demo_library = runtime.extend demo_state
     \<lparr>lib_irs = (\<lambda>_. []), lib_hash = (\<lambda>_. {}), lib_empty_ir = NullIR\<rparr>"

definition demo_info :: IRInfo where
  "demo_info = \<lparr>ir_type = 7, ir_op = None, ir_scope_type = kScopeDefault, ir_scope_id = 0,
     ir_data_type = kDataDefault, ir_statement_id = 0, ir_data = StringData ''x''\<rparr>"

lemma lib_inv_demo: "lib_inv fd demo_library"
  by (simp add: lib_inv_def shelf_ok_def empty_ok_def demo_library_def runtime.defs)

lemma SaveIRRecursive_inv_witness:
  "ok (SaveIRRecursive (\<lambda>_. []) (Node 0 demo_info NullIR NullIR)) demo_library (\<lambda>_ s'.
     length (lib_irs s' 7) \<le> 0x200)"
  by (rule ok_mono [OF SaveIRRecursive_inv [OF lib_inv_demo]]) simp_all

lemma GetRandomIR_from_corpus_witness:
  "ok (bnd (foldM (\<lambda>t _. SaveIRRecursive (\<lambda>_. []) t) [Node 0 demo_info NullIR NullIR] ())
         (\<lambda>_. GetRandomIR 7)) demo_library
     (\<lambda>u s'. empty_ir_like u \<or> u = Node 0 demo_info NullIR NullIR)"
proof -
  have "lib_irs demo_library 7 = []" by (simp add: demo_library_def runtime.defs)
  from GetRandomIR_from_corpus [OF lib_inv_demo this, of "[Node 0 demo_info NullIR NullIR]" "\<lambda>_. []"]
  show ?thesis by (auto simp del: foldM.simps elim: ok_mono)
qed

lemma SaveIRRecursive_known_witness:
  "SaveIRRecursive (\<lambda>_. []) (Node 0 demo_info NullIR NullIR)
     (demo_library\<lparr>lib_hash := (\<lambda>_. {ir_hash (\<lambda>_. []) (Node 0 demo_info NullIR NullIR)})\<rparr>) =
   Inr ((), demo_library\<lparr>lib_hash := (\<lambda>_. {ir_hash (\<lambda>_. []) (Node 0 demo_info NullIR NullIR)})\<rparr>)"
  by (rule SaveIRRecursive_known) simp_all

end
