(* ===== verification/Mutator.thy ===== *)
theory Mutator
  imports IR_Library
begin

text \<open>
  The class \<open>Mutator\<close> of \<open>srcs/internal/srcs/mutate.cpp\<close>: the two replacement
  strategies, the loop that builds and deduplicates the variants of a program, and
  \<open>ExtractStructure\<close>, which turns a program into its skeleton. The functions that store
  through a pointer return the updated tree; \<open>record_\<close>, the pointer
  \<open>deep_copy_with_record\<close> leaves in the object, is a member of the state. The main result
  is that a mutation succeeds and that every variant is the root with exactly one mutable node
  replaced.
\<close>

section \<open>State\<close>

record mutator = ir_library +
  mut_record :: IR
  mut_not_mutatable_types :: "IRTYPE set"
  mut_convertable_map :: "(IRTYPE, IRTYPE list) omap"

section \<open>Copying with a record, replacing\<close>

definition not_unknown :: "IR \<Rightarrow> bool" where
  "not_unknown r \<longleftrightarrow> ir_type (ir_info r) \<noteq> GetUnknownType"

fun deep_copy_with_record :: "IR \<Rightarrow> IR \<Rightarrow> ('z mutator_scheme, IR) M" where
  "deep_copy_with_record NullIR record =
     bnd (require Contract_failed (record \<noteq> NullIR)) (\<lambda>_. throw Null_dereference)"
| "deep_copy_with_record (Node a i l r) record =
     bnd (require Contract_failed (record \<noteq> NullIR)) (\<lambda>_.
     bnd (if l \<noteq> NullIR then deep_copy_with_record l record else return NullIR) (\<lambda>left.
     bnd (if r \<noteq> NullIR then deep_copy_with_record r record else return NullIR) (\<lambda>right.
     bnd (new_clone_IR i left right) (\<lambda>copy_res.
     bnd (if ptr_eq (Node a i l r) record then modify (\<lambda>s. s\<lparr>mut_record := copy_res\<rparr>) else return ()) (\<lambda>_.
     return copy_res)))))"

definition replace :: "IR \<Rightarrow> IR \<Rightarrow> IR \<Rightarrow> error + IR" where
  "replace root old_ir new_ir =
     (let parent_ir = locate_parent root old_ir in
      if parent_ir = NullIR then Inl Assert_failed
      else if LeftChild parent_ir \<noteq> NullIR \<and> ptr_eq (LeftChild parent_ir) old_ir
      then Inr (update_at (ir_addr parent_ir) (SetLeftChild new_ir) root)
      else if RightChild parent_ir \<noteq> NullIR \<and> ptr_eq (RightChild parent_ir) old_ir
      then Inr (update_at (ir_addr parent_ir) (SetRightChild new_ir) root)
      else Inl Assert_failed)"

section \<open>Which nodes are mutated\<close>

fun can_be_mutated :: "IR \<Rightarrow> bool" where
  "can_be_mutated NullIR = True"
| "can_be_mutated (Node a i l r) =
     (if ir_data_type i = kVariableDefinition \<or> ir_data_type i = kVariableType \<or>
         ir_data_type i = kClassDefinition
      then False
      else (l \<noteq> NullIR \<longrightarrow> can_be_mutated l) \<and> (r \<noteq> NullIR \<longrightarrow> can_be_mutated r))"

definition should_mutate :: "IR \<Rightarrow> 'z mutator_scheme \<Rightarrow> bool" where
  "should_mutate cur s =
     (if ir_type (ir_info cur) = GetUnknownType then False
      else if ir_type (ir_info cur) \<in> mut_not_mutatable_types s then False
      else if is_leaf cur then False
      else if \<not> can_be_mutated cur then False
      else True)"

definition is_ir_type_connvertable :: "IRTYPE \<Rightarrow> IRTYPE \<Rightarrow> 'z mutator_scheme \<Rightarrow> bool" where
  "is_ir_type_connvertable a b s =
     (if a = b then True
      else (case om_get (mut_convertable_map s) a of None \<Rightarrow> False | Some bs \<Rightarrow> b \<in> set bs))"

section \<open>The two strategies\<close>

definition op_is_empty :: "IROperator option \<Rightarrow> bool" where
  "op_is_empty oper =
     (case oper of None \<Rightarrow> True
      | Some oper \<Rightarrow> op_prefix oper = [] \<and> op_middle oper = [] \<and> op_suffix oper = [])"

text \<open>The library's node is copied without its children (they are unlinked for the copy and
  linked again after it), then gets copies of the children of \<open>cur\<close>.\<close>

definition strategy_replace_with_constraint :: "IR \<Rightarrow> ('z mutator_scheme, IR) M" where
  "strategy_replace_with_constraint cur =
     bnd (require Assert_failed (cur \<noteq> NullIR)) (\<lambda>_.
     if op_is_empty (ir_op (ir_info cur)) then return NullIR
     else
       bnd (gets (\<lambda>s. om_get (mut_convertable_map s) (ir_type (ir_info cur)))) (\<lambda>conv.
       bnd (case conv of None \<Rightarrow> return (ir_type (ir_info cur)) | Some tys \<Rightarrow> random_pick tys) (\<lambda>replace_type.
       bnd (GetRandomIR replace_type) (\<lambda>res.
       bnd (require Null_dereference (res \<noteq> NullIR)) (\<lambda>_.
       if (LeftChild res \<noteq> NullIR) \<noteq> (LeftChild cur \<noteq> NullIR) \<or>
          (RightChild res \<noteq> NullIR) \<noteq> (RightChild cur \<noteq> NullIR)
       then return NullIR
       else
         bnd (gets (\<lambda>s. LeftChild res \<noteq> NullIR \<longrightarrow>
                is_ir_type_connvertable (ir_type (ir_info (LeftChild res))) (ir_type (ir_info (LeftChild cur))) s)) (\<lambda>left_ok.
         bnd (gets (\<lambda>s. RightChild res \<noteq> NullIR \<longrightarrow>
                is_ir_type_connvertable (ir_type (ir_info (RightChild res))) (ir_type (ir_info (RightChild cur))) s)) (\<lambda>right_ok.
         if \<not> left_ok then return NullIR
         else if \<not> right_ok then return NullIR
         else
           bnd (deep_copy (SetRightChild NullIR (SetLeftChild NullIR res))) (\<lambda>res.
           bnd (if LeftChild cur \<noteq> NullIR
                then bnd (deep_copy (LeftChild cur)) (\<lambda>l. return (SetLeftChild l res))
                else return res) (\<lambda>res.
           if RightChild cur \<noteq> NullIR
           then bnd (deep_copy (RightChild cur)) (\<lambda>r. return (SetRightChild r res))
           else return res)))))))))"

definition strategy_replace :: "IR \<Rightarrow> ('z mutator_scheme, IR) M" where
  "strategy_replace cur =
     bnd (require Assert_failed (cur \<noteq> NullIR)) (\<lambda>_.
     bnd (get_rand_int 3) (\<lambda>randint.
     if randint = 0 then
       (if LeftChild cur \<noteq> NullIR \<and> not_unknown (LeftChild cur) then
          bnd (deep_copy cur) (\<lambda>res.
          bnd (GetRandomIR (ir_type (ir_info (LeftChild res)))) (\<lambda>new_node.
          bnd (deep_copy new_node) (\<lambda>new_node. return (SetLeftChild new_node res))))
        else return NullIR)
     else if randint = 1 then
       (if RightChild cur \<noteq> NullIR \<and> not_unknown (RightChild cur) then
          bnd (deep_copy cur) (\<lambda>res.
          bnd (GetRandomIR (ir_type (ir_info (RightChild res)))) (\<lambda>new_node.
          bnd (deep_copy new_node) (\<lambda>new_node. return (SetRightChild new_node res))))
        else return NullIR)
     else
       (if LeftChild cur \<noteq> NullIR \<and> RightChild cur \<noteq> NullIR \<and>
           not_unknown (LeftChild cur) \<and> not_unknown (RightChild cur) then
          bnd (deep_copy cur) (\<lambda>res.
          bnd (GetRandomIR (ir_type (ir_info (LeftChild res)))) (\<lambda>new_left.
          bnd (GetRandomIR (ir_type (ir_info (RightChild res)))) (\<lambda>new_right.
          bnd (deep_copy new_right) (\<lambda>new_right.
          let res = SetRightChild new_right res in
          bnd (deep_copy new_left) (\<lambda>new_left. return (SetLeftChild new_left res))))))
        else return NullIR)))"

definition kMaxMutationTimes :: nat where
  "kMaxMutationTimes = 500"

definition lucky_enough_to_be_mutated :: "32 word \<Rightarrow> ('z runtime_scheme, bool) M" where
  "lucky_enough_to_be_mutated mutated_times =
     bnd (get_rand_int (unat (mutated_times + 1))) (\<lambda>n. return (n < kMaxMutationTimes))"

definition kConstraintReplaceTimes :: nat where
  "kConstraintReplaceTimes = 6"

definition push_unless_null :: "('s, IR) M \<Rightarrow> IR list \<Rightarrow> ('s, IR list) M" where
  "push_unless_null m res = bnd m (\<lambda>tmp. return (if tmp \<noteq> NullIR then res @ [tmp] else res))"

definition MutateIR :: "IR \<Rightarrow> ('z mutator_scheme, IR list) M" where
  "MutateIR input =
     bnd (foldM (\<lambda>_. push_unless_null (strategy_replace_with_constraint input))
            [0 ..< kConstraintReplaceTimes] []) (\<lambda>res.
     push_unless_null (strategy_replace input) res)"

section \<open>ExtractStructure\<close>

text \<open>The bits of the double \<open>1.1\<close>.\<close>

definition double_1_1 :: "64 word" where
  "double_1_1 = 0x3FF199999999999A"

definition extract_leaf :: "IRInfo \<Rightarrow> IRInfo" where
  "extract_leaf i =
     (if ir_data_type i = kDataDefault \<and> ContainString i then i\<lparr>ir_data := StringData [CHR 39, CHR ''x'', CHR 39]\<rparr>
      else (case ir_data i of
              IntData _ \<Rightarrow> i\<lparr>ir_data := IntData 1\<rparr>
            | FloatData _ \<Rightarrow> i\<lparr>ir_data := FloatData double_1_1\<rparr>
            | _ \<Rightarrow> i))"

fun ExtractStructure :: "IR \<Rightarrow> ('z runtime_scheme, IR) M" where
  "ExtractStructure NullIR = throw Null_dereference"
| "ExtractStructure (Node a i l r) =
     bnd (if l \<noteq> NullIR then
            (if ir_data_type (ir_info l) = kFixUnit
             then new_data_IR GetUnknownType (StringData ''FIXME'')
             else ExtractStructure l)
          else return NullIR) (\<lambda>l'.
     bnd (if r \<noteq> NullIR then
            (if ir_data_type (ir_info r) = kFixUnit
             then new_data_IR GetUnknownType (StringData ''FIXME'')
             else ExtractStructure r)
          else return NullIR) (\<lambda>r'.
     if l' \<noteq> NullIR \<or> r' \<noteq> NullIR then return (Node a i l' r')
     else return (Node a (extract_leaf i) l' r')))"

definition AddIRToLibrary :: "(64 word \<Rightarrow> string) \<Rightarrow> IR \<Rightarrow> ('z mutator_scheme, unit) M" where
  "AddIRToLibrary fd cur = bnd (ExtractStructure cur) (\<lambda>cur. SaveIRRecursive fd cur)"

section \<open>MutateIRs\<close>

text \<open>
  One variant: \<open>i\<close> is put in the place of \<open>ir\<close> in a copy of the root. The hash of a
  variant is stored in an \<open>unsigned\<close>, the hash of the root in an \<open>unsigned long\<close>.
\<close>

definition add_variant ::
  "(64 word \<Rightarrow> string) \<Rightarrow> IR \<Rightarrow> IR \<Rightarrow> IR \<Rightarrow> IR list \<times> 64 word set
     \<Rightarrow> ('z mutator_scheme, IR list \<times> 64 word set) M" where
  "add_variant fd root ir i = (\<lambda>(res, res_hash).
     bnd (deep_copy_with_record root ir) (\<lambda>new_ir_tree.
     bnd (gets mut_record) (\<lambda>record.
     bnd (lift_result (replace new_ir_tree record i)) (\<lambda>new_ir_tree.
     bnd (deep_copy new_ir_tree) (\<lambda>backup.
     bnd (ExtractStructure new_ir_tree) (\<lambda>new_ir_tree.
     let tmp_hash = (ucast (ir_hash fd new_ir_tree) :: 32 word)
     in if ucast tmp_hash \<in> res_hash then return (res, res_hash)
        else return (res @ [backup], insert (ucast tmp_hash) res_hash)))))))"

definition mutate_one ::
  "(64 word \<Rightarrow> string) \<Rightarrow> IR \<Rightarrow> IR \<Rightarrow> IR list \<times> 64 word set
     \<Rightarrow> ('z mutator_scheme, IR list \<times> 64 word set) M" where
  "mutate_one fd root ir acc =
     bnd (gets (should_mutate ir)) (\<lambda>should.
     if ptr_eq ir root \<or> \<not> should then return acc
     else bnd (MutateIR ir) (\<lambda>new_variants. foldM (add_variant fd root ir) new_variants acc))"

definition MutateIRs :: "(64 word \<Rightarrow> string) \<Rightarrow> IR list \<Rightarrow> ('z mutator_scheme, IR list) M" where
  "MutateIRs fd irs_to_mutate =
     bnd (require Index_out_of_range (irs_to_mutate \<noteq> [])) (\<lambda>_.
     let root = last irs_to_mutate in
     bnd (require Null_dereference (root \<noteq> NullIR)) (\<lambda>_.
     bnd (foldM (mutate_one fd root) irs_to_mutate ([], {ir_hash fd root})) (\<lambda>(res, _).
     return res)))"

section \<open>Copying with a record\<close>

text \<open>Trees up to identities.\<close>

fun erase :: "IR \<Rightarrow> IR" where
  "erase NullIR = NullIR"
| "erase (Node a i l r) = Node 0 i (erase l) (erase r)"

lemma erase_Null [simp]: "erase t = NullIR \<longleftrightarrow> t = NullIR"
  by (cases t) auto

lemma is_copy_erase: "erase t = erase u \<Longrightarrow> is_copy t v = is_copy u v"
proof (induction t arbitrary: u v)
  case NullIR
  then show ?case by (cases u) auto
next
  case (Node a i l r)
  then show ?case by (cases u) (auto split: IR.splits)
qed

definition same_but_copy :: "'z mutator_scheme \<Rightarrow> 'z mutator_scheme \<Rightarrow> bool" where
  "same_but_copy s s' \<longleftrightarrow> s'\<lparr>rt_next := 0, mut_record := NullIR\<rparr> = s\<lparr>rt_next := 0, mut_record := NullIR\<rparr>"

lemma same_but_copy_refl [simp]: "same_but_copy s s"
  by (simp add: same_but_copy_def)

lemma same_but_copy_trans [trans]: "same_but_copy s s' \<Longrightarrow> same_but_copy s' s'' \<Longrightarrow> same_but_copy s s''"
  by (simp add: same_but_copy_def)

lemma same_but_copy_upd [simp]:
  "same_but_copy s (s'\<lparr>rt_next := n\<rparr>) = same_but_copy s s'"
  "same_but_copy s (s'\<lparr>mut_record := m\<rparr>) = same_but_copy s s'"
  by (simp_all add: same_but_copy_def)

lemma same_but_copy_members:
  assumes "same_but_copy s s'"
  shows "lib_irs s' = lib_irs s" "lib_hash s' = lib_hash s" "lib_empty_ir s' = lib_empty_ir s"
    "mut_not_mutatable_types s' = mut_not_mutatable_types s"
    "mut_convertable_map s' = mut_convertable_map s"
  using assms by (cases s; cases s'; simp add: same_but_copy_def)+

definition recorded :: "IR \<Rightarrow> IR \<Rightarrow> 'z mutator_scheme \<Rightarrow> IR \<Rightarrow> 'z mutator_scheme \<Rightarrow> bool" where
  "recorded t record s t' s' \<longleftrightarrow>
     erase t' = erase t \<and> unshared t' \<and> set (addrs t') = {rt_next s ..< rt_next s'} \<and>
     rt_next s' = rt_next s + ir_size t \<and>
     (if ir_addr record \<in> set (addrs t)
      then mut_record s' \<noteq> NullIR \<and> ir_addr (mut_record s') \<in> set (addrs t') \<and>
           (ir_addr t' = ir_addr (mut_record s') \<longleftrightarrow> ir_addr t = ir_addr record) \<and>
           (\<forall>new. erase (subst_at (ir_addr (mut_record s')) new t') = erase (subst_at (ir_addr record) new t))
      else mut_record s' = mut_record s) \<and>
     same_but_copy s s'"

lemma recorded_Null: "recorded NullIR record s NullIR s"
  by (simp add: recorded_def unshared_def)

lemma recorded_node:
  assumes L: "recorded l record s l' s1" and R: "recorded r record s1 r' s2"
    and un: "unshared (Node a i l r)" and ne: "record \<noteq> NullIR"
    and s3: "s3 = s2\<lparr>rt_next := Suc (rt_next s2)\<rparr>"
    and s4: "s4 = (if ptr_eq (Node a i l r) record
                   then s3\<lparr>mut_record := Node (rt_next s2) i l' r'\<rparr> else s3)"
  shows "recorded (Node a i l r) record s (Node (rt_next s2) i l' r') s4"
proof -
  let ?a = "ir_addr record" and ?b = "rt_next s2"
  have n: "rt_next s1 = rt_next s + ir_size l" "rt_next s2 = rt_next s1 + ir_size r"
    "rt_next s4 = Suc (rt_next s2)"
    using L R by (simp_all add: recorded_def s3 s4)
  have ad: "set (addrs l') = {rt_next s ..< rt_next s1}" "set (addrs r') = {rt_next s1 ..< rt_next s2}"
    using L R by (simp_all add: recorded_def)
  have un': "unshared (Node ?b i l' r')"
    using L R n ad by (auto simp: unshared_Node recorded_def)
  have ad': "set (addrs (Node ?b i l' r')) = {rt_next s ..< rt_next s4}"
    using ad n by auto
  have fr: "same_but_copy s s4"
    using L R same_but_copy_trans [of s s1 s2] by (simp add: recorded_def s3 s4)
  have er: "erase l' = erase l" "erase r' = erase r" using L R by (simp_all add: recorded_def)
  have sh: "a \<notin> set (addrs l)" "a \<notin> set (addrs r)" "set (addrs l) \<inter> set (addrs r) = {}"
    using un by (auto simp: unshared_Node)
  have pe: "ptr_eq (Node a i l r) record \<longleftrightarrow> a = ?a" using ne by (simp add: ptr_eq_addr)
  consider (here) "a = ?a" | (left) "a \<noteq> ?a" "?a \<in> set (addrs l)" | (right) "a \<noteq> ?a" "?a \<notin> set (addrs l)" "?a \<in> set (addrs r)"
    | (out) "a \<noteq> ?a" "?a \<notin> set (addrs l)" "?a \<notin> set (addrs r)" by blast
  then show ?thesis
  proof cases
    case here
    have m: "mut_record s4 = Node ?b i l' r'" unfolding s4 if_P [OF iffD2 [OF pe here]] by simp
    show ?thesis unfolding recorded_def using here un' ad' fr n er m by simp
  next
    case left
    have na: "?a \<notin> set (addrs r)" using left sh by auto
    have m: "mut_record s4 = mut_record s1" using left R na by (simp add: s4 pe s3 recorded_def)
    have lr: "mut_record s1 \<noteq> NullIR" "ir_addr (mut_record s1) \<in> set (addrs l')"
      "\<And>new. erase (subst_at (ir_addr (mut_record s1)) new l') = erase (subst_at ?a new l)"
      using L unfolding recorded_def if_P [OF left(2)] by blast+
    then have "ir_addr (mut_record s1) \<notin> set (addrs r')" "ir_addr (mut_record s1) \<noteq> ?b"
      "rt_next s \<le> ir_addr (mut_record s1) \<and> ir_addr (mut_record s1) < rt_next s4"
      using ad n by auto
    then show ?thesis
      unfolding recorded_def using left na un' ad' fr n er m lr by (simp add: subst_at_notin)
  next
    case right
    have m: "mut_record s4 = mut_record s2" using right by (simp add: s4 pe s3)
    have rr: "mut_record s2 \<noteq> NullIR" "ir_addr (mut_record s2) \<in> set (addrs r')"
      "\<And>new. erase (subst_at (ir_addr (mut_record s2)) new r') = erase (subst_at ?a new r)"
      using R unfolding recorded_def if_P [OF right(3)] by blast+
    then have "ir_addr (mut_record s2) \<notin> set (addrs l')" "ir_addr (mut_record s2) \<noteq> ?b"
      "rt_next s \<le> ir_addr (mut_record s2) \<and> ir_addr (mut_record s2) < rt_next s4"
      using ad n by auto
    then show ?thesis
      unfolding recorded_def using right un' ad' fr n er m rr by (simp add: subst_at_notin)
  next
    case out
    have m: "mut_record s4 = mut_record s" using out L R by (simp add: s4 pe s3 recorded_def)
    show ?thesis unfolding recorded_def using out un' ad' fr n er m by simp
  qed
qed

lemma ok_deep_copy_with_record:
  assumes "record \<noteq> NullIR" and "t \<noteq> NullIR" and "unshared t"
  shows "ok (deep_copy_with_record t record) s (recorded t record s)"
  using assms(2,3)
proof (induction t arbitrary: s)
  case NullIR
  then show ?case by simp
next
  case (Node a i l r)
  have un: "unshared l" "unshared r" using Node.prems by (simp_all add: unshared_Node)
  have L: "ok (if l \<noteq> NullIR then deep_copy_with_record l record else return NullIR) s (recorded l record s)"
    for s :: "'a mutator_scheme"
    using Node.IH(1) un by (auto simp: ok_return recorded_Null)
  have R: "ok (if r \<noteq> NullIR then deep_copy_with_record r record else return NullIR) s (recorded r record s)"
    for s :: "'a mutator_scheme"
    using Node.IH(2) un by (auto simp: ok_return recorded_Null)
  show ?case
    unfolding deep_copy_with_record.simps ok_bnd ok_require
  proof (rule conjI [OF assms(1)], rule ok_mono [OF L], rule ok_mono [OF R], goal_cases)
    case (1 l' s1 r' s2)
    have "recorded (Node a i l r) record s (Node (rt_next s2) i l' r')
       (if ptr_eq (Node a i l r) record
        then s2\<lparr>rt_next := Suc (rt_next s2), mut_record := Node (rt_next s2) i l' r'\<rparr>
        else s2\<lparr>rt_next := Suc (rt_next s2)\<rparr>)"
      by (rule recorded_node [OF 1 Node.prems(2) assms(1) refl]) simp
    then show ?case
      by (simp add: new_clone_IR_def new_addr_def m_simps split: if_splits)
  qed
qed

lemma replace_recorded:
  assumes "old \<noteq> NullIR" and "unshared t" and "ir_addr old \<in> set (addrs t)" and "ir_addr t \<noteq> ir_addr old"
  shows "replace t old new = Inr (subst_at (ir_addr old) new t)"
proof -
  note L = locate_parent_subst [OF assms, of new]
  then have "locate_parent t old \<noteq> NullIR" using subtrees_not_Null by metis
  moreover have "ptr_eq p old \<Longrightarrow> p \<noteq> NullIR" for p by (simp add: ptr_eq_addr assms(1))
  ultimately show ?thesis using L by (auto simp: replace_def Let_def split: if_splits)
qed

section \<open>What the strategies return\<close>

definition minv :: "(64 word \<Rightarrow> string) \<Rightarrow> 'z mutator_scheme \<Rightarrow> bool" where
  "minv fd s \<longleftrightarrow> lib_inv fd s \<and> mut_convertable_map s = []"

definition stable :: "(64 word \<Rightarrow> string) \<Rightarrow> 'z mutator_scheme \<Rightarrow> 'z mutator_scheme \<Rightarrow> bool" where
  "stable fd s s' \<longleftrightarrow>
     minv fd s' \<and> lib_irs s' = lib_irs s \<and> mut_not_mutatable_types s' = mut_not_mutatable_types s \<and>
     rt_next s \<le> rt_next s'"

definition from_lib :: "'z ir_library_scheme \<Rightarrow> IRTYPE \<Rightarrow> IR \<Rightarrow> bool" where
  "from_lib s ty t \<longleftrightarrow> (if lib_irs s ty = [] then empty_ir_like t else t \<in> set (lib_irs s ty))"

definition fresh :: "'z runtime_scheme \<Rightarrow> IR \<Rightarrow> 'z runtime_scheme \<Rightarrow> bool" where
  "fresh s v s' \<longleftrightarrow> unshared v \<and> set (addrs v) \<subseteq> {rt_next s ..< rt_next s'}"

lemma stable_refl: "minv fd s \<Longrightarrow> stable fd s s"
  by (simp add: stable_def)

lemma stable_trans [trans]: "stable fd s s' \<Longrightarrow> stable fd s' s'' \<Longrightarrow> stable fd s s''"
  by (simp add: stable_def)

lemma stable_minv: "stable fd s s' \<Longrightarrow> minv fd s'"
  by (simp add: stable_def)

lemma stable_next: "stable fd s s' \<Longrightarrow> rt_next s \<le> rt_next s'"
  by (simp add: stable_def)

lemma stable_from_lib: "stable fd s s' \<Longrightarrow> from_lib s' = from_lib s"
  by (simp add: stable_def from_lib_def fun_eq_iff)

lemma from_lib_not_Null: "minv fd s \<Longrightarrow> from_lib s ty t \<Longrightarrow> t \<noteq> NullIR"
  by (auto simp: minv_def lib_inv_def shelf_ok_def from_lib_def empty_ir_like_def split: if_splits)

lemma from_lib_type:
  "minv fd s \<Longrightarrow> from_lib s ty t \<Longrightarrow> empty_ir_like t \<or> ir_type (ir_info t) = ty"
  by (auto simp: minv_def lib_inv_def shelf_ok_def from_lib_def split: if_splits)

lemma empty_ir_like_stored: "empty_ir_like t \<Longrightarrow> ir_data (ir_info t) \<noteq> Monostate"
  by (simp add: empty_ir_like_def)

lemma lib_inv_runtime [simp]:
  "lib_inv fd (s\<lparr>rt_next := n\<rparr>) = lib_inv fd s"
  "lib_inv fd (s\<lparr>rt_pos := n\<rparr>) = lib_inv fd s"
  by (simp_all add: lib_inv_def)

lemma minv_runtime [simp]:
  "minv fd (s\<lparr>rt_next := n\<rparr>) = minv fd s"
  "minv fd (s\<lparr>rt_pos := n\<rparr>) = minv fd s"
  by (simp_all add: minv_def)

lemma ok_deep_copy_stable:
  assumes "minv fd s" and "t \<noteq> NullIR"
  shows "ok (deep_copy t) s (\<lambda>t' s'. stable fd s s' \<and> t' \<noteq> NullIR \<and> is_copy t t' \<and> fresh s t' s')"
  by (rule ok_mono [OF ok_deep_copy [OF assms(2)]]) (use assms(1) in \<open>auto simp: stable_def fresh_def\<close>)

lemma ok_GetRandomIR_stable:
  assumes "minv fd s"
  shows "ok (GetRandomIR ty) s (\<lambda>t s'. stable fd s s' \<and> t \<noteq> NullIR \<and> from_lib s ty t)"
proof -
  have I: "lib_inv fd s" using assms by (simp add: minv_def)
  show ?thesis
  proof (rule ok_mono [OF ok_GetRandomIR [OF I]], elim conjE, goal_cases)
    case (1 t s')
    have "mut_convertable_map s' = mut_convertable_map s \<and>
        mut_not_mutatable_types s' = mut_not_mutatable_types s"
      using 1(4) by (cases s; cases s') simp
    then have "stable fd s s'" using 1 assms by (simp add: stable_def minv_def)
    moreover have "from_lib s ty t" using 1(5) by (simp add: from_lib_def)
    ultimately show ?case using from_lib_not_Null [OF assms] by blast
  qed
qed

lemma ok_get_rand_int_stable:
  assumes "minv fd s" and "0 < n"
  shows "ok (get_rand_int n) s (\<lambda>i s'. stable fd s s' \<and> i < n \<and> rt_next s' = rt_next s)"
  by (rule ok_mono [OF ok_get_rand_int [OF assms(2)]]) (use assms(1) in \<open>simp add: stable_def\<close>)

text \<open>
  A variant of \<open>cur\<close>. With the constraint: the head of a library node of the same type, shape
  and child types over copies of the children of \<open>cur\<close>. Without: the head of \<open>cur\<close> over copies of
  its children, at least one of known type exchanged for a library node of that type.
\<close>

definition new_head :: "'z ir_library_scheme \<Rightarrow> IR \<Rightarrow> IR \<Rightarrow> bool" where
  "new_head s cur v \<longleftrightarrow>
     (\<exists>res. from_lib s (ir_type (ir_info cur)) res \<and> same_content (ir_info res) (ir_info v) \<and>
        is_copy (LeftChild cur) (LeftChild v) \<and> is_copy (RightChild cur) (RightChild v) \<and>
        (LeftChild cur = NullIR \<longleftrightarrow> LeftChild res = NullIR) \<and>
        (RightChild cur = NullIR \<longleftrightarrow> RightChild res = NullIR))"

definition new_child :: "'z ir_library_scheme \<Rightarrow> IR \<Rightarrow> IR \<Rightarrow> bool" where
  "new_child s c c' \<longleftrightarrow>
     c \<noteq> NullIR \<and> not_unknown c \<and> (\<exists>n. from_lib s (ir_type (ir_info c)) n \<and> is_copy n c')"

definition new_children :: "'z ir_library_scheme \<Rightarrow> IR \<Rightarrow> IR \<Rightarrow> bool" where
  "new_children s cur v \<longleftrightarrow>
     same_content (ir_info cur) (ir_info v) \<and>
     (is_copy (LeftChild cur) (LeftChild v) \<or> new_child s (LeftChild cur) (LeftChild v)) \<and>
     (is_copy (RightChild cur) (RightChild v) \<or> new_child s (RightChild cur) (RightChild v)) \<and>
     (new_child s (LeftChild cur) (LeftChild v) \<or> new_child s (RightChild cur) (RightChild v))"

definition variant :: "'z ir_library_scheme \<Rightarrow> IR \<Rightarrow> IR \<Rightarrow> bool" where
  "variant s cur v \<longleftrightarrow> v \<noteq> NullIR \<and> (new_head s cur v \<or> new_children s cur v)"

definition result_of :: "(64 word \<Rightarrow> string) \<Rightarrow> IR \<Rightarrow> 'z mutator_scheme \<Rightarrow> IR \<Rightarrow> 'z mutator_scheme \<Rightarrow> bool" where
  "result_of fd cur s v s' \<longleftrightarrow> stable fd s s' \<and> (v = NullIR \<or> variant s cur v \<and> fresh s v s')"

lemma result_of_Null: "stable fd s s' \<Longrightarrow> result_of fd cur s NullIR s'"
  by (simp add: result_of_def)

lemma fresh_SetLeftChild:
  assumes "fresh s t s1" and "fresh s1 c s2" and "rt_next s \<le> rt_next s1" and "rt_next s1 \<le> rt_next s2"
  shows "fresh s (SetLeftChild c t) s2"
proof (cases t)
  case (Node a i l r)
  have "set (addrs c) \<inter> {a. a < rt_next s1} = {}" using assms(2) by (auto simp: fresh_def)
  moreover have "insert a (set (addrs r)) \<subseteq> {a. a < rt_next s1}" using assms(1) Node by (auto simp: fresh_def)
  ultimately have "a \<notin> set (addrs c)" "set (addrs c) \<inter> set (addrs r) = {}" by blast+
  then show ?thesis using assms Node by (force simp: fresh_def unshared_Node)
qed (simp add: fresh_def unshared_def)

lemma fresh_SetRightChild:
  assumes "fresh s t s1" and "fresh s1 c s2" and "rt_next s \<le> rt_next s1" and "rt_next s1 \<le> rt_next s2"
  shows "fresh s (SetRightChild c t) s2"
proof (cases t)
  case (Node a i l r)
  have "set (addrs c) \<inter> {a. a < rt_next s1} = {}" using assms(2) by (auto simp: fresh_def)
  moreover have "insert a (set (addrs l)) \<subseteq> {a. a < rt_next s1}" using assms(1) Node by (auto simp: fresh_def)
  ultimately have "a \<notin> set (addrs c)" "set (addrs c) \<inter> set (addrs l) = {}" by blast+
  then show ?thesis using assms Node by (force simp: fresh_def unshared_Node)
qed (simp add: fresh_def unshared_def)

lemma Set_child_simps [simp]:
  "SetLeftChild l t = NullIR \<longleftrightarrow> t = NullIR" "SetRightChild r t = NullIR \<longleftrightarrow> t = NullIR"
  "t \<noteq> NullIR \<Longrightarrow> LeftChild (SetLeftChild l t) = l" "t \<noteq> NullIR \<Longrightarrow> RightChild (SetRightChild r t) = r"
  "RightChild (SetLeftChild l t) = RightChild t" "LeftChild (SetRightChild r t) = LeftChild t"
  "t \<noteq> NullIR \<Longrightarrow> ir_info (SetLeftChild l t) = ir_info t"
  "t \<noteq> NullIR \<Longrightarrow> ir_info (SetRightChild r t) = ir_info t"
  by (cases t; simp)+

lemma fresh_later:
  "fresh s1 c s2 \<Longrightarrow> rt_next s \<le> rt_next s1 \<Longrightarrow> rt_next s2 \<le> rt_next s3 \<Longrightarrow> fresh s c s3"
  by (auto simp: fresh_def subset_iff)

lemma ok_copy_child:
  assumes "minv fd s" and "res \<noteq> NullIR" and "fresh s0 res s" and "rt_next s0 \<le> rt_next s"
    and "LeftChild res = NullIR"
  shows "ok (if c \<noteq> NullIR then bnd (deep_copy c) (\<lambda>l. return (SetLeftChild l res)) else return res) s
     (\<lambda>res' s'. stable fd s s' \<and> res' \<noteq> NullIR \<and> fresh s0 res' s' \<and> ir_info res' = ir_info res \<and>
        is_copy c (LeftChild res') \<and> RightChild res' = RightChild res)"
proof (cases "c = NullIR")
  case True
  then show ?thesis using assms by (simp add: ok_return stable_refl)
next
  case False
  show ?thesis
    unfolding if_P [OF False] ok_bnd ok_return
    by (rule ok_mono [OF ok_deep_copy_stable [OF assms(1) False]])
      (use assms(2-4) in \<open>auto intro: fresh_SetLeftChild dest: stable_next\<close>)
qed

lemma ok_copy_right:
  assumes "minv fd s" and "res \<noteq> NullIR" and "fresh s0 res s" and "rt_next s0 \<le> rt_next s"
    and "RightChild res = NullIR"
  shows "ok (if c \<noteq> NullIR then bnd (deep_copy c) (\<lambda>r. return (SetRightChild r res)) else return res) s
     (\<lambda>res' s'. stable fd s s' \<and> res' \<noteq> NullIR \<and> fresh s0 res' s' \<and> ir_info res' = ir_info res \<and>
        is_copy c (RightChild res') \<and> LeftChild res' = LeftChild res)"
proof (cases "c = NullIR")
  case True
  then show ?thesis using assms by (simp add: ok_return stable_refl)
next
  case False
  show ?thesis
    unfolding if_P [OF False] ok_bnd ok_return
    by (rule ok_mono [OF ok_deep_copy_stable [OF assms(1) False]])
      (use assms(2-4) in \<open>auto intro: fresh_SetRightChild dest: stable_next\<close>)
qed

lemma head_copy:
  "res \<noteq> NullIR \<Longrightarrow> is_copy (SetRightChild NullIR (SetLeftChild NullIR res)) t \<Longrightarrow>
     same_content (ir_info res) (ir_info t) \<and> LeftChild t = NullIR \<and> RightChild t = NullIR"
  by (cases res; cases t) auto

text \<open>The head of a library node over copies of the children of \<open>cur\<close>.\<close>

lemma ok_head_over_children:
  assumes s1: "stable fd s s1" and res: "res \<noteq> NullIR" "from_lib s (ir_type (ir_info cur)) res"
    and shape: "(LeftChild res \<noteq> NullIR) = (LeftChild cur \<noteq> NullIR)" "(RightChild res \<noteq> NullIR) = (RightChild cur \<noteq> NullIR)"
  shows "ok (bnd (deep_copy (SetRightChild NullIR (SetLeftChild NullIR res))) (\<lambda>res.
    bnd (if LeftChild cur \<noteq> NullIR
         then bnd (deep_copy (LeftChild cur)) (\<lambda>l. return (SetLeftChild l res)) else return res) (\<lambda>res.
    if RightChild cur \<noteq> NullIR
    then bnd (deep_copy (RightChild cur)) (\<lambda>r. return (SetRightChild r res)) else return res))) s1 (result_of fd cur s)"
  unfolding ok_bnd
proof (rule ok_mono [OF ok_deep_copy_stable [OF stable_minv [OF s1]]], goal_cases)
  case 1
  show ?case using res(1) by simp
next
  case (2 t s2)
  then have t: "stable fd s1 s2" "t \<noteq> NullIR" "fresh s1 t s2" by auto
  have H: "same_content (ir_info res) (ir_info t)" "LeftChild t = NullIR" "RightChild t = NullIR"
    using head_copy [OF res(1), of t] 2 by auto
  show ?case
  proof (rule ok_mono [OF ok_copy_child [OF stable_minv [OF t(1)] t(2,3) stable_next [OF t(1)] H(2)]], elim conjE, goal_cases)
    case (1 t2 s3)
    have s3: "stable fd s1 s3" by (rule stable_trans [OF t(1) 1(1)])
    have r2: "RightChild t2 = NullIR" using 1(6) H(3) by simp
    show ?case
    proof (rule ok_mono [OF ok_copy_right [OF stable_minv [OF s3] 1(2,3) stable_next [OF s3] r2]], elim conjE, goal_cases)
      case (1 t3 s4)
      have "stable fd s s4" by (rule stable_trans [OF stable_trans [OF s1 s3] 1(1)])
      moreover have "fresh s t3 s4" by (rule fresh_later [OF 1(3) stable_next [OF s1] order_refl])
      moreover have "new_head s cur t3"
        unfolding new_head_def
        using 1(4-6) \<open>ir_info t2 = ir_info t\<close> \<open>is_copy (LeftChild cur) (LeftChild t2)\<close> H(1) res(2) shape
        by (intro exI [of _ res]) simp
      ultimately show ?case using 1(2) by (simp add: result_of_def variant_def)
    qed
  qed
qed

lemma ok_strategy_replace_with_constraint:
  assumes I: "minv fd s" and cur: "cur \<noteq> NullIR"
  shows "ok (strategy_replace_with_constraint cur) s (result_of fd cur s)"
proof (cases "op_is_empty (ir_op (ir_info cur))")
  case True
  then show ?thesis
    by (simp add: strategy_replace_with_constraint_def m_simps cur result_of_Null stable_refl I)
next
  case False
  have none: "om_get (mut_convertable_map s) ty = None" for ty using I by (simp add: minv_def)
  show ?thesis
    unfolding strategy_replace_with_constraint_def ok_bnd ok_require ok_gets if_not_P [OF False] none
      option.case ok_return
  proof (rule conjI [OF cur], rule ok_mono [OF ok_GetRandomIR_stable [OF I]], elim conjE, rule conjI, assumption, goal_cases)
    case (1 res s1)
    let ?shape = "(LeftChild res \<noteq> NullIR) \<noteq> (LeftChild cur \<noteq> NullIR) \<or>
          (RightChild res \<noteq> NullIR) \<noteq> (RightChild cur \<noteq> NullIR)"
    have nul: "result_of fd cur s NullIR s1" using 1 by (simp add: result_of_Null)
    show ?case
    proof (cases ?shape)
      case True
      then show ?thesis using nul by (simp add: ok_return)
    next
      case shape: False
      note body = ok_head_over_children [OF 1]
      show ?thesis
        unfolding if_not_P [OF shape] bnd_gets_ok
        using nul body shape by (simp only: ok_return split: if_split) blast
    qed
  qed
qed

lemma same_content_copy: "is_copy t t' \<Longrightarrow> t \<noteq> NullIR \<Longrightarrow> same_content (ir_info t) (ir_info t')"
  by (cases t; cases t') auto

lemma new_child_copied:
  assumes "is_copy t t'" and "c \<noteq> NullIR" and "not_unknown c"
    and "from_lib s (ir_type (ir_info c')) n" and "is_copy c c'" and "is_copy n v"
  shows "new_child s c v"
  using assms is_copy_type [OF assms(5,2)] by (auto simp: new_child_def)

text \<open>A library node of the type of child \<open>c\<close> is copied; \<open>t\<close> is the copy of \<open>cur\<close>.\<close>

lemma ok_lib_copy:
  assumes "minv fd s" and "is_copy c c'" and "c \<noteq> NullIR" and "not_unknown c"
  shows "ok (GetRandomIR (ir_type (ir_info c'))) s (\<lambda>n s1. stable fd s s1 \<and> n \<noteq> NullIR \<and>
     (\<forall>s2. stable fd s1 s2 \<longrightarrow> ok (deep_copy n) s2 (\<lambda>v s3. stable fd s s3 \<and> stable fd s2 s3 \<and>
        v \<noteq> NullIR \<and> fresh s2 v s3 \<and> new_child s c v)))"
proof (rule ok_mono [OF ok_GetRandomIR_stable [OF assms(1)]], elim conjE, intro conjI allI impI, goal_cases)
  case (3 n s1 s2)
  have "minv fd s2" using 3(4) by (rule stable_minv)
  from ok_deep_copy_stable [OF this 3(2)] show ?case
  proof (rule ok_mono, goal_cases)
    case (1 v s3)
    then show ?case
      using 3 new_child_copied [OF assms(2,3,4) 3(3) assms(2)] stable_trans [of fd s s1 s2] stable_trans [of fd s s2 s3]
      by blast
  qed
qed assumption+

lemma new_child_stable: "stable fd s s' \<Longrightarrow> new_child s' = new_child s"
  by (simp add: new_child_def stable_from_lib fun_eq_iff)

lemma ok_replace_left:
  assumes s1: "stable fd s s1" and cur: "cur \<noteq> NullIR"
    and nu: "LeftChild cur \<noteq> NullIR" "not_unknown (LeftChild cur)"
  shows "ok (bnd (deep_copy cur) (\<lambda>res.
      bnd (GetRandomIR (ir_type (ir_info (LeftChild res)))) (\<lambda>new_node.
      bnd (deep_copy new_node) (\<lambda>new_node. return (SetLeftChild new_node res))))) s1 (result_of fd cur s)"
  unfolding ok_bnd ok_return
proof (rule ok_mono [OF ok_deep_copy_stable [OF stable_minv [OF s1] cur]], goal_cases)
  case (1 t s2)
  then have t: "stable fd s1 s2" "t \<noteq> NullIR" "is_copy cur t" "fresh s1 t s2" by auto
  note ch = is_copy_children [OF t(3)]
  show ?case
  proof (rule ok_mono [OF ok_lib_copy [OF stable_minv [OF t(1)] conjunct1 [OF ch] nu]], elim conjE, goal_cases)
    case (1 n s3)
    show ?case
    proof (rule ok_mono [OF mp [OF spec [OF 1(3)] stable_refl [OF stable_minv [OF 1(1)]]]], elim conjE, goal_cases)
      case (1 v s4)
      have nc: "new_child s (LeftChild cur) v" using 1(5) new_child_stable [OF stable_trans [OF s1 t(1)]] by simp
      have "fresh s1 (SetLeftChild v t) s4"
        using t(4) fresh_later [OF 1(4) stable_next [OF \<open>stable fd s2 s3\<close>] order_refl]
          stable_next [OF t(1)] stable_next [OF 1(1)] by (rule fresh_SetLeftChild)
      then have "fresh s (SetLeftChild v t) s4"
        using stable_next [OF s1] by (rule fresh_later) simp
      moreover have "new_children s cur (SetLeftChild v t)"
        using nc ch t(2) same_content_copy [OF t(3) cur] by (simp add: new_children_def)
      ultimately show ?case
        using t(2) stable_trans [OF s1 stable_trans [OF t(1) 1(1)]] by (simp add: result_of_def variant_def)
    qed
  qed
qed

lemma ok_replace_right:
  assumes s1: "stable fd s s1" and cur: "cur \<noteq> NullIR"
    and nu: "RightChild cur \<noteq> NullIR" "not_unknown (RightChild cur)"
  shows "ok (bnd (deep_copy cur) (\<lambda>res.
      bnd (GetRandomIR (ir_type (ir_info (RightChild res)))) (\<lambda>new_node.
      bnd (deep_copy new_node) (\<lambda>new_node. return (SetRightChild new_node res))))) s1 (result_of fd cur s)"
  unfolding ok_bnd ok_return
proof (rule ok_mono [OF ok_deep_copy_stable [OF stable_minv [OF s1] cur]], goal_cases)
  case (1 t s2)
  then have t: "stable fd s1 s2" "t \<noteq> NullIR" "is_copy cur t" "fresh s1 t s2" by auto
  note ch = is_copy_children [OF t(3)]
  show ?case
  proof (rule ok_mono [OF ok_lib_copy [OF stable_minv [OF t(1)] conjunct2 [OF ch] nu]], elim conjE, goal_cases)
    case (1 n s3)
    show ?case
    proof (rule ok_mono [OF mp [OF spec [OF 1(3)] stable_refl [OF stable_minv [OF 1(1)]]]], elim conjE, goal_cases)
      case (1 v s4)
      have nc: "new_child s (RightChild cur) v" using 1(5) new_child_stable [OF stable_trans [OF s1 t(1)]] by simp
      have "fresh s1 (SetRightChild v t) s4"
        using t(4) fresh_later [OF 1(4) stable_next [OF \<open>stable fd s2 s3\<close>] order_refl]
          stable_next [OF t(1)] stable_next [OF 1(1)] by (rule fresh_SetRightChild)
      then have "fresh s (SetRightChild v t) s4"
        using stable_next [OF s1] by (rule fresh_later) simp
      moreover have "new_children s cur (SetRightChild v t)"
        using nc ch t(2) same_content_copy [OF t(3) cur] by (simp add: new_children_def)
      ultimately show ?case
        using t(2) stable_trans [OF s1 stable_trans [OF t(1) 1(1)]] by (simp add: result_of_def variant_def)
    qed
  qed
qed

lemma ok_replace_both:
  assumes s1: "stable fd s s1" and cur: "cur \<noteq> NullIR"
    and nu: "LeftChild cur \<noteq> NullIR" "not_unknown (LeftChild cur)"
      "RightChild cur \<noteq> NullIR" "not_unknown (RightChild cur)"
  shows "ok (bnd (deep_copy cur) (\<lambda>res.
      bnd (GetRandomIR (ir_type (ir_info (LeftChild res)))) (\<lambda>new_left.
      bnd (GetRandomIR (ir_type (ir_info (RightChild res)))) (\<lambda>new_right.
      bnd (deep_copy new_right) (\<lambda>new_right.
      let res = SetRightChild new_right res in
      bnd (deep_copy new_left) (\<lambda>new_left. return (SetLeftChild new_left res))))))) s1 (result_of fd cur s)"
  unfolding Let_def ok_bnd ok_return
proof (rule ok_mono [OF ok_deep_copy_stable [OF stable_minv [OF s1] cur]], goal_cases)
  case (1 t s2)
  then have t: "stable fd s1 s2" "t \<noteq> NullIR" "is_copy cur t" "fresh s1 t s2" by auto
  note ch = is_copy_children [OF t(3)]
  have s2: "stable fd s s2" by (rule stable_trans [OF s1 t(1)])
  show ?case
  proof (rule ok_mono [OF ok_lib_copy [OF stable_minv [OF t(1)] conjunct1 [OF ch] nu(1,2)]], elim conjE, goal_cases)
    case (1 nl s3)
    note l = 1
    show ?case
    proof (rule ok_mono [OF ok_lib_copy [OF stable_minv [OF l(1)] conjunct2 [OF ch] nu(3,4)]], elim conjE, goal_cases)
      case (1 nr s4)
      show ?case
      proof (rule ok_mono [OF mp [OF spec [OF 1(3)] stable_refl [OF stable_minv [OF 1(1)]]]], elim conjE, goal_cases)
        case (1 vr s5)
        note r = this
        have f1: "fresh s1 (SetRightChild vr t) s5"
          using t(4) fresh_later [OF r(4) stable_next [OF stable_trans [OF l(1) \<open>stable fd s3 s4\<close>]] order_refl]
            stable_next [OF t(1)] stable_next [OF stable_trans [OF l(1) r(1)]] by (rule fresh_SetRightChild)
        have ncr: "new_child s (RightChild cur) vr"
          using r(5) new_child_stable [OF stable_trans [OF s2 l(1)]] by simp
        show ?case
        proof (rule ok_mono [OF mp [OF spec [OF l(3)] r(1)]], elim conjE, goal_cases)
          case (1 vl s6)
          have ncl: "new_child s (LeftChild cur) vl" using 1(5) new_child_stable [OF s2] by simp
          have "fresh s1 (SetLeftChild vl (SetRightChild vr t)) s6"
            using f1 1(4) stable_next [OF stable_trans [OF t(1) stable_trans [OF l(1) r(1)]]] stable_next [OF 1(2)]
            by (rule fresh_SetLeftChild)
          then have "fresh s (SetLeftChild vl (SetRightChild vr t)) s6"
            using stable_next [OF s1] by (rule fresh_later) simp
          moreover have "new_children s cur (SetLeftChild vl (SetRightChild vr t))"
            using ncl ncr t(2) same_content_copy [OF t(3) cur] by (simp add: new_children_def)
          ultimately show ?case
            using t(2) stable_trans [OF s2 1(1)] by (simp add: result_of_def variant_def)
        qed
      qed
    qed
  qed
qed

lemma ok_strategy_replace:
  assumes I: "minv fd s" and cur: "cur \<noteq> NullIR"
  shows "ok (strategy_replace cur) s (result_of fd cur s)"
  unfolding strategy_replace_def ok_bnd ok_require
proof (rule conjI [OF cur], rule ok_mono [OF ok_get_rand_int_stable [OF I]], simp, goal_cases)
  case (1 k s1)
  then have s1: "stable fd s s1" by simp
  have nul: "ok (return NullIR) s1 (result_of fd cur s)" using s1 by (simp add: ok_return result_of_Null)
  show ?case
    using nul ok_replace_left [OF s1 cur] ok_replace_right [OF s1 cur] ok_replace_both [OF s1 cur]
    by (auto simp: m_simps)
qed

definition fresh_variants ::
  "(64 word \<Rightarrow> string) \<Rightarrow> IR \<Rightarrow> 'z mutator_scheme \<Rightarrow> IR list \<Rightarrow> 'z mutator_scheme \<Rightarrow> bool" where
  "fresh_variants fd cur s vs s' \<longleftrightarrow> stable fd s s' \<and> (\<forall>v\<in>set vs. variant s cur v \<and> fresh s v s')"

lemma variant_stable: "stable fd s s' \<Longrightarrow> variant s' = variant s"
  by (simp add: variant_def new_head_def new_children_def new_child_stable stable_from_lib fun_eq_iff)

lemma ok_push_unless_null:
  assumes "fresh_variants fd cur s vs s1" and "ok m s1 (result_of fd cur s1)"
  shows "ok (push_unless_null m vs) s1 (fresh_variants fd cur s)"
  unfolding push_unless_null_def ok_bnd ok_return
proof (rule ok_mono [OF assms(2)], goal_cases)
  case (1 v s2)
  have s1: "stable fd s s1" using assms(1) by (simp add: fresh_variants_def)
  have s2: "stable fd s1 s2" using 1 by (simp add: result_of_def)
  have "fresh s u s2" if "u \<in> set vs" for u
    using assms(1) that stable_next [OF s2] by (auto simp: fresh_variants_def intro: fresh_later)
  moreover have "v \<noteq> NullIR \<Longrightarrow> variant s cur v \<and> fresh s v s2"
    using 1 stable_next [OF s1] variant_stable [OF s1] by (auto simp: result_of_def intro: fresh_later)
  ultimately show ?case
    using assms(1) stable_trans [OF s1 s2] by (auto simp: fresh_variants_def)
qed

lemma ok_MutateIR:
  assumes I: "minv fd s" and cur: "cur \<noteq> NullIR"
  shows "ok (MutateIR cur) s (fresh_variants fd cur s)"
  unfolding MutateIR_def ok_bnd
proof (rule ok_mono [OF ok_foldM [where I = "fresh_variants fd cur s"]], goal_cases)
  case 1
  show ?case using I by (simp add: fresh_variants_def stable_refl)
next
  case (2 k vs s1)
  then have "minv fd s1" by (auto simp: fresh_variants_def dest: stable_minv)
  with 2 show ?case
    by (intro ok_push_unless_null ok_strategy_replace_with_constraint) (simp_all add: cur)
next
  case (3 vs s1)
  then have "minv fd s1" by (auto simp: fresh_variants_def dest: stable_minv)
  with 3 show ?case
    by (intro ok_push_unless_null ok_strategy_replace) (simp_all add: cur)
qed

section \<open>The skeleton of a program\<close>

definition leaf_ok :: "IRInfo \<Rightarrow> bool" where
  "leaf_ok i =
     (case ir_data i of
        Monostate \<Rightarrow> True
      | StringData str \<Rightarrow> ir_data_type i \<noteq> kDataDefault \<or> str = [CHR 39, CHR ''x'', CHR 39] \<or>
          (str = ''FIXME'' \<and> ir_type i = GetUnknownType)
      | IntData n \<Rightarrow> n = 1
      | FloatData f \<Rightarrow> f = double_1_1)"

fun skeleton :: "IR \<Rightarrow> bool" where
  "skeleton NullIR = True"
| "skeleton (Node a i l r) =
     ((l = NullIR \<and> r = NullIR \<longrightarrow> leaf_ok i) \<and>
      (l \<noteq> NullIR \<longrightarrow> ir_data_type (ir_info l) \<noteq> kFixUnit) \<and>
      (r \<noteq> NullIR \<longrightarrow> ir_data_type (ir_info r) \<noteq> kFixUnit) \<and> skeleton l \<and> skeleton r)"

text \<open>
  The skeleton of a given tree: a child that is a fix unit has become a new \<open>FIXME\<close> leaf, every
  other node is in its place with its members, only the data of a leaf is a placeholder: \<open>'x'\<close> for
  a string without a semantic role, \<open>1\<close> for an integer, \<open>1.1\<close> for a floating-point number.
\<close>

definition fixme_leaf :: "IR \<Rightarrow> bool" where
  "fixme_leaf t \<longleftrightarrow> t \<noteq> NullIR \<and> LeftChild t = NullIR \<and> RightChild t = NullIR \<and>
     ir_type (ir_info t) = GetUnknownType \<and> ir_op (ir_info t) = None \<and>
     ir_scope_type (ir_info t) = kScopeDefault \<and> ir_data_type (ir_info t) = kDataDefault \<and>
     ir_data (ir_info t) = StringData ''FIXME''"

definition placeholder :: "IRInfo \<Rightarrow> IRInfo \<Rightarrow> bool" where
  "placeholder i j \<longleftrightarrow> j\<lparr>ir_data := Monostate\<rparr> = i\<lparr>ir_data := Monostate\<rparr> \<and>
     (case ir_data i of
        Monostate \<Rightarrow> ir_data j = Monostate
      | StringData str \<Rightarrow> ir_data j = StringData (if ir_data_type i = kDataDefault then [CHR 39, CHR ''x'', CHR 39] else str)
      | IntData _ \<Rightarrow> ir_data j = IntData 1
      | FloatData _ \<Rightarrow> ir_data j = FloatData double_1_1)"

fun skeleton_of :: "IR \<Rightarrow> IR \<Rightarrow> bool" where
  "skeleton_of NullIR t' = (t' = NullIR)"
| "skeleton_of (Node a i l r) t' =
     (case t' of NullIR \<Rightarrow> False
      | Node b j l' r' \<Rightarrow> b = a \<and> (if l = NullIR \<and> r = NullIR then placeholder i j else j = i) \<and>
          (if l \<noteq> NullIR \<and> ir_data_type (ir_info l) = kFixUnit then fixme_leaf l' else skeleton_of l l') \<and>
          (if r \<noteq> NullIR \<and> ir_data_type (ir_info r) = kFixUnit then fixme_leaf r' else skeleton_of r r'))"

text \<open>Only allocation: the object allocator and the id counter advance.\<close>

definition alloc_only :: "'z runtime_scheme \<Rightarrow> 'z runtime_scheme \<Rightarrow> bool" where
  "alloc_only s s' \<longleftrightarrow>
     s'\<lparr>rt_next := 0, rt_id_counter := 0\<rparr> = s\<lparr>rt_next := 0, rt_id_counter := 0\<rparr> \<and> rt_next s \<le> rt_next s'"

lemma alloc_only_refl [simp]: "alloc_only s s"
  by (simp add: alloc_only_def)

lemma alloc_only_trans [trans]: "alloc_only s s' \<Longrightarrow> alloc_only s' s'' \<Longrightarrow> alloc_only s s''"
  by (auto simp: alloc_only_def)

lemma extract_leaf_ok [simp]: "leaf_ok (extract_leaf i)"
  by (cases "ir_data i") (auto simp: leaf_ok_def extract_leaf_def ContainString_def)

lemma placeholder_extract_leaf [simp]: "placeholder i (extract_leaf i)"
  by (cases "ir_data i") (auto simp: placeholder_def extract_leaf_def ContainString_def)

lemma extract_leaf_data_type [simp]: "ir_data_type (extract_leaf i) = ir_data_type i"
  by (cases "ir_data i") (auto simp: extract_leaf_def)

lemma extract_leaf_type [simp]: "ir_type (extract_leaf i) = ir_type i"
  by (cases "ir_data i") (auto simp: extract_leaf_def)

lemma ok_ExtractStructure:
  "t \<noteq> NullIR \<Longrightarrow> ok (ExtractStructure t) s (\<lambda>t' s'. alloc_only s s' \<and> t' \<noteq> NullIR \<and>
     ir_addr t' = ir_addr t \<and> skeleton t' \<and> ir_type (ir_info t') = ir_type (ir_info t) \<and>
     ir_data_type (ir_info t') = ir_data_type (ir_info t) \<and> skeleton_of t t' \<and>
     set (addrs t') \<subseteq> set (addrs t) \<union> {rt_next s ..< rt_next s'})"
proof (induction t arbitrary: s)
  case NullIR
  then show ?case by simp
next
  case (Node a i l r)
  let ?slot = "\<lambda>c. if c \<noteq> NullIR then
      (if ir_data_type (ir_info c) = kFixUnit then new_data_IR GetUnknownType (StringData ''FIXME'')
       else ExtractStructure c) else return NullIR"
  let ?good = "\<lambda>c s c' (s' :: 'a runtime_scheme). alloc_only s s' \<and> (c' = NullIR \<longleftrightarrow> c = NullIR) \<and> skeleton c' \<and>
      (c' \<noteq> NullIR \<longrightarrow> ir_data_type (ir_info c') \<noteq> kFixUnit) \<and>
      (if c \<noteq> NullIR \<and> ir_data_type (ir_info c) = kFixUnit then fixme_leaf c' else skeleton_of c c') \<and>
      set (addrs c') \<subseteq> set (addrs c) \<union> {rt_next s ..< rt_next s'}"
  have slot: "ok (?slot c) s (?good c s)"
    if "\<And>s :: 'a runtime_scheme. c \<noteq> NullIR \<Longrightarrow> ok (ExtractStructure c) s (\<lambda>t' s'. alloc_only s s' \<and> t' \<noteq> NullIR \<and>
     ir_addr t' = ir_addr c \<and> skeleton t' \<and> ir_type (ir_info t') = ir_type (ir_info c) \<and>
     ir_data_type (ir_info t') = ir_data_type (ir_info c) \<and> skeleton_of c t' \<and>
     set (addrs t') \<subseteq> set (addrs c) \<union> {rt_next s ..< rt_next s'})" for c s
  proof -
    consider "c = NullIR" | "c \<noteq> NullIR" "ir_data_type (ir_info c) = kFixUnit"
      | "c \<noteq> NullIR" "ir_data_type (ir_info c) \<noteq> kFixUnit" by blast
    then show ?thesis
    proof cases
      case 1
      then show ?thesis by (simp add: ok_return)
    next
      case 2
      then show ?thesis
        by (simp add: ok_def new_data_IR_apply alloc_only_def leaf_ok_def fixme_leaf_def)
    next
      case 3
      then show ?thesis using ok_mono [OF that [of s]] by simp
    qed
  qed
  show ?case
    unfolding ExtractStructure.simps ok_bnd
  proof (rule ok_mono [OF slot [OF Node.IH(1)]], assumption, rule ok_mono [OF slot [OF Node.IH(2)]],
      assumption, goal_cases)
    case (1 l' s1 r' s2)
    have "rt_next s \<le> rt_next s1" "rt_next s1 \<le> rt_next s2" using 1 by (simp_all add: alloc_only_def)
    then have "set (addrs l') \<union> set (addrs r') \<subseteq> set (addrs l) \<union> set (addrs r) \<union> {rt_next s ..< rt_next s2}"
      using 1 by fastforce
    then show ?case using 1 alloc_only_trans [of s s1 s2] by (auto simp: ok_return)
  qed
qed

lemma alloc_only_stable:
  assumes "alloc_only s s'" and "minv fd s"
  shows "stable fd s s'"
proof -
  have "lib_irs s' = lib_irs s \<and> lib_hash s' = lib_hash s \<and> lib_empty_ir s' = lib_empty_ir s \<and>
      mut_not_mutatable_types s' = mut_not_mutatable_types s \<and>
      mut_convertable_map s' = mut_convertable_map s"
    using assms(1) by (cases s; cases s') (simp add: alloc_only_def)
  moreover have "rt_next s \<le> rt_next s'" using assms(1) by (simp add: alloc_only_def)
  ultimately show ?thesis using assms(2) by (simp add: stable_def minv_def lib_inv_def)
qed

section \<open>Building the variants\<close>

definition mutant_of :: "IR \<Rightarrow> 'z mutator_scheme \<Rightarrow> IR \<Rightarrow> bool" where
  "mutant_of root s t \<longleftrightarrow>
     (\<exists>ir v. ir \<in> set (subtrees root) \<and> ir_addr ir \<noteq> ir_addr root \<and> should_mutate ir s \<and>
        variant s ir v \<and> is_copy (subst_at (ir_addr ir) v root) t)"

definition mutants_so_far ::
  "(64 word \<Rightarrow> string) \<Rightarrow> IR \<Rightarrow> 'z mutator_scheme \<Rightarrow> IR list \<times> 64 word set \<Rightarrow> 'z mutator_scheme \<Rightarrow> bool" where
  "mutants_so_far fd root s acc s' \<longleftrightarrow>
     stable fd s s' \<and> (\<forall>t\<in>set (fst acc). mutant_of root s t \<and> fresh s t s')"

lemma same_but_copy_stable:
  assumes "same_but_copy s s'" and "rt_next s \<le> rt_next s'" and "minv fd s"
  shows "stable fd s s'"
  using assms same_but_copy_members [OF assms(1)] by (simp add: stable_def minv_def lib_inv_def)

lemma should_mutate_stable: "stable fd s s' \<Longrightarrow> should_mutate ir s' = should_mutate ir s"
  by (simp add: should_mutate_def stable_def)

text \<open>What one call of \<open>add_variant\<close> does: it builds a copy \<open>t\<close> of the program with \<open>i\<close> in the
  place of \<open>ir\<close> and keeps it unless the truncated hash \<open>h\<close> is known.\<close>

lemma ok_build_variant:
  assumes un: "unshared root" and rt: "root \<noteq> NullIR"
    and ir: "ir \<in> set (subtrees root)" "ir_addr ir \<noteq> ir_addr root" and s1: "stable fd s s1"
  shows "ok (add_variant fd root ir i (res, hs)) s1 (\<lambda>acc s4. stable fd s1 s4 \<and>
     (\<exists>t (h :: 32 word). is_copy (subst_at (ir_addr ir) i root) t \<and> fresh s t s4 \<and>
        acc = (if ucast h \<in> hs then (res, hs) else (res @ [t], insert (ucast h) hs))))"
proof -
  have irn: "ir \<noteq> NullIR" using ir(1) subtrees_not_Null by auto
  show ?thesis
    unfolding add_variant_def prod.case ok_bnd ok_gets
  proof (rule ok_mono [OF ok_deep_copy_with_record [OF irn rt un]], goal_cases)
    case (1 t s2)
    have in_t: "ir_addr ir \<in> set (addrs root)" using ir(1) by (rule subtree_addr)
    note R = 1 [unfolded recorded_def if_P [OF in_t]]
    have "ir_addr t \<noteq> ir_addr (mut_record s2)" using R ir(2) by auto
    then have rep: "replace t (mut_record s2) i = Inr (subst_at (ir_addr (mut_record s2)) i t)"
      using R by (intro replace_recorded) auto
    let ?t = "subst_at (ir_addr (mut_record s2)) i t"
    have er: "erase ?t = erase (subst_at (ir_addr ir) i root)" using R by blast
    have "subst_at (ir_addr ir) i root \<noteq> NullIR" using rt ir(2) by (cases root) auto
    then have tn: "?t \<noteq> NullIR" using er by (metis erase_Null)
    have s2: "stable fd s1 s2"
      using R by (intro same_but_copy_stable [OF _ _ stable_minv [OF s1]]) auto
    show ?case
      unfolding rep lift_result_def sum.case ok_return
    proof (rule ok_mono [OF ok_deep_copy_stable [OF stable_minv [OF s2] tn]], goal_cases)
      case (1 backup s3)
      then have b: "stable fd s2 s3" "is_copy ?t backup" "fresh s2 backup s3" by auto
      have s3: "stable fd s1 s3" by (rule stable_trans [OF s2 b(1)])
      show ?case
      proof (rule ok_mono [OF ok_ExtractStructure [OF tn]], goal_cases)
        case (1 t' s4)
        then have s4: "stable fd s3 s4" using alloc_only_stable [OF _ stable_minv [OF s3]] by blast
        have "fresh s backup s4"
          using b(3) stable_next [OF stable_trans [OF s1 s2]] stable_next [OF s4] by (rule fresh_later)
        then show ?case
          using b(2) is_copy_erase [OF er] stable_trans [OF s3 s4]
          by (auto simp: ok_return Let_def intro!: exI [of _ backup] exI [of _ "ucast (ir_hash fd t')"])
      qed
    qed
  qed
qed

lemma ok_add_variant:
  assumes un: "unshared root" and rt: "root \<noteq> NullIR"
    and ir: "ir \<in> set (subtrees root)" "ir_addr ir \<noteq> ir_addr root" "should_mutate ir s"
    and v: "variant s ir i" and acc: "mutants_so_far fd root s acc s1"
  shows "ok (add_variant fd root ir i acc) s1 (mutants_so_far fd root s)"
proof -
  obtain res hs where a [simp]: "acc = (res, hs)" by (cases acc)
  have s1: "stable fd s s1" using acc by (simp add: mutants_so_far_def)
  show ?thesis
    unfolding a
  proof (rule ok_mono [OF ok_build_variant [OF un rt ir(1,2) s1]], elim conjE exE, goal_cases)
    case (1 acc' s4 t h)
    have "mutant_of root s t" unfolding mutant_of_def using ir v 1(2) by blast
    moreover have "fresh s u s4" if "u \<in> set res" for u
      using acc that stable_next [OF 1(1)] by (auto simp: mutants_so_far_def intro: fresh_later)
    ultimately show ?case
      using acc 1 stable_trans [OF s1 1(1)] by (auto simp: mutants_so_far_def)
  qed
qed

text \<open>Variants that are kept stay in front of the later ones.\<close>

definition extends :: "IR list \<times> 64 word set \<Rightarrow> IR list \<times> 64 word set \<Rightarrow> 's \<Rightarrow> bool" where
  "extends acc acc' s \<longleftrightarrow> (\<exists>more. fst acc' = fst acc @ more)"

lemma extends_refl [simp]: "extends acc acc s"
  by (simp add: extends_def)

lemma extends_trans: "extends acc acc' s \<Longrightarrow> extends acc' acc'' s' \<Longrightarrow> extends acc acc'' s'"
  by (auto simp: extends_def)

lemma post_add_variant_extends: "post (add_variant fd root ir i acc) s (extends acc)"
  by (cases acc)
    (auto simp: post_def add_variant_def bnd_eq_Inr_iff m_eval Let_def extends_def split: sum.splits if_splits)

lemma post_foldM_extends:
  assumes "\<And>x acc s. post (f x acc) s (extends acc)"
  shows "post (foldM f xs acc) s (extends acc)"
proof (induction xs arbitrary: acc s)
  case Nil
  show ?case by (simp add: post_return)
next
  case (Cons x xs)
  show ?case
    unfolding foldM.simps post_bnd
    by (rule post_mono [OF assms], rule post_mono [OF Cons.IH], erule (1) extends_trans)
qed

lemma post_mutate_one_extends: "post (mutate_one fd root ir acc) s (extends acc)"
  by (auto simp: mutate_one_def m_simps
      intro: post_mono [OF post_True] post_foldM_extends [OF post_add_variant_extends])

lemma truncated_below: "unat (ucast (h :: 32 word) :: 64 word) < 2 ^ 32"
proof -
  have "unat (ucast h :: 64 word) = take_bit 64 (unat h)" by (simp add: unsigned_ucast_eq)
  also have "\<dots> \<le> unat h" by simp
  also have "unat h < 2 ^ LENGTH(32)" by (rule unsigned_less)
  finally show ?thesis by simp
qed

lemma foldM_not_mutated:
  "\<forall>u\<in>set irs. \<not> should_mutate u s \<Longrightarrow> foldM (mutate_one fd root) irs acc s = Inr (acc, s)"
  by (induction irs) (simp_all add: mutate_one_def bnd_def m_eval)

lemma mutants_so_far_later:
  assumes "mutants_so_far fd root s acc s1" and "stable fd s1 s2"
  shows "mutants_so_far fd root s acc s2"
  using assms stable_next [OF assms(2)] stable_trans [of fd s s1 s2]
  by (auto simp: mutants_so_far_def intro: fresh_later)

lemma ok_mutate_one:
  assumes un: "unshared root" and rt: "root \<noteq> NullIR" and ir: "ir \<in> set (subtrees root)"
    and acc: "mutants_so_far fd root s acc s1"
  shows "ok (mutate_one fd root ir acc) s1 (mutants_so_far fd root s)"
proof (cases "ptr_eq ir root \<or> \<not> should_mutate ir s1")
  case True
  then show ?thesis using acc by (simp add: mutate_one_def m_simps)
next
  case False
  have irn: "ir \<noteq> NullIR" using ir subtrees_not_Null by auto
  have s1: "stable fd s s1" using acc by (simp add: mutants_so_far_def)
  have cond: "ir_addr ir \<noteq> ir_addr root" "should_mutate ir s"
    using False irn rt should_mutate_stable [OF s1] by (auto simp: ptr_eq_addr)
  show ?thesis
    unfolding mutate_one_def bnd_gets_ok if_not_P [OF False]
  proof (subst ok_bnd, rule ok_mono [OF ok_MutateIR [OF stable_minv [OF s1] irn]], goal_cases)
    case (1 vs s2)
    then have vs: "\<forall>v\<in>set vs. variant s ir v" and s2: "stable fd s1 s2"
      using variant_stable [OF s1] by (auto simp: fresh_variants_def)
    show ?case
    proof (rule ok_foldM)
      show "mutants_so_far fd root s acc s2" by (rule mutants_so_far_later [OF acc s2])
    next
      fix v acc' s3
      assume "v \<in> set vs" "mutants_so_far fd root s acc' s3"
      then show "ok (add_variant fd root ir v acc') s3 (mutants_so_far fd root s)"
        using vs by (intro ok_add_variant [OF un rt ir cond]) auto
    qed
  qed
qed

lemma ok_MutateIRs:
  assumes "minv fd s" and rt: "root \<noteq> NullIR" and un: "unshared root"
  shows "ok (MutateIRs fd (CollectAllIRs root)) s (\<lambda>res s'. stable fd s s' \<and>
     (\<forall>t\<in>set res. mutant_of root s t \<and> fresh s t s'))"
proof -
  have l: "CollectAllIRs root \<noteq> []" "last (CollectAllIRs root) = root" by (simp_all add: CollectAllIRs_def)
  have "ok (foldM (mutate_one fd root) (CollectAllIRs root) ([], {ir_hash fd root})) s (mutants_so_far fd root s)"
  proof (rule ok_foldM)
    show "mutants_so_far fd root s ([], {ir_hash fd root}) s"
      using assms(1) by (simp add: mutants_so_far_def stable_refl)
  next
    fix ir acc s1
    assume "ir \<in> set (CollectAllIRs root)" "mutants_so_far fd root s acc s1"
    then show "ok (mutate_one fd root ir acc) s1 (mutants_so_far fd root s)"
      by (intro ok_mutate_one [OF un rt]) (simp_all add: set_CollectAllIRs [OF rt])
  qed
  then show ?thesis
    unfolding MutateIRs_def Let_def l(2) ok_bnd ok_require
    by (intro conjI l rt) (erule ok_mono, auto simp: mutants_so_far_def ok_return split: prod.splits)
qed

section \<open>What a mutant keeps\<close>

lemma variant_type:
  assumes "minv fd s" and "should_mutate cur s" and "variant s cur v"
  shows "ir_type (ir_info v) = ir_type (ir_info cur)"
proof -
  have nl: "\<not> is_leaf cur" using assms(2) by (auto simp: should_mutate_def split: if_splits)
  consider (head) "new_head s cur v" | (children) "new_children s cur v"
    using assms(3) by (auto simp: variant_def)
  then show ?thesis
  proof cases
    case head
    then obtain res where res: "from_lib s (ir_type (ir_info cur)) res" "same_content (ir_info res) (ir_info v)"
      "LeftChild cur = NullIR \<longleftrightarrow> LeftChild res = NullIR" "RightChild cur = NullIR \<longleftrightarrow> RightChild res = NullIR"
      by (auto simp: new_head_def)
    then have "\<not> is_leaf res" using nl by (simp add: is_leaf_def)
    then have "\<not> empty_ir_like res" by (auto simp: empty_ir_like_def)
    then show ?thesis using from_lib_type [OF assms(1) res(1)] res(2) by (simp add: same_content_def)
  next
    case children
    then show ?thesis by (simp add: new_children_def same_content_def)
  qed
qed

text \<open>The nodes of one semantic role; the roles a mutation must not remove.\<close>

fun definitions :: "DataType \<Rightarrow> IR \<Rightarrow> nat" where
  "definitions dt NullIR = 0"
| "definitions dt (Node a i l r) = (if ir_data_type i = dt then 1 else 0) + definitions dt l + definitions dt r"

abbreviation definition_roles :: "DataType set" where
  "definition_roles \<equiv> {kVariableDefinition, kVariableType, kClassDefinition}"

lemma can_be_mutated_definitions: "can_be_mutated t \<longleftrightarrow> (\<forall>dt\<in>definition_roles. definitions dt t = 0)"
  by (induction t) auto

lemma definitions_copy: "is_copy t t' \<Longrightarrow> definitions dt t' = definitions dt t"
  by (induction t t' rule: is_copy.induct) (auto simp: same_content_def split: IR.splits)

lemma definitions_subst:
  assumes "unshared root" and "u \<in> set (subtrees root)"
  shows "definitions dt root \<le> definitions dt (subst_at (ir_addr u) v root) + definitions dt u"
  using assms
proof (induction root)
  case NullIR
  then show ?case by simp
next
  case (Node a i l r)
  have sh: "a \<notin> set (addrs l)" "a \<notin> set (addrs r)" "unshared l" "unshared r"
    "set (addrs l) \<inter> set (addrs r) = {}"
    using Node.prems by (simp_all add: unshared_Node)
  consider (top) "u = Node a i l r" | (left) "u \<in> set (subtrees l)" | (right) "u \<in> set (subtrees r)"
    using Node.prems(2) by auto
  then show ?case
  proof cases
    case top
    then show ?thesis by simp
  next
    case left
    then have "ir_addr u \<in> set (addrs l)" by (rule subtree_addr)
    then have "ir_addr u \<noteq> a" "ir_addr u \<notin> set (addrs r)" using sh by auto
    then show ?thesis using Node.IH(1) [OF sh(3) left] by (simp add: subst_at_notin)
  next
    case right
    then have "ir_addr u \<in> set (addrs r)" by (rule subtree_addr)
    then have "ir_addr u \<noteq> a" "ir_addr u \<notin> set (addrs l)" using sh by auto
    then show ?thesis using Node.IH(2) [OF sh(4) right] by (simp add: subst_at_notin)
  qed
qed

lemma mutant_definitions:
  assumes "unshared root" and "mutant_of root s t" and "dt \<in> definition_roles"
  shows "definitions dt root \<le> definitions dt t"
proof -
  obtain ir v where ir: "ir \<in> set (subtrees root)" "should_mutate ir s"
    "is_copy (subst_at (ir_addr ir) v root) t"
    using assms(2) by (auto simp: mutant_of_def)
  have "definitions dt ir = 0"
    using ir(2) assms(3) by (auto simp add: should_mutate_def can_be_mutated_definitions split: if_splits)
  then show ?thesis using definitions_subst [OF assms(1) ir(1), of dt v] definitions_copy [OF ir(3)] by simp
qed

section \<open>Properties\<close>

text \<open>C1: \<open>MutateIRs\<close> on the nodes of an unshared program never fails, whatever the random
  numbers are (in particular the parent of the replaced node is always found). Every variant it
  returns is a fresh unshared copy of the program in which exactly one node that may be mutated
  and is not the root is replaced, by a tree of the same type that keeps either the node's
  children under a library node's head or its head over at least one library child.\<close>

theorem MutateIRs_variants:
  assumes "minv fd s" and "root \<noteq> NullIR" and "unshared root"
  shows "ok (MutateIRs fd (CollectAllIRs root)) s (\<lambda>res s'. minv fd s' \<and> lib_irs s' = lib_irs s \<and>
     (\<forall>t\<in>set res. unshared t \<and> set (addrs t) \<subseteq> {rt_next s ..< rt_next s'} \<and>
        (\<exists>ir v. ir \<in> set (CollectAllIRs root) \<and> ir_addr ir \<noteq> ir_addr root \<and> should_mutate ir s \<and>
           variant s ir v \<and> ir_type (ir_info v) = ir_type (ir_info ir) \<and>
           is_copy (subst_at (ir_addr ir) v root) t)))"
proof (rule ok_mono [OF ok_MutateIRs [OF assms]], elim conjE, intro conjI ballI, goal_cases)
  case (5 res s' t)
  then obtain ir v where "ir \<in> set (subtrees root)" "ir_addr ir \<noteq> ir_addr root" "should_mutate ir s"
    "variant s ir v" "is_copy (subst_at (ir_addr ir) v root) t"
    by (auto simp: mutant_of_def)
  then show ?case using set_CollectAllIRs [OF assms(2)] variant_type [OF assms(1)] by metis
qed (auto simp: stable_def fresh_def)

text \<open>C7: Mutation never removes a definition: a variant has at least as many variable
  definitions, at least as many variable types and at least as many class definitions as the program
  it comes from, each role counted on its own.\<close>

theorem MutateIRs_keeps_definitions:
  assumes "minv fd s" and "root \<noteq> NullIR" and "unshared root"
  shows "ok (MutateIRs fd (CollectAllIRs root)) s (\<lambda>res _. \<forall>t\<in>set res.
           definitions kVariableDefinition root \<le> definitions kVariableDefinition t \<and>
           definitions kVariableType root \<le> definitions kVariableType t \<and>
           definitions kClassDefinition root \<le> definitions kClassDefinition t)"
  by (rule ok_mono [OF ok_MutateIRs [OF assms]]) (use mutant_definitions [OF assms(3)] in blast)

text \<open>C9: \<open>ExtractStructure\<close> succeeds on every tree and returns the tree's skeleton: each
  outermost fix unit below the root is replaced by a newly allocated \<open>FIXME\<close> leaf, every other node is
  kept in its place with its members, only the data of a leaf becomes the placeholder of its kind
  (\<open>'x'\<close> for a string without a semantic role, \<open>1\<close>, \<open>1.1\<close>). So no node below the root is a fix
  unit any more, and every leaf that prints is a placeholder, a \<open>FIXME\<close> or a string with a role.\<close>

theorem ExtractStructure_skeleton:
  assumes "t \<noteq> NullIR"
  shows "ok (ExtractStructure t) s (\<lambda>t' s'. skeleton_of t t' \<and> skeleton t' \<and> ir_addr t' = ir_addr t \<and>
     ir_type (ir_info t') = ir_type (ir_info t) \<and>
     set (addrs t') \<subseteq> set (addrs t) \<union> {rt_next s ..< rt_next s'})"
  by (rule ok_mono [OF ok_ExtractStructure [OF assms]]) simp

text \<open>Adding a program to the mutator's library succeeds and keeps the library's invariant.\<close>

theorem AddIRToLibrary_inv:
  assumes "minv fd s" and "t \<noteq> NullIR"
  shows "ok (AddIRToLibrary fd t) s (\<lambda>_ s'. lib_inv fd s')"
  unfolding AddIRToLibrary_def ok_bnd
proof (rule ok_mono [OF ok_ExtractStructure [OF assms(2)]], goal_cases)
  case (1 t' s')
  then have "lib_inv fd s'" using alloc_only_stable [OF _ assms(1)] by (auto simp: stable_def minv_def)
  from lib.save_ok [OF this, of t'] show ?case using 1 by (auto elim: ok_mono)
qed

text \<open>C27: The filter for repeated texts compares hashes of different widths. When the hash of the
  program does not fit in 32 bits, \<open>MutateIRs\<close> returns, as its first program, the one made from the
  first variant of the first node that may be mutated, whatever its text is, even the program's own.\<close>

theorem MutateIRs_root_not_filtered:
  assumes "minv fd s" and "root \<noteq> NullIR" and "unshared root"
    and "CollectAllIRs root = before @ ir # after" and "\<forall>u\<in>set before. \<not> should_mutate u s"
    and "should_mutate ir s" and "ir_addr ir \<noteq> ir_addr root"
    and "MutateIR ir s = Inr (v # vs, s1)" and "2 ^ 32 \<le> unat (ir_hash fd root)"
  shows "ok (MutateIRs fd (CollectAllIRs root)) s (\<lambda>res _.
           res \<noteq> [] \<and> is_copy (subst_at (ir_addr ir) v root) (hd res))"
proof -
  have ir: "ir \<in> set (subtrees root)" using assms(4) set_CollectAllIRs [OF assms(2)] by (metis in_set_conv_decomp)
  then have irn: "ir \<noteq> NullIR" using subtrees_not_Null by auto
  have s1: "stable fd s s1" using ok_MutateIR [OF assms(1) irn] assms(8) by (simp add: ok_def fresh_variants_def)
  let ?h = "ir_hash fd root"
  have last_root: "last (CollectAllIRs root) = root" by (simp add: CollectAllIRs_def)
  have ne: "(ucast (h :: 32 word) :: 64 word) \<noteq> ?h" for h using assms(9) truncated_below [of h] by auto
  obtain t h s2 where t: "is_copy (subst_at (ir_addr ir) v root) t"
    "add_variant fd root ir v ([], {?h}) s1 = Inr (([t], {ucast (h :: 32 word), ?h}), s2)"
    using ok_build_variant [OF assms(3,2) ir assms(7) s1, of v "[]" "{?h}"] ne by (auto simp: ok_Inr_iff)
  have first: "post (mutate_one fd root ir ([], {?h})) s (\<lambda>acc _. \<exists>more. fst acc = t # more)"
  proof -
    have "post (foldM (add_variant fd root ir) (v # vs) ([], {?h})) s1 (\<lambda>acc _. \<exists>more. fst acc = t # more)"
      unfolding foldM.simps post_bnd
      by (simp add: post_def [of _ s1] t(2))
        (rule post_mono [OF post_foldM_extends [OF post_add_variant_extends]], auto simp: extends_def)
    then show ?thesis using assms(6,7,8) irn assms(2)
      by (simp add: mutate_one_def m_simps ptr_eq_addr post_def [of "MutateIR ir"])
  qed
  have "post (foldM (mutate_one fd root) (before @ ir # after) ([], {?h})) s (\<lambda>acc _. \<exists>more. fst acc = t # more)"
    unfolding foldM_append foldM.simps post_bnd
    by (simp add: post_def [of "foldM _ before _"] foldM_not_mutated [OF assms(5)] post_bnd)
      (rule post_mono [OF first], rule post_mono [OF post_foldM_extends [OF post_mutate_one_extends]], auto simp: extends_def)
  then have "post (foldM (mutate_one fd root) (CollectAllIRs root) ([], {?h})) s (\<lambda>acc _. \<exists>more. fst acc = t # more)"
    by (simp only: assms(4))
  moreover obtain res s' where "MutateIRs fd (CollectAllIRs root) s = Inr (res, s')"
    using ok_MutateIRs [OF assms(1-3)] by (auto simp: ok_Inr_iff)
  ultimately show ?thesis
    using t(1) by (auto simp: ok_Inr_iff MutateIRs_def bnd_eq_Inr_iff m_eval Let_def last_root post_def)
qed

section \<open>Witnesses\<close>

definition demo_mutator :: mutator where
  "demo_mutator = ir_library.extend (ir_library.truncate demo_library)
     \<lparr>mut_record = NullIR, mut_not_mutatable_types = {}, mut_convertable_map = []\<rparr>"

definition demo_root :: IR where
  "demo_root =
     (let op = Some \<lparr>op_prefix = [], op_middle = ''+'', op_suffix = []\<rparr>;
          inner = demo_info\<lparr>ir_type := 3, ir_op := op, ir_data := Monostate\<rparr>
      in Node 2 (inner\<lparr>ir_type := 1, ir_op := Some empty_op\<rparr>)
           (Node 1 inner (Node 0 demo_info NullIR NullIR) (Node 3 demo_info NullIR NullIR)) NullIR)"

lemma minv_demo: "minv fd demo_mutator"
  by (simp add: minv_def lib_inv_def shelf_ok_def empty_ok_def demo_mutator_def demo_library_def
      runtime.defs ir_library.defs)

lemma unshared_demo: "unshared demo_root"
  by (simp add: unshared_def demo_root_def Let_def)

lemma demo_root_not_Null: "demo_root \<noteq> NullIR"
  by (simp add: demo_root_def Let_def)

lemma MutateIRs_variants_witness:
  "ok (MutateIRs (\<lambda>_. []) (CollectAllIRs demo_root)) demo_mutator (\<lambda>res s'. \<forall>t\<in>set res. unshared t)"
  by (rule ok_mono [OF MutateIRs_variants [OF minv_demo demo_root_not_Null unshared_demo]]) simp

lemma MutateIRs_keeps_definitions_witness:
  "ok (MutateIRs (\<lambda>_. []) (CollectAllIRs demo_root)) demo_mutator
     (\<lambda>res s'. \<forall>t\<in>set res. definitions kVariableType demo_root \<le> definitions kVariableType t)"
  by (rule ok_mono [OF MutateIRs_keeps_definitions [OF minv_demo demo_root_not_Null unshared_demo]]) simp

lemma ExtractStructure_skeleton_witness:
  "ok (ExtractStructure demo_root) demo_mutator (\<lambda>t' _. skeleton_of demo_root t' \<and> skeleton t')"
  by (rule ok_mono [OF ExtractStructure_skeleton [OF demo_root_not_Null]]) simp

lemma AddIRToLibrary_inv_witness:
  "ok (AddIRToLibrary (\<lambda>_. []) demo_root) demo_mutator (\<lambda>_ s'. lib_inv (\<lambda>_. []) s')"
  by (rule AddIRToLibrary_inv [OF minv_demo demo_root_not_Null])

text \<open>A program \<open>- 'x'\<close>, and a library that holds its leaf: the only variant replaces the leaf by the
  same text.\<close>

definition quoted_info :: IRInfo where
  "quoted_info = demo_info\<lparr>ir_data := StringData [CHR 39, CHR ''x'', CHR 39]\<rparr>"

definition quoted_root :: IR where
  "quoted_root =
     (let inner = demo_info\<lparr>ir_type := 3, ir_data := Monostate,
            ir_op := Some \<lparr>op_prefix = ''-'', op_middle = [], op_suffix = []\<rparr>\<rparr>
      in Node 2 (inner\<lparr>ir_type := 1, ir_op := Some empty_op\<rparr>)
           (Node 1 inner (Node 0 quoted_info NullIR NullIR) NullIR) NullIR)"

definition quoted_mutator :: mutator where
  "quoted_mutator = demo_mutator\<lparr>rt_next := 20,
     lib_empty_ir := Node 19 (demo_info\<lparr>ir_type := 0x1234567, ir_data := StringData []\<rparr>) NullIR NullIR,
     lib_irs := (\<lambda>ty. if ty = 7 then [Node 9 quoted_info NullIR NullIR] else []),
     lib_hash := (\<lambda>ty. if ty = 7 then {ir_hash (\<lambda>_. []) (Node 9 quoted_info NullIR NullIR)} else {})\<rparr>"

lemma minv_quoted: "minv (\<lambda>_. []) quoted_mutator"
  by (simp add: minv_def lib_inv_def shelf_ok_def empty_ok_def quoted_mutator_def demo_mutator_def
      demo_library_def runtime.defs ir_library.defs quoted_info_def demo_info_def kMaxIRNumForOneType_def is_leaf_def)

lemma quoted_constraint:
  "strategy_replace_with_constraint (LeftChild quoted_root) quoted_mutator = Inr (NullIR, quoted_mutator)"
  by (simp add: strategy_replace_with_constraint_def quoted_root_def quoted_mutator_def demo_mutator_def
      demo_library_def runtime.defs ir_library.defs op_is_empty_def GetRandomIR_def demo_info_def Let_def
      bnd_def m_eval om_get_def)

definition quoted_variant :: IR where
  "quoted_variant =
     (let e = \<lambda>i. i\<lparr>ir_op := Some (copied_op (ir_op i))\<rparr>
      in Node 21 (e (ir_info (LeftChild quoted_root))) (Node 22 (e quoted_info) NullIR NullIR) NullIR)"

lemma quoted_replace:
  "\<exists>s'. strategy_replace (LeftChild quoted_root) quoted_mutator = Inr (quoted_variant, s')"
  by (simp add: strategy_replace_def quoted_root_def quoted_mutator_def quoted_variant_def demo_mutator_def demo_state_def
      demo_library_def runtime.defs ir_library.defs GetRandomIR_def quoted_info_def demo_info_def Let_def
      not_unknown_def GetUnknownType_def kUnknown_def get_rand_int_apply vector_rand_ele_def new_copy_IR_apply
      copied_op_def bnd_def m_eval)

lemma quoted_MutateIR: "\<exists>s'. MutateIR (LeftChild quoted_root) quoted_mutator = Inr ([quoted_variant], s')"
proof -
  obtain s' where "strategy_replace (LeftChild quoted_root) quoted_mutator = Inr (quoted_variant, s')"
    using quoted_replace by blast
  then show ?thesis
    by (simp add: MutateIR_def kConstraintReplaceTimes_def upt_rec push_unless_null_def quoted_constraint
        bnd_def m_eval quoted_variant_def Let_def)
qed

lemma quoted_texts:
  "ToString (\<lambda>_. []) quoted_root = ''- '' @ [CHR 39, CHR ''x'', CHR 39] @ '' ''"
  "visible (ir_text (\<lambda>_. []) (subst_at 1 quoted_variant quoted_root)) = visible (ir_text (\<lambda>_. []) quoted_root)"
  by code_simp+

lemma MutateIRs_root_not_filtered_witness:
  "ok (MutateIRs (\<lambda>_. []) (CollectAllIRs quoted_root)) quoted_mutator
     (\<lambda>res _. res \<noteq> [] \<and> visible (ToString (\<lambda>_. []) (hd res)) = visible (ToString (\<lambda>_. []) quoted_root))"
proof -
  obtain s1 where mut: "MutateIR (LeftChild quoted_root) quoted_mutator = Inr ([quoted_variant], s1)"
    using quoted_MutateIR by blast
  have all: "CollectAllIRs quoted_root = [Node 0 quoted_info NullIR NullIR] @
      LeftChild quoted_root # [quoted_root]"
    by (simp add: CollectAllIRs_def quoted_root_def Let_def)
  have big: "2 ^ 32 \<le> unat (ir_hash (\<lambda>_. []) quoted_root)"
    unfolding ir_hash_def quoted_texts(1)
    by (simp add: ducking_hash_def hash_seed_def hash_m_def hash_blocks.simps hash_tail_def hash_final_def
      xshift_def mix_block_def byte_def Let_def)
  have "ok (MutateIRs (\<lambda>_. []) (CollectAllIRs quoted_root)) quoted_mutator
     (\<lambda>res _. res \<noteq> [] \<and> is_copy (subst_at (ir_addr (LeftChild quoted_root)) quoted_variant quoted_root) (hd res))"
    by (rule MutateIRs_root_not_filtered [OF minv_quoted _ _ all _ _ _ mut big])
      (simp_all add: quoted_root_def quoted_info_def Let_def should_mutate_def demo_info_def GetUnknownType_def
        kUnknown_def is_leaf_def unshared_def quoted_mutator_def demo_mutator_def ir_library.defs)
  moreover have "ir_addr (LeftChild quoted_root) = 1" by (simp add: quoted_root_def Let_def)
  ultimately show ?thesis using is_copy_text quoted_texts(2) by (auto simp: visible_ToString elim!: ok_mono)
qed

end
