(* ===== verification/Configuration.thy ===== *)
theory Configuration
  imports Prelude
begin

text \<open>
  \<open>srcs/internal/srcs/configuration.cpp\<close>: the singleton configuration and how a YAML file is
  validated and read into it. The YAML library and the file system are the parameter
  \<open>y :: 'n yaml\<close>, with \<open>'n\<close> the library's node type; what the code relies on of it is
  named where a result needs it. The results: what a successful initialisation stores, that a
  rejected file changes nothing, and that a file which passes the validation can still abort the
  program.
\<close>

section \<open>The libraries\<close>

datatype 'n load_result = Loaded 'n | Bad_file | Other_exception

record 'n yaml =
  y_load_file :: "string \<Rightarrow> 'n load_result"
  y_sub :: "'n \<Rightarrow> string \<Rightarrow> error + 'n"
  y_defined :: "'n \<Rightarrow> bool"
  y_is_scalar :: "'n \<Rightarrow> bool"
  y_scalar :: "'n \<Rightarrow> string"
  y_is_sequence :: "'n \<Rightarrow> bool"
  y_elements :: "'n \<Rightarrow> 'n list"
  y_as_string :: "'n \<Rightarrow> error + string"
  y_as_bool :: "'n \<Rightarrow> error + bool"
  y_exists :: "string \<Rightarrow> bool"

section \<open>Validation\<close>

definition IsNodeBool :: "'n yaml \<Rightarrow> 'n \<Rightarrow> bool" where
  "IsNodeBool y node \<longleftrightarrow>
     y_is_scalar y node \<and> (y_scalar y node = ''true'' \<or> y_scalar y node = ''false'')"

text \<open>\<open>BadFile\<close> is caught and reported as false; every other exception leaves the function.\<close>

definition ConfigFileValidate :: "'n yaml \<Rightarrow> string \<Rightarrow> ('s, bool) M" where
  "ConfigFileValidate y path =
     (case y_load_file y path of
        Bad_file \<Rightarrow> return False
      | Other_exception \<Rightarrow> throw Yaml_exception
      | Loaded config \<Rightarrow>
          bnd (lift_result (y_sub y config ''IsWeakType'')) (\<lambda>weak.
          if \<not> y_defined y weak \<or> \<not> IsNodeBool y weak then return False
          else
            bnd (lift_result (y_sub y config ''InitFileDir'')) (\<lambda>dir.
            if \<not> y_defined y dir \<or> \<not> y_is_scalar y dir then return False
            else
              bnd (lift_result (y_as_string y dir)) (\<lambda>dir_path.
              if \<not> y_exists y dir_path then return False
              else
                bnd (lift_result (y_sub y config ''BasicTypes'')) (\<lambda>basic.
                return (y_defined y basic \<and> y_is_sequence y basic))))))"

section \<open>The singleton\<close>

record configuration =
  is_init :: bool
  syntax_only :: bool
  is_weak_type :: bool
  init_dir_path :: string
  built_in_object_file_path :: string
  basic_types :: "string list"

text \<open>A function-local static: all members are zero before the first initialisation.\<close>

definition initial_configuration :: configuration where
  "initial_configuration = \<lparr>is_init = False, syntax_only = False, is_weak_type = False,
     init_dir_path = [], built_in_object_file_path = [], basic_types = []\<rparr>"

definition push_basic_type :: "'n yaml \<Rightarrow> 'n \<Rightarrow> unit \<Rightarrow> (configuration, unit) M" where
  "push_basic_type y type = (\<lambda>_.
     bnd (lift_result (y_as_string y type)) (\<lambda>t.
     modify (\<lambda>c. c\<lparr>basic_types := basic_types c @ [t]\<rparr>)))"

definition Init :: "'n yaml \<Rightarrow> string \<Rightarrow> (configuration, bool) M" where
  "Init y path =
     (case y_load_file y path of
        Bad_file \<Rightarrow> return False
      | Other_exception \<Rightarrow> throw Yaml_exception
      | Loaded config \<Rightarrow>
          bnd (ConfigFileValidate y path) (\<lambda>valid.
          if \<not> valid then return False
          else
            bnd (lift_result (y_sub y config ''IsWeakType'')) (\<lambda>weak.
            bnd (lift_result (y_as_bool y weak)) (\<lambda>w.
            bnd (modify (\<lambda>c. c\<lparr>is_weak_type := w\<rparr>)) (\<lambda>_.
            bnd (lift_result (y_sub y config ''InitFileDir'')) (\<lambda>dir.
            bnd (lift_result (y_as_string y dir)) (\<lambda>dir_path.
            bnd (modify (\<lambda>c. c\<lparr>init_dir_path := dir_path\<rparr>)) (\<lambda>_.
            bnd (lift_result (y_sub y config ''BuiltinObjFile'')) (\<lambda>builtin.
            bnd (if y_defined y builtin
                 then bnd (lift_result (y_as_string y builtin)) (\<lambda>p.
                      modify (\<lambda>c. c\<lparr>built_in_object_file_path := p\<rparr>))
                 else throw Assert_failed) (\<lambda>_.
            bnd (lift_result (y_sub y config ''SyntaxOnly'')) (\<lambda>syntax.
            bnd (if y_defined y syntax
                 then bnd (lift_result (y_as_bool y syntax)) (\<lambda>b. modify (\<lambda>c. c\<lparr>syntax_only := b\<rparr>))
                 else modify (\<lambda>c. c\<lparr>syntax_only := False\<rparr>)) (\<lambda>_.
            bnd (lift_result (y_sub y config ''BasicTypes'')) (\<lambda>basic.
            bnd (foldM (push_basic_type y) (y_elements y basic) ()) (\<lambda>_.
            bnd (modify (\<lambda>c. c\<lparr>is_init := True\<rparr>)) (\<lambda>_.
            return True)))))))))))))))"

definition Initialize :: "'n yaml \<Rightarrow> string \<Rightarrow> (configuration, bool) M" where
  "Initialize y path = Init y path"

definition GetInstance :: "(configuration, configuration) M" where
  "GetInstance = bnd (gets (\<lambda>c. c)) (\<lambda>c. bnd (require Assert_failed (is_init c)) (\<lambda>_. return c))"

definition IsWeakType :: "configuration \<Rightarrow> bool" where
  "IsWeakType c = is_weak_type c"

definition GetBasicTypeStr :: "configuration \<Rightarrow> string list" where
  "GetBasicTypeStr c = basic_types c"

definition GetInitDirPath :: "configuration \<Rightarrow> string" where
  "GetInitDirPath c = init_dir_path c"

definition SyntaxOnly :: "configuration \<Rightarrow> bool" where
  "SyntaxOnly c = syntax_only c"

section \<open>Lemmas\<close>

lemma lift_result_Inr [m_eval]: "lift_result r s = Inr (x, s') \<longleftrightarrow> r = Inr x \<and> s' = s"
  by (cases r) (auto simp: m_eval)

lemma ConfigFileValidate_frame: "ConfigFileValidate y path s = Inr (b, s') \<Longrightarrow> s' = s"
  by (auto simp: ConfigFileValidate_def bnd_eq_Inr_iff m_eval split: load_result.splits if_splits)

lemma ConfigFileValidate_True:
  assumes "ConfigFileValidate y path s = Inr (True, s')"
  obtains config weak dir dir_path basic where "y_load_file y path = Loaded config"
    "y_sub y config ''IsWeakType'' = Inr weak" "y_defined y weak" "IsNodeBool y weak"
    "y_sub y config ''InitFileDir'' = Inr dir" "y_defined y dir" "y_as_string y dir = Inr dir_path"
    "y_exists y dir_path" "y_sub y config ''BasicTypes'' = Inr basic" "y_is_sequence y basic"
  using assms
  by (auto simp: ConfigFileValidate_def bnd_eq_Inr_iff m_eval split: load_result.splits if_splits)

text \<open>The strings of the sequence, in order.\<close>

fun read_types :: "'n yaml \<Rightarrow> 'n list \<Rightarrow> error + string list" where
  "read_types y [] = Inr []"
| "read_types y (n # ns) =
     (case y_as_string y n of
        Inl e \<Rightarrow> Inl e
      | Inr t \<Rightarrow> (case read_types y ns of Inl e \<Rightarrow> Inl e | Inr ts \<Rightarrow> Inr (t # ts)))"

lemma push_basic_types:
  "foldM (push_basic_type y) ns () c =
     (case read_types y ns of Inl e \<Rightarrow> Inl e | Inr ts \<Rightarrow> Inr ((), c\<lparr>basic_types := basic_types c @ ts\<rparr>))"
proof (induction ns arbitrary: c)
  case Nil
  then show ?case by (simp add: return_def)
next
  case (Cons n ns)
  then show ?case
    by (simp add: push_basic_type_def bnd_def lift_result_def throw_def return_def modify_def
        split: sum.splits)
qed

lemma push_basic_types_Inr:
  "foldM (push_basic_type y) ns () c = Inr (u, c') \<longleftrightarrow>
     (\<exists>ts. read_types y ns = Inr ts \<and> c' = c\<lparr>basic_types := basic_types c @ ts\<rparr>)"
  by (cases "read_types y ns") (auto simp: push_basic_types)

section \<open>Properties\<close>

text \<open>C31: A successful initialisation. When \<open>Initialize\<close> returns true the file was readable and
  passed the validation, the init directory exists, and every member of the instance is determined
  by the file: the weak-type flag, the init directory and the path of the built-in object file
  (which must be there) are read from it, the syntax-only flag is read from it or false where the
  file does not name it, and the file's basic types are appended to those of earlier initialisations.\<close>

theorem Initialize_True:
  assumes "Initialize y path c = Inr (True, c')"
  shows "\<exists>config weak w dir dir_path builtin builtin_path syn only_syntax basic ts.
     y_load_file y path = Loaded config \<and> ConfigFileValidate y path c = Inr (True, c) \<and>
     y_sub y config ''IsWeakType'' = Inr weak \<and> y_as_bool y weak = Inr w \<and>
     y_sub y config ''InitFileDir'' = Inr dir \<and> y_as_string y dir = Inr dir_path \<and> y_exists y dir_path \<and>
     y_sub y config ''BuiltinObjFile'' = Inr builtin \<and> y_defined y builtin \<and>
     y_as_string y builtin = Inr builtin_path \<and>
     y_sub y config ''SyntaxOnly'' = Inr syn \<and>
     (if y_defined y syn then y_as_bool y syn = Inr only_syntax else \<not> only_syntax) \<and>
     y_sub y config ''BasicTypes'' = Inr basic \<and> read_types y (y_elements y basic) = Inr ts \<and>
     c' = \<lparr>is_init = True, syntax_only = only_syntax, is_weak_type = w, init_dir_path = dir_path,
           built_in_object_file_path = builtin_path, basic_types = basic_types c @ ts\<rparr>"
proof -
  obtain config where L: "y_load_file y path = Loaded config" and V: "ConfigFileValidate y path c = Inr (True, c)"
    using assms
    by (auto simp: Initialize_def Init_def bnd_eq_Inr_iff m_eval split: load_result.splits if_splits
        dest: ConfigFileValidate_frame)
  from V obtain weak dir dir_path basic where V': "y_sub y config ''IsWeakType'' = Inr weak"
    "y_sub y config ''InitFileDir'' = Inr dir" "y_as_string y dir = Inr dir_path" "y_exists y dir_path"
    "y_sub y config ''BasicTypes'' = Inr basic"
    using L by (auto elim: ConfigFileValidate_True)
  obtain w builtin builtin_path syn where W: "y_as_bool y weak = Inr w"
    "y_sub y config ''BuiltinObjFile'' = Inr builtin" "y_defined y builtin" "y_as_string y builtin = Inr builtin_path"
    "y_sub y config ''SyntaxOnly'' = Inr syn"
    using assms L V V' by (auto simp: Initialize_def Init_def bnd_eq_Inr_iff m_eval split: if_splits)
  obtain only_syntax ts where B: "if y_defined y syn then y_as_bool y syn = Inr only_syntax else \<not> only_syntax"
    "read_types y (y_elements y basic) = Inr ts"
    "c' = c\<lparr>is_weak_type := w, init_dir_path := dir_path, built_in_object_file_path := builtin_path,
       syntax_only := only_syntax, basic_types := basic_types c @ ts, is_init := True\<rparr>"
    using assms L V V' W
    by (auto simp: Initialize_def Init_def bnd_eq_Inr_iff m_eval push_basic_types_Inr split: if_splits)
  have "c' = \<lparr>is_init = True, syntax_only = only_syntax, is_weak_type = w, init_dir_path = dir_path,
           built_in_object_file_path = builtin_path, basic_types = basic_types c @ ts\<rparr>"
    unfolding B(3) by (cases c) simp
  then show ?thesis using L V V' W B(1,2) by blast
qed

text \<open>A file that cannot be opened or is not valid leaves the configuration as it was.\<close>

theorem Initialize_False:
  assumes "Initialize y path c = Inr (False, c')"
  shows "c' = c"
  using assms
  by (auto simp: Initialize_def Init_def bnd_eq_Inr_iff m_eval split: load_result.splits if_splits
      dest: ConfigFileValidate_frame)

text \<open>The built-in object file is called optional, but a file that passes the validation and
  does not name one fails an assertion instead of being accepted.\<close>

theorem Initialize_needs_builtin:
  assumes "ConfigFileValidate y path c = Inr (True, c)" and "y_load_file y path = Loaded config"
    and "y_sub y config ''BuiltinObjFile'' = Inr builtin" and "\<not> y_defined y builtin"
    and "y_sub y config ''IsWeakType'' = Inr weak" and "y_as_bool y weak = Inr w"
  shows "Initialize y path c = Inl Assert_failed"
proof -
  from assms(1,2) obtain dir dir_path where "y_sub y config ''InitFileDir'' = Inr dir" "y_as_string y dir = Inr dir_path"
    by (auto elim: ConfigFileValidate_True)
  then show ?thesis
    using assms by (simp add: Initialize_def Init_def bnd_def lift_result_def return_def throw_def modify_def)
qed

section \<open>Witnesses\<close>

text \<open>A YAML library whose nodes are trees of strings.\<close>

datatype ynode = YUndef | YScalar string | YSeq "ynode list" | YMap "(string \<times> ynode) list"

definition demo_yaml :: "ynode \<Rightarrow> ynode yaml" where
  "demo_yaml config = \<lparr>
     y_load_file = (\<lambda>path. if path = ''config.yaml'' then Loaded config else Bad_file),
     y_sub = (\<lambda>n k. case n of YMap kvs \<Rightarrow> (case map_of kvs k of Some v \<Rightarrow> Inr v | None \<Rightarrow> Inr YUndef)
                    | _ \<Rightarrow> Inl Yaml_exception),
     y_defined = (\<lambda>n. n \<noteq> YUndef),
     y_is_scalar = (\<lambda>n. case n of YScalar _ \<Rightarrow> True | _ \<Rightarrow> False),
     y_scalar = (\<lambda>n. case n of YScalar t \<Rightarrow> t | _ \<Rightarrow> []),
     y_is_sequence = (\<lambda>n. case n of YSeq _ \<Rightarrow> True | _ \<Rightarrow> False),
     y_elements = (\<lambda>n. case n of YSeq ns \<Rightarrow> ns | _ \<Rightarrow> []),
     y_as_string = (\<lambda>n. case n of YScalar t \<Rightarrow> Inr t | _ \<Rightarrow> Inl Yaml_exception),
     y_as_bool = (\<lambda>n. if n = YScalar ''true'' then Inr True
                      else if n = YScalar ''false'' then Inr False else Inl Yaml_exception),
     y_exists = (\<lambda>p. p = ''/init'')\<rparr>"

definition demo_config :: ynode where
  "demo_config = YMap [(''IsWeakType'', YScalar ''true''), (''InitFileDir'', YScalar ''/init''),
     (''BuiltinObjFile'', YScalar ''/obj''), (''BasicTypes'', YSeq [YScalar ''int''])]"

definition demo_config_no_builtin :: ynode where
  "demo_config_no_builtin = YMap [(''IsWeakType'', YScalar ''true''), (''InitFileDir'', YScalar ''/init''),
     (''BasicTypes'', YSeq [YScalar ''int''])]"

definition demo_configuration :: configuration where
  "demo_configuration = \<lparr>is_init = True, syntax_only = False, is_weak_type = True,
     init_dir_path = ''/init'', built_in_object_file_path = ''/obj'', basic_types = [''int'']\<rparr>"

lemma demo_Initialize:
  "Initialize (demo_yaml demo_config) ''config.yaml'' initial_configuration = Inr (True, demo_configuration)"
  by (simp add: Initialize_def Init_def ConfigFileValidate_def IsNodeBool_def demo_yaml_def demo_config_def
      initial_configuration_def demo_configuration_def bnd_def lift_result_def return_def modify_def push_basic_type_def)

lemma Initialize_True_witness:
  "\<exists>builtin. y_sub (demo_yaml demo_config) demo_config ''BuiltinObjFile'' = Inr builtin \<and>
     y_as_string (demo_yaml demo_config) builtin = Inr (built_in_object_file_path demo_configuration) \<and>
   y_exists (demo_yaml demo_config) (GetInitDirPath demo_configuration) \<and> \<not> SyntaxOnly demo_configuration"
proof -
  have "y_load_file (demo_yaml demo_config) ''config.yaml'' = Loaded config \<longleftrightarrow> config = demo_config" for config
    by (auto simp: demo_yaml_def)
  then show ?thesis
    using Initialize_True [OF demo_Initialize]
    by (auto simp: demo_configuration_def GetInitDirPath_def SyntaxOnly_def)
qed

lemma Initialize_False_witness:
  "Initialize (demo_yaml demo_config) ''other'' initial_configuration = Inr (False, initial_configuration)"
proof -
  obtain c' where "Initialize (demo_yaml demo_config) ''other'' initial_configuration = Inr (False, c')"
    by (auto simp: Initialize_def Init_def demo_yaml_def return_def)
  with Initialize_False [OF this] show ?thesis by simp
qed

lemma Initialize_needs_builtin_witness:
  "Initialize (demo_yaml demo_config_no_builtin) ''config.yaml'' initial_configuration = Inl Assert_failed"
proof (rule Initialize_needs_builtin [where builtin = YUndef and weak = "YScalar ''true''" and w = True
      and config = demo_config_no_builtin])
  show "ConfigFileValidate (demo_yaml demo_config_no_builtin) ''config.yaml'' initial_configuration =
      Inr (True, initial_configuration)"
    by (simp add: ConfigFileValidate_def IsNodeBool_def demo_yaml_def demo_config_no_builtin_def
        bnd_def lift_result_def return_def)
qed (simp_all add: demo_yaml_def demo_config_no_builtin_def)

end
