(* ===== verification/Type_System.thy ===== *)
theory Type_System
  imports IR_Tree Configuration "HOL-Library.AList"
begin

text \<open>
  The class \<open>TypeSystem\<close> of \<open>srcs/internal/srcs/var_definition.cpp\<close>: the types of the program
  under mutation. Type objects are created once, stored under their own id and never removed, so
  a pointer to one is its id and two lookups return the same pointer when they return objects of
  the same id (or both null). The three \<open>s_builted\<close> tables and the id counter are static: they
  outlive the \<open>TypeSystem\<close> object, which every scope tree creates anew. An
  \<open>unordered_map\<close> is an association list; the order in which the library walks through it is the
  parameter \<open>ord\<close>. The results: the tables' invariant, lookups by name and id, derivation,
  and what the walk over the members of compound types collects.
\<close>

section \<open>Type objects\<close>

type_synonym TypeID = int

abbreviation INT_MAX :: int where "INT_MAX \<equiv> 2147483647"

abbreviation kNotExist :: TypeID where "kNotExist \<equiv> 0"
abbreviation kAllTypes :: TypeID where "kAllTypes \<equiv> 1"
abbreviation kAllCompoundType :: TypeID where "kAllCompoundType \<equiv> 2"
abbreviation kAllFunction :: TypeID where "kAllFunction \<equiv> 3"
abbreviation kAllUpperBound :: TypeID where "kAllUpperBound \<equiv> 5"
abbreviation kAnyType :: TypeID where "kAnyType \<equiv> 6"

record var_info =
  vt_id :: TypeID
  vt_name :: string
  vt_bases :: "TypeID list"
  vt_derived :: "TypeID list"

datatype VarType =
    SimpleType (vt_info: var_info)
  | FunctionType (vt_info: var_info) (ft_return: TypeID) (ft_args: "TypeID list")
      (ft_arg_names: "string list")
  | CompoundType (vt_info: var_info) (ct_members: "(TypeID, string list) omap")
  | PointerType (vt_info: var_info) (pt_orig: TypeID) (pt_basic: TypeID) (pt_level: nat)

definition is_pointer_type :: "VarType \<Rightarrow> bool" where
  "is_pointer_type v = (case v of PointerType _ _ _ _ \<Rightarrow> True | _ \<Rightarrow> False)"

definition is_compound_type :: "VarType \<Rightarrow> bool" where
  "is_compound_type v = (case v of CompoundType _ _ \<Rightarrow> True | _ \<Rightarrow> False)"

definition is_function_type :: "VarType \<Rightarrow> bool" where
  "is_function_type v = (case v of FunctionType _ _ _ _ \<Rightarrow> True | _ \<Rightarrow> False)"

fun map_info :: "(var_info \<Rightarrow> var_info) \<Rightarrow> VarType \<Rightarrow> VarType" where
  "map_info f (SimpleType i) = SimpleType (f i)"
| "map_info f (FunctionType i r args names) = FunctionType (f i) r args names"
| "map_info f (CompoundType i ms) = CompoundType (f i) ms"
| "map_info f (PointerType i orig basic lvl) = PointerType (f i) orig basic lvl"

type_synonym umap = "(TypeID \<times> VarType) list"

definition iter :: "(TypeID list \<Rightarrow> TypeID list) \<Rightarrow> umap \<Rightarrow> (TypeID \<times> VarType) list" where
  "iter ord m = map (\<lambda>k. (k, the (map_of m k))) (ord (map fst m))"

text \<open>What is relied on: the walk visits every key once.\<close>

definition walks_all :: "(TypeID list \<Rightarrow> TypeID list) \<Rightarrow> bool" where
  "walks_all ord \<longleftrightarrow> (\<forall>ks. set (ord ks) = set ks)"

section \<open>State\<close>

record type_system = runtime +
  ts_next_id :: TypeID
  s_builted_simple_types :: umap
  s_builted_compound_types :: umap
  s_builted_function_types :: umap
  simple_var_types :: umap
  compound_types :: umap
  function_types :: umap
  pointer_map :: "(TypeID, (nat, TypeID) omap) omap"

section \<open>Lookups\<close>

definition has_key :: "umap \<Rightarrow> TypeID \<Rightarrow> bool" where
  "has_key m k \<longleftrightarrow> map_of m k \<noteq> None"

definition IsBuiltinType :: "'z type_system_scheme \<Rightarrow> TypeID \<Rightarrow> bool" where
  "IsBuiltinType s type_id \<longleftrightarrow>
     has_key (s_builted_compound_types s) type_id \<or> has_key (s_builted_simple_types s) type_id \<or>
     has_key (s_builted_function_types s) type_id"

definition GetTypePtrByID :: "'z type_system_scheme \<Rightarrow> TypeID \<Rightarrow> VarType option" where
  "GetTypePtrByID s type_id =
     (if has_key (s_builted_simple_types s) type_id then map_of (s_builted_simple_types s) type_id
      else if has_key (s_builted_compound_types s) type_id then map_of (s_builted_compound_types s) type_id
      else if has_key (s_builted_function_types s) type_id then map_of (s_builted_function_types s) type_id
      else if has_key (simple_var_types s) type_id then map_of (simple_var_types s) type_id
      else if has_key (compound_types s) type_id then map_of (compound_types s) type_id
      else if has_key (function_types s) type_id then map_of (function_types s) type_id
      else None)"

definition GetCompoundType :: "'z type_system_scheme \<Rightarrow> TypeID \<Rightarrow> VarType option" where
  "GetCompoundType s type_id =
     (if has_key (compound_types s) type_id then map_of (compound_types s) type_id
      else if has_key (s_builted_compound_types s) type_id then map_of (s_builted_compound_types s) type_id
      else None)"

definition GetFunctionType :: "'z type_system_scheme \<Rightarrow> TypeID \<Rightarrow> VarType option" where
  "GetFunctionType s type_id =
     (if has_key (function_types s) type_id then map_of (function_types s) type_id
      else if has_key (s_builted_function_types s) type_id then map_of (s_builted_function_types s) type_id
      else None)"

definition GetPointerType :: "'z type_system_scheme \<Rightarrow> TypeID \<Rightarrow> VarType option" where
  "GetPointerType s type_id = None"

definition IsCompoundType :: "'z type_system_scheme \<Rightarrow> TypeID \<Rightarrow> bool" where
  "IsCompoundType s type_id \<longleftrightarrow>
     has_key (s_builted_compound_types s) type_id \<or> has_key (compound_types s) type_id"

definition IsFunctionType :: "'z type_system_scheme \<Rightarrow> TypeID \<Rightarrow> bool" where
  "IsFunctionType s type_id \<longleftrightarrow>
     has_key (s_builted_function_types s) type_id \<or> has_key (function_types s) type_id"

definition IsBasicType :: "'z type_system_scheme \<Rightarrow> TypeID \<Rightarrow> bool" where
  "IsBasicType s type_id \<longleftrightarrow> has_key (s_builted_simple_types s) type_id"

definition IsPointerType :: "'z type_system_scheme \<Rightarrow> TypeID \<Rightarrow> error + bool" where
  "IsPointerType s type =
     (case GetTypePtrByID s type of None \<Rightarrow> Inl Null_dereference | Some v \<Rightarrow> Inr (is_pointer_type v))"

text \<open>The first type of a table, in the library's order, that has the name.\<close>

definition find_by_name :: "(TypeID list \<Rightarrow> TypeID list) \<Rightarrow> umap \<Rightarrow> string \<Rightarrow> TypeID option" where
  "find_by_name ord m str = map_option fst (find (\<lambda>(k, v). vt_name (vt_info v) = str) (iter ord m))"

definition GetBasicTypeIDByStr ::
  "(TypeID list \<Rightarrow> TypeID list) \<Rightarrow> 'z type_system_scheme \<Rightarrow> string \<Rightarrow> TypeID" where
  "GetBasicTypeIDByStr ord s str =
     (if str = ''ALLTYPES'' then kAllTypes
      else if str = ''ALLCOMPOUNDTYPE'' then kAllCompoundType
      else if str = ''ALLFUNCTION'' then kAllFunction
      else if str = ''ANYTYPE'' then kAnyType
      else (case find_by_name ord (s_builted_simple_types s) str of Some k \<Rightarrow> k | None \<Rightarrow> kNotExist))"

definition GetTypeIDByStr ::
  "(TypeID list \<Rightarrow> TypeID list) \<Rightarrow> 'z type_system_scheme \<Rightarrow> string \<Rightarrow> TypeID" where
  "GetTypeIDByStr ord s str =
     (case find_by_name ord (s_builted_simple_types s) str of Some k \<Rightarrow> k | None \<Rightarrow>
     (case find_by_name ord (s_builted_compound_types s) str of Some k \<Rightarrow> k | None \<Rightarrow>
     (case find_by_name ord (s_builted_function_types s) str of Some k \<Rightarrow> k | None \<Rightarrow>
     (case find_by_name ord (simple_var_types s) str of Some k \<Rightarrow> k | None \<Rightarrow>
     (case find_by_name ord (compound_types s) str of Some k \<Rightarrow> k | None \<Rightarrow>
     (case find_by_name ord (function_types s) str of Some k \<Rightarrow> k | None \<Rightarrow> kNotExist))))))"

text \<open>Static maps that nothing fills.\<close>

definition GetBuiltinSimpleVarTypes :: "(TypeID, string list) omap" where
  "GetBuiltinSimpleVarTypes = []"

definition GetBuiltinCompoundTypes :: "(TypeID, string list) omap" where
  "GetBuiltinCompoundTypes = []"

definition GetBuiltinFunctionTypes :: "(TypeID, string list) omap" where
  "GetBuiltinFunctionTypes = []"

definition HasBuiltinType :: bool where
  "HasBuiltinType = False"

section \<open>Construction\<close>

text \<open>
  The counter of \<open>gen_type_id\<close> is a static \<open>int\<close> that starts at 10, is never reset and is advanced by
  every type of every validated program. The model counts in \<open>int\<close> without a bound, which is what
  the code does as long as fewer than \<open>2 ^ 31 - 11\<close> types have been generated by the process
  (\<open>gen_type_id_in_int\<close> below); from there on the increment overflows, which C++ leaves undefined.
  Everything said about type ids is said of runs that stay below this bound.
\<close>

definition gen_type_id :: "('z type_system_scheme, TypeID) M" where
  "gen_type_id =
     bnd (gets ts_next_id) (\<lambda>i. bnd (modify (\<lambda>s. s\<lparr>ts_next_id := i + 1\<rparr>)) (\<lambda>_. return i))"

definition make_basic_type :: "TypeID \<Rightarrow> string \<Rightarrow> VarType" where
  "make_basic_type tid str =
     SimpleType \<lparr>vt_id = tid, vt_name = str, vt_bases = [], vt_derived = []\<rparr>"

definition put_builtin_simple :: "TypeID \<Rightarrow> VarType \<Rightarrow> ('z type_system_scheme, unit) M" where
  "put_builtin_simple tid v =
     modify (\<lambda>s. s\<lparr>s_builted_simple_types := AList.update tid v (s_builted_simple_types s)\<rparr>)"

definition CreateBuiltinType :: "TypeID \<Rightarrow> string \<Rightarrow> ('z type_system_scheme, unit) M" where
  "CreateBuiltinType tid str = put_builtin_simple tid (make_basic_type tid str)"

definition add_basic_type :: "string \<Rightarrow> unit \<Rightarrow> ('z type_system_scheme, unit) M" where
  "add_basic_type line = (\<lambda>_.
     if line = [] then return ()
     else bnd gen_type_id (\<lambda>new_id. put_builtin_simple new_id (make_basic_type new_id line)))"

definition init_basic_types :: "configuration \<Rightarrow> ('z type_system_scheme, unit) M" where
  "init_basic_types c =
     bnd (require Assert_failed (is_init c)) (\<lambda>_.
     bnd (foldM add_basic_type (GetBasicTypeStr c) ()) (\<lambda>_.
     bnd (CreateBuiltinType kAllTypes ''SpecialType::kAllTypes'') (\<lambda>_.
     bnd (CreateBuiltinType kAllCompoundType ''SpecialType::kAllCompoundType'') (\<lambda>_.
     bnd (CreateBuiltinType kAllFunction ''SpecialType::kAllFunction'') (\<lambda>_.
     CreateBuiltinType kAnyType ''SpecialType::kAnyType'')))))"

text \<open>The constructor: new member tables, the static ones extended.\<close>

definition new_TypeSystem :: "configuration \<Rightarrow> ('z type_system_scheme, unit) M" where
  "new_TypeSystem c =
     bnd (modify (\<lambda>s. s\<lparr>simple_var_types := [], compound_types := [], function_types := [],
                       pointer_map := []\<rparr>)) (\<lambda>_.
     init_basic_types c)"

section \<open>Creating types\<close>

text \<open>\<open>ptr->vt_derived.push_back\<close> on the object a lookup by id returns.\<close>

definition modify_type :: "TypeID \<Rightarrow> (VarType \<Rightarrow> VarType) \<Rightarrow> 'z type_system_scheme \<Rightarrow> 'z type_system_scheme" where
  "modify_type tid f s =
     (let upd = (\<lambda>m. AList.map_entry tid f m) in
      if has_key (s_builted_simple_types s) tid
        then s\<lparr>s_builted_simple_types := upd (s_builted_simple_types s)\<rparr>
      else if has_key (s_builted_compound_types s) tid
        then s\<lparr>s_builted_compound_types := upd (s_builted_compound_types s)\<rparr>
      else if has_key (s_builted_function_types s) tid
        then s\<lparr>s_builted_function_types := upd (s_builted_function_types s)\<rparr>
      else if has_key (simple_var_types s) tid
        then s\<lparr>simple_var_types := upd (simple_var_types s)\<rparr>
      else if has_key (compound_types s) tid
        then s\<lparr>compound_types := upd (compound_types s)\<rparr>
      else s\<lparr>function_types := upd (function_types s)\<rparr>)"

definition push_derived :: "TypeID \<Rightarrow> TypeID \<Rightarrow> ('z type_system_scheme, unit) M" where
  "push_derived base_id derived_id =
     bnd (gets (\<lambda>s. GetTypePtrByID s base_id)) (\<lambda>ptr.
     bnd (require Null_dereference (ptr \<noteq> None)) (\<lambda>_.
     modify (modify_type base_id
       (map_info (\<lambda>i. i\<lparr>vt_derived := vt_derived i @ [derived_id]\<rparr>)))))"

definition CreateFunctionType ::
  "string \<Rightarrow> TypeID \<Rightarrow> TypeID list \<Rightarrow> string list \<Rightarrow> ('z type_system_scheme, TypeID) M" where
  "CreateFunctionType function_name return_type args arg_names =
     bnd gen_type_id (\<lambda>tid.
     bnd (modify (\<lambda>s. s\<lparr>function_types := AList.update tid
            (FunctionType \<lparr>vt_id = tid, vt_name = function_name, vt_bases = [kAllFunction],
               vt_derived = []\<rparr> return_type args arg_names) (function_types s)\<rparr>)) (\<lambda>_.
     bnd (push_derived kAllFunction tid) (\<lambda>_. return tid)))"

definition CreateCompoundType ::
  "string \<Rightarrow> TypeID list \<Rightarrow> string list \<Rightarrow> ('z type_system_scheme, TypeID) M" where
  "CreateCompoundType structure_name members member_names =
     bnd (require Contract_failed (length members = length member_names)) (\<lambda>_.
     bnd gen_type_id (\<lambda>tid.
     bnd (modify (\<lambda>s. s\<lparr>compound_types := AList.update tid
            (CompoundType \<lparr>vt_id = tid, vt_name = structure_name, vt_bases = [], vt_derived = []\<rparr>
               (fold (\<lambda>(t, n). om_push t n) (zip members member_names) [])) (compound_types s)\<rparr>)) (\<lambda>_.
     return tid)))"

definition pointer_name :: "TypeID \<Rightarrow> string" where
  "pointer_name tid = ''pointer_typeid_'' @ to_string tid"

definition new_pointer :: "TypeID \<Rightarrow> TypeID \<Rightarrow> TypeID \<Rightarrow> TypeID \<Rightarrow> nat \<Rightarrow> VarType" where
  "new_pointer tid base orig basic lvl =
     PointerType \<lparr>vt_id = tid, vt_name = pointer_name tid, vt_bases = [base], vt_derived = []\<rparr>
       orig basic lvl"

definition put_pointer_map :: "TypeID \<Rightarrow> nat \<Rightarrow> TypeID \<Rightarrow> ('z type_system_scheme, unit) M" where
  "put_pointer_map orig lvl tid =
     modify (\<lambda>s. s\<lparr>pointer_map := om_put orig (om_put lvl tid (om_at [] (pointer_map s) orig)) (pointer_map s)\<rparr>)"

fun GeneratePointerType ::
  "(TypeID list \<Rightarrow> TypeID list) \<Rightarrow> TypeID \<Rightarrow> nat \<Rightarrow> ('z type_system_scheme, TypeID) M" where
  "GeneratePointerType ord original_type 0 = throw Assert_failed"
| "GeneratePointerType ord original_type (Suc n) =
     bnd (gets (\<lambda>s. om_get (om_at [] (pointer_map s) original_type) (Suc n))) (\<lambda>known.
     case known of
       Some tid \<Rightarrow> return tid
     | None \<Rightarrow>
         bnd gen_type_id (\<lambda>tid.
         bnd (if n = 0 then return original_type else GeneratePointerType ord original_type n) (\<lambda>base_type.
         bnd (gets (\<lambda>s. GetBasicTypeIDByStr ord s ''SpecialType::kAllTypes'')) (\<lambda>alltype.
         bnd (push_derived alltype tid) (\<lambda>_.
         bnd (put_builtin_simple tid (new_pointer tid alltype base_type original_type (Suc n))) (\<lambda>_.
         bnd (put_pointer_map original_type (Suc n) tid) (\<lambda>_.
         return tid)))))))"

text \<open>The search of \<open>GetOrCreatePointerType\<close>: the original type and the level of \<open>type\<close>.\<close>

fun find_pointer :: "TypeID \<Rightarrow> (TypeID, (nat, TypeID) omap) omap \<Rightarrow> (TypeID \<times> nat) option" where
  "find_pointer type [] = None"
| "find_pointer type ((orig, levels) # m) =
     (if orig = type then Some (type, 0)
      else (case find (\<lambda>(lvl, tid). tid = type) levels of
              Some (lvl, _) \<Rightarrow> Some (orig, lvl)
            | None \<Rightarrow> find_pointer type m))"

definition create_pointer ::
  "(TypeID list \<Rightarrow> TypeID list) \<Rightarrow> TypeID \<Rightarrow> TypeID \<Rightarrow> nat \<Rightarrow> ('z type_system_scheme, TypeID) M" where
  "create_pointer ord type orig lvl =
     bnd gen_type_id (\<lambda>tid.
     bnd (gets (\<lambda>s. GetBasicTypeIDByStr ord s ''SpecialType::kAllTypes'')) (\<lambda>alltype.
     bnd (push_derived alltype tid) (\<lambda>_.
     bnd (modify (\<lambda>s. s\<lparr>simple_var_types :=
            AList.update tid (new_pointer tid alltype type orig lvl) (simple_var_types s)\<rparr>)) (\<lambda>_.
     bnd (put_pointer_map orig lvl tid) (\<lambda>_.
     return tid)))))"

definition GetOrCreatePointerType ::
  "(TypeID list \<Rightarrow> TypeID list) \<Rightarrow> TypeID \<Rightarrow> ('z type_system_scheme, TypeID) M" where
  "GetOrCreatePointerType ord type =
     bnd (gets (\<lambda>s. find_pointer type (pointer_map s))) (\<lambda>found.
     case found of
       Some (orig_type, level) \<Rightarrow>
         bnd (require Assert_failed (orig_type \<noteq> - 1)) (\<lambda>_.
         bnd (gets (\<lambda>s. om_get (om_at [] (pointer_map s) orig_type) (Suc level))) (\<lambda>known.
         case known of Some tid \<Rightarrow> return tid | None \<Rightarrow> create_pointer ord type orig_type (Suc level)))
     | None \<Rightarrow> create_pointer ord type type 1)"

section \<open>Derivation\<close>

text \<open>Equality of the two pointers the lookups return.\<close>

definition same_object :: "VarType option \<Rightarrow> VarType option \<Rightarrow> bool" where
  "same_object v w =
     (case (v, w) of
        (None, None) \<Rightarrow> True
      | (Some x, Some y) \<Rightarrow> vt_id (vt_info x) = vt_id (vt_info y)
      | _ \<Rightarrow> False)"

text \<open>The fuel bounds the depth of the walk along base types; the loop over the base types is the
  second function.\<close>

function can_derive :: "nat \<Rightarrow> 'z type_system_scheme \<Rightarrow> TypeID \<Rightarrow> TypeID \<Rightarrow> error + bool"
and derive_loop :: "nat \<Rightarrow> 'z type_system_scheme \<Rightarrow> TypeID \<Rightarrow> TypeID \<Rightarrow> TypeID list \<Rightarrow> bool \<Rightarrow> error + bool" where
  "can_derive 0 s dtype btype = Inl Out_of_fuel"
| "can_derive (Suc n) s dtype btype =
     (if same_object (GetTypePtrByID s btype) (GetTypePtrByID s dtype) then Inr True
      else (case (GetTypePtrByID s dtype, GetTypePtrByID s btype) of
              (Some d, Some _) \<Rightarrow> derive_loop n s dtype btype (vt_bases (vt_info d)) False
            | _ \<Rightarrow> Inl Assert_failed))"
| "derive_loop n s dtype btype [] res = Inr res"
| "derive_loop n s dtype btype (t # ts) res =
     (if t = dtype then Inl Assert_failed
      else if res then derive_loop n s dtype btype ts True
      else (case can_derive n s t btype of
              Inl e \<Rightarrow> Inl e
            | Inr r \<Rightarrow> derive_loop n s dtype btype ts r))"
  by pat_completeness auto
termination
  by (relation "measures [\<lambda>x. case x of Inl (n, _) \<Rightarrow> n | Inr (n, _) \<Rightarrow> n,
        \<lambda>x. case x of Inl _ \<Rightarrow> 0 | Inr (_, _, _, _, ts, _) \<Rightarrow> Suc (length ts)]") auto

definition CanDeriveFrom :: "'z type_system_scheme \<Rightarrow> TypeID \<Rightarrow> TypeID \<Rightarrow> error + bool" where
  "CanDeriveFrom s dtype btype = can_derive 3 s dtype btype"

definition GetLeastUpperCommonType :: "'z type_system_scheme \<Rightarrow> TypeID \<Rightarrow> TypeID \<Rightarrow> error + TypeID" where
  "GetLeastUpperCommonType s type1 type2 =
     (if type1 = type2 then Inr type1
      else (case CanDeriveFrom s type1 type2 of
              Inl e \<Rightarrow> Inl e
            | Inr True \<Rightarrow> Inr type2
            | Inr False \<Rightarrow>
                (case CanDeriveFrom s type2 type1 of
                   Inl e \<Rightarrow> Inl e
                 | Inr True \<Rightarrow> Inr type1
                 | Inr False \<Rightarrow> Inr kNotExist)))"

section \<open>Members of compound types\<close>

text \<open>
  \<open>get_all_types_from_compound_type\<close>: \<open>visit\<close> is passed by reference, so it is part of the
  result. The fuel bounds the depth of the recursion.
\<close>

function all_types_of ::
  "nat \<Rightarrow> configuration \<Rightarrow> 'z type_system_scheme \<Rightarrow> TypeID \<Rightarrow> TypeID set \<Rightarrow> error + (TypeID set \<times> TypeID set)"
and member_loop ::
  "nat \<Rightarrow> configuration \<Rightarrow> 'z type_system_scheme \<Rightarrow> TypeID list \<Rightarrow> TypeID set \<Rightarrow> TypeID set
     \<Rightarrow> error + (TypeID set \<times> TypeID set)" where
  "all_types_of 0 c s compound_type visit = Inl Out_of_fuel"
| "all_types_of (Suc n) c s compound_type visit =
     (if compound_type \<in> visit then Inr ({}, visit)
      else (case GetCompoundType s compound_type of
              None \<Rightarrow> Inl Null_dereference
            | Some compound \<Rightarrow>
                member_loop n c s (map fst (ct_members compound)) {} (insert compound_type visit)))"
| "member_loop n c s [] res visit = Inr (res, visit)"
| "member_loop n c s (member_type # ms) res visit =
     (if IsCompoundType s member_type then
        (case all_types_of n c s member_type visit of
           Inl e \<Rightarrow> Inl e
         | Inr (sub, visit) \<Rightarrow> member_loop n c s ms (insert member_type (res \<union> sub)) visit)
      else if IsFunctionType s member_type then
        (if IsWeakType c
         then (case GetFunctionType s member_type of
                 None \<Rightarrow> Inl Null_dereference
               | Some pfunc \<Rightarrow> member_loop n c s ms (insert member_type (insert (ft_return pfunc) res)) visit)
         else member_loop n c s ms res visit)
      else if IsBasicType s member_type then member_loop n c s ms (insert member_type res) visit
      else if IsWeakType c then member_loop n c s ms (insert member_type res) visit
      else member_loop n c s ms res visit)"
  by pat_completeness auto
termination
  by (relation "measures [\<lambda>x. case x of Inl (n, _) \<Rightarrow> n | Inr (n, _) \<Rightarrow> n,
        \<lambda>x. case x of Inl _ \<Rightarrow> 0 | Inr (_, _, _, ms, _) \<Rightarrow> Suc (length ms)]") auto

definition num_compound_types :: "'z type_system_scheme \<Rightarrow> nat" where
  "num_compound_types s = length (compound_types s) + length (s_builted_compound_types s)"

definition get_all_types_from_compound_type ::
  "configuration \<Rightarrow> 'z type_system_scheme \<Rightarrow> TypeID \<Rightarrow> TypeID set \<Rightarrow> error + (TypeID set \<times> TypeID set)" where
  "get_all_types_from_compound_type c s compound_type visit =
     all_types_of (Suc (num_compound_types s)) c s compound_type visit"

section \<open>\<open>CompoundType::get_member_by_type\<close>\<close>

definition get_member_by_type :: "VarType \<Rightarrow> TypeID \<Rightarrow> ('z runtime_scheme, string) M" where
  "get_member_by_type v type =
     (case om_get (ct_members v) type of None \<Rightarrow> return [] | Some names \<Rightarrow> random_pick names)"

section \<open>The invariant of the tables\<close>

definition all_entries :: "'z type_system_scheme \<Rightarrow> umap" where
  "all_entries s =
     s_builted_simple_types s @ s_builted_compound_types s @ s_builted_function_types s @
     simple_var_types s @ compound_types s @ function_types s"

lemma GetTypePtrByID_all: "GetTypePtrByID s k = map_of (all_entries s) k"
  by (auto simp: GetTypePtrByID_def all_entries_def has_key_def map_add_def split: option.splits)

text \<open>\<open>baseless bs b\<close>: a built-in simple type without base types.\<close>

definition baseless :: "umap \<Rightarrow> TypeID \<Rightarrow> bool" where
  "baseless bs b \<longleftrightarrow> (\<exists>w. map_of bs b = Some w \<and> vt_bases (vt_info w) = [])"

definition entry_ok :: "TypeID \<Rightarrow> umap \<Rightarrow> TypeID \<Rightarrow> VarType \<Rightarrow> bool" where
  "entry_ok n bs k v \<longleftrightarrow>
     vt_id (vt_info v) = k \<and> 0 < k \<and> k < n \<and> (\<forall>b\<in>set (vt_bases (vt_info v)). baseless bs b) \<and>
     (case v of SimpleType i \<Rightarrow> vt_bases i = [] | PointerType i _ _ _ \<Rightarrow> vt_name i = pointer_name k | _ \<Rightarrow> True)"

definition simple_kind :: "VarType \<Rightarrow> bool" where
  "simple_kind v \<longleftrightarrow> \<not> is_compound_type v \<and> \<not> is_function_type v"

definition types_wf :: "'z type_system_scheme \<Rightarrow> bool" where
  "types_wf s \<longleftrightarrow>
     10 \<le> ts_next_id s \<and> distinct (map fst (all_entries s)) \<and>
     (\<forall>k\<in>fst ` set (all_entries s). k \<in> fst ` set (s_builted_simple_types s) \<or> 10 \<le> k) \<and>
     (\<forall>(k, v)\<in>set (all_entries s). entry_ok (ts_next_id s) (s_builted_simple_types s) k v) \<and>
     (\<forall>v\<in>snd ` set (s_builted_simple_types s @ simple_var_types s). simple_kind v) \<and>
     (\<forall>v\<in>snd ` set (s_builted_compound_types s @ compound_types s). is_compound_type v) \<and>
     (\<forall>v\<in>snd ` set (s_builted_function_types s @ function_types s). is_function_type v)"

definition special_name :: "TypeID \<Rightarrow> string" where
  "special_name k =
     (if k = kAllTypes then ''SpecialType::kAllTypes''
      else if k = kAllCompoundType then ''SpecialType::kAllCompoundType''
      else if k = kAllFunction then ''SpecialType::kAllFunction'' else ''SpecialType::kAnyType'')"

definition specials :: "'z type_system_scheme \<Rightarrow> bool" where
  "specials s \<longleftrightarrow>
     (\<forall>k\<in>{kAllTypes, kAllCompoundType, kAllFunction, kAnyType}.
        baseless (s_builted_simple_types s) k \<and>
        (\<exists>w. map_of (s_builted_simple_types s) k = Some w \<and> vt_name (vt_info w) = special_name k))"

lemma update_new: "k \<notin> fst ` set m \<Longrightarrow> AList.update k v m = m @ [(k, v)]"
  by (induction m) auto

lemma update_old_keys: "k \<in> fst ` set m \<Longrightarrow> map fst (AList.update k v m) = map fst m"
  by (induction m) auto

lemma update_keys_set: "fst ` set (AList.update k v m) = insert k (fst ` set m)"
  by (induction m) auto

lemma update_set: "set (AList.update k v m) \<subseteq> insert (k, v) (set m)"
  by (induction m) auto

lemma entry_ok_mono:
  "entry_ok n bs k v \<Longrightarrow> n \<le> n' \<Longrightarrow> (\<And>b. baseless bs b \<Longrightarrow> baseless bs' b) \<Longrightarrow> entry_ok n' bs' k v"
  by (auto simp: entry_ok_def split: VarType.splits)

lemma types_wfD:
  assumes "types_wf s"
  shows "10 \<le> ts_next_id s" and "distinct (map fst (all_entries s))"
    and "\<And>k. k \<in> fst ` set (all_entries s) \<Longrightarrow> k \<in> fst ` set (s_builted_simple_types s) \<or> 10 \<le> k"
    and "\<And>k v. (k, v) \<in> set (all_entries s) \<Longrightarrow> entry_ok (ts_next_id s) (s_builted_simple_types s) k v"
    and "\<And>k v. (k, v) \<in> set (s_builted_simple_types s) \<union> set (simple_var_types s) \<Longrightarrow> simple_kind v"
    and "\<And>k v. (k, v) \<in> set (s_builted_compound_types s) \<union> set (compound_types s) \<Longrightarrow> is_compound_type v"
    and "\<And>k v. (k, v) \<in> set (s_builted_function_types s) \<union> set (function_types s) \<Longrightarrow> is_function_type v"
proof -
  note wf = assms [unfolded types_wf_def]
  note c = wf [THEN conjunct2, THEN conjunct2, THEN conjunct1]
  note wf' = wf [THEN conjunct2, THEN conjunct2, THEN conjunct2]
  note d = wf' [THEN conjunct1]
  note e = wf' [THEN conjunct2, THEN conjunct1] wf' [THEN conjunct2, THEN conjunct2, THEN conjunct1]
    wf' [THEN conjunct2, THEN conjunct2, THEN conjunct2]
  show "10 \<le> ts_next_id s" "distinct (map fst (all_entries s))"
    by (rule wf [THEN conjunct1], rule wf [THEN conjunct2, THEN conjunct1])
  show "k \<in> fst ` set (s_builted_simple_types s) \<or> 10 \<le> k" if "k \<in> fst ` set (all_entries s)" for k
    using c that by (rule bspec)
  show "entry_ok (ts_next_id s) (s_builted_simple_types s) k v" if "(k, v) \<in> set (all_entries s)" for k v
    using bspec [OF d that] by simp
  have im: "(k, v) \<in> set xs \<union> set ys \<Longrightarrow> v \<in> snd ` set (xs @ ys)" for k :: TypeID and v :: VarType and xs ys
    by force
  show "simple_kind v" if "(k, v) \<in> set (s_builted_simple_types s) \<union> set (simple_var_types s)" for k v
    using bspec [OF e(1) im [OF that]] .
  show "is_compound_type v" if "(k, v) \<in> set (s_builted_compound_types s) \<union> set (compound_types s)" for k v
    using bspec [OF e(2) im [OF that]] .
  show "is_function_type v" if "(k, v) \<in> set (s_builted_function_types s) \<union> set (function_types s)" for k v
    using bspec [OF e(3) im [OF that]] .
qed

lemma types_wfI:
  assumes "10 \<le> ts_next_id s" and "distinct (map fst (all_entries s))"
    and "\<And>k. k \<in> fst ` set (all_entries s) \<Longrightarrow> k \<in> fst ` set (s_builted_simple_types s) \<or> 10 \<le> k"
    and "\<And>k v. (k, v) \<in> set (all_entries s) \<Longrightarrow> entry_ok (ts_next_id s) (s_builted_simple_types s) k v"
    and "\<And>k v. (k, v) \<in> set (s_builted_simple_types s) \<union> set (simple_var_types s) \<Longrightarrow> simple_kind v"
    and "\<And>k v. (k, v) \<in> set (s_builted_compound_types s) \<union> set (compound_types s) \<Longrightarrow> is_compound_type v"
    and "\<And>k v. (k, v) \<in> set (s_builted_function_types s) \<union> set (function_types s) \<Longrightarrow> is_function_type v"
  shows "types_wf s"
  unfolding types_wf_def
proof (intro conjI)
  show "\<forall>k\<in>fst ` set (all_entries s). k \<in> fst ` set (s_builted_simple_types s) \<or> 10 \<le> k"
    using assms(3) by blast
  show "\<forall>(k, v)\<in>set (all_entries s). entry_ok (ts_next_id s) (s_builted_simple_types s) k v"
    using assms(4) by blast
  show "\<forall>v\<in>snd ` set (s_builted_simple_types s @ simple_var_types s). simple_kind v"
    using assms(5) by fastforce
  show "\<forall>v\<in>snd ` set (s_builted_compound_types s @ compound_types s). is_compound_type v"
    using assms(6) by fastforce
  show "\<forall>v\<in>snd ` set (s_builted_function_types s @ function_types s). is_function_type v"
    using assms(7) by fastforce
qed (use assms(1,2) in simp_all)

lemma types_wf_bound: "types_wf s \<Longrightarrow> k \<in> fst ` set (all_entries s) \<Longrightarrow> k < ts_next_id s"
  by (auto dest!: types_wfD(4) simp: entry_ok_def)

lemma types_wf_entry:
  "types_wf s \<Longrightarrow> GetTypePtrByID s k = Some v \<Longrightarrow> entry_ok (ts_next_id s) (s_builted_simple_types s) k v"
  by (auto simp: GetTypePtrByID_all dest!: map_of_SomeD intro: types_wfD(4))

lemma has_key_iff: "has_key m k \<longleftrightarrow> k \<in> fst ` set m"
  by (simp add: has_key_def map_of_eq_None_iff)

lemma gen_type_id_apply: "gen_type_id s = Inr (ts_next_id s, s\<lparr>ts_next_id := ts_next_id s + 1\<rparr>)"
  by (simp add: gen_type_id_def bnd_def m_eval)

lemma int32_next: "0 \<le> k \<Longrightarrow> k < INT_MAX \<Longrightarrow> sint (word_of_int k + 1 :: 32 word) = k + 1"
proof -
  assume k: "0 \<le> k" "k < INT_MAX"
  have "(word_of_int k + 1 :: 32 word) = word_of_int (k + 1)" by simp
  then have "sint (word_of_int k + 1 :: 32 word) = signed_take_bit 31 (k + 1)" by (simp only: sint_sbintrunc') simp
  also have "\<dots> = k + 1" using k by (intro signed_take_bit_int_eq_self) simp_all
  finally show ?thesis .
qed

text \<open>Below the bound the counter is the 32-bit counter of the code.\<close>

lemma gen_type_id_in_int:
  assumes "types_wf s" and "ts_next_id s < INT_MAX"
  shows "ok gen_type_id s (\<lambda>k s'. k = ts_next_id s \<and> ts_next_id s' = sint (word_of_int k + 1 :: 32 word))"
  using types_wfD(1) [OF assms(1)] assms(2) int32_next [of "ts_next_id s"] by (simp add: ok_def gen_type_id_apply)

lemma baseless_update:
  "baseless bs b \<Longrightarrow> vt_bases (vt_info v) = [] \<or> k \<notin> fst ` set bs \<Longrightarrow> baseless (AList.update k v bs) b"
  by (auto simp: baseless_def update_conv' map_of_eq_None_iff [symmetric])

text \<open>Entering an object in the built-in simple table.\<close>

definition with_builtin :: "TypeID \<Rightarrow> VarType \<Rightarrow> 'z type_system_scheme \<Rightarrow> 'z type_system_scheme" where
  "with_builtin k v s = s\<lparr>s_builted_simple_types := AList.update k v (s_builted_simple_types s)\<rparr>"

lemma put_builtin_simple_apply: "put_builtin_simple k v s = Inr ((), with_builtin k v s)"
  by (simp add: put_builtin_simple_def with_builtin_def m_eval)

lemma types_wf_builtin:
  assumes wf: "types_wf s" and v: "entry_ok (ts_next_id s) (s_builted_simple_types s) k v" "simple_kind v"
    and k: "k \<in> fst ` set (s_builted_simple_types s) \<and> vt_bases (vt_info v) = [] \<or> k \<notin> fst ` set (all_entries s)"
  shows "types_wf (with_builtin k v s)"
proof -
  let ?bs = "s_builted_simple_types s" and ?s = "with_builtin k v s"
  have bl: "baseless ?bs b \<Longrightarrow> baseless (s_builted_simple_types ?s) b" for b
    using baseless_update [of ?bs b v k] k by (auto simp: with_builtin_def all_entries_def)
  have sub: "set (all_entries ?s) \<subseteq> insert (k, v) (set (all_entries s))"
    "set (s_builted_simple_types ?s) \<subseteq> insert (k, v) (set ?bs)"
    using update_set [of k v ?bs] by (auto simp: with_builtin_def all_entries_def)
  have keys: "fst ` set (all_entries ?s) = insert k (fst ` set (all_entries s))"
    "fst ` set (s_builted_simple_types ?s) = insert k (fst ` set ?bs)"
    by (simp_all add: with_builtin_def all_entries_def image_Un update_keys_set)
  show ?thesis
  proof (rule types_wfI)
    show "10 \<le> ts_next_id ?s" using types_wfD(1) [OF wf] by (simp add: with_builtin_def)
    show "distinct (map fst (all_entries ?s))"
    proof (cases "k \<in> fst ` set ?bs")
      case True
      then have "map fst (all_entries ?s) = map fst (all_entries s)"
        using update_old_keys [OF True] by (simp add: with_builtin_def all_entries_def)
      then show ?thesis using types_wfD(2) [OF wf] by simp
    next
      case False
      then have "k \<notin> fst ` set (all_entries s)" using k by auto
      then show ?thesis
        using types_wfD(2) [OF wf] False by (auto simp: with_builtin_def all_entries_def update_new)
    qed
    show "k' \<in> fst ` set (s_builted_simple_types ?s) \<or> 10 \<le> k'" if "k' \<in> fst ` set (all_entries ?s)" for k'
      using that types_wfD(3) [OF wf, of k'] unfolding keys by blast
    show "entry_ok (ts_next_id ?s) (s_builted_simple_types ?s) k' v'" if "(k', v') \<in> set (all_entries ?s)" for k' v'
    proof -
      have "entry_ok (ts_next_id s) ?bs k' v'" using that sub(1) v(1) types_wfD(4) [OF wf] by blast
      then show ?thesis by (rule entry_ok_mono) (use bl in \<open>auto simp: with_builtin_def\<close>)
    qed
    show "simple_kind v'" if "(k', v') \<in> set (s_builted_simple_types ?s) \<union> set (simple_var_types ?s)" for k' v'
    proof (cases "(k', v') = (k, v)")
      case False
      then have "(k', v') \<in> set ?bs \<union> set (simple_var_types s)" using that sub(2) by (auto simp: with_builtin_def)
      then show ?thesis by (rule types_wfD(5) [OF wf])
    qed (use v(2) in simp)
    show "is_compound_type v'" if "(k', v') \<in> set (s_builted_compound_types ?s) \<union> set (compound_types ?s)" for k' v'
      using that types_wfD(6) [OF wf] by (simp add: with_builtin_def)
    show "is_function_type v'" if "(k', v') \<in> set (s_builted_function_types ?s) \<union> set (function_types ?s)" for k' v'
      using that types_wfD(7) [OF wf] by (simp add: with_builtin_def)
  qed
qed

lemma all_entries_next [simp]: "all_entries (s\<lparr>ts_next_id := n\<rparr>) = all_entries s"
  by (simp add: all_entries_def)

lemma types_wf_next:
  assumes "types_wf s" and "ts_next_id s \<le> n"
  shows "types_wf (s\<lparr>ts_next_id := n\<rparr>)"
proof (rule types_wfI, goal_cases)
  case (4 k v)
  then show ?case using types_wfD(4) [OF assms(1), of k v] assms(2) by (simp add: entry_ok_mono)
qed (use types_wfD [OF assms(1)] assms(2) in simp_all)

lemma fresh_id: "types_wf s \<Longrightarrow> ts_next_id s \<le> k \<Longrightarrow> k \<notin> fst ` set (all_entries s)"
  using types_wf_bound by fastforce

lemma with_builtin_lookup: "map_of (s_builted_simple_types (with_builtin k v s)) = (map_of (s_builted_simple_types s))(k \<mapsto> v)"
  by (simp add: with_builtin_def update_conv')

section \<open>Construction establishes it\<close>

definition new_basic :: "TypeID \<Rightarrow> string \<Rightarrow> 'z type_system_scheme \<Rightarrow> 'z type_system_scheme" where
  "new_basic k line s = with_builtin k (make_basic_type k line) (s\<lparr>ts_next_id := k + 1\<rparr>)"

lemma add_basic_type_apply:
  "add_basic_type line u s = Inr ((), if line = [] then s else new_basic (ts_next_id s) line s)"
  by (simp add: add_basic_type_def bnd_def gen_type_id_apply put_builtin_simple_apply new_basic_def return_apply)

lemma make_basic_entry: "0 < k \<Longrightarrow> k < n \<Longrightarrow> entry_ok n bs k (make_basic_type k line)"
  by (simp add: entry_ok_def make_basic_type_def)

lemma make_basic_kind [simp]: "simple_kind (make_basic_type k line)" "vt_bases (vt_info (make_basic_type k line)) = []"
  "vt_name (vt_info (make_basic_type k line)) = line"
  by (simp_all add: simple_kind_def make_basic_type_def is_compound_type_def is_function_type_def)

lemma types_wf_new_basic:
  assumes "types_wf s"
  shows "types_wf (new_basic (ts_next_id s) line s)"
  unfolding new_basic_def
proof (rule types_wf_builtin [OF types_wf_next [OF assms]])
  show "ts_next_id s \<in> fst ` set (s_builted_simple_types (s\<lparr>ts_next_id := ts_next_id s + 1\<rparr>)) \<and>
      vt_bases (vt_info (make_basic_type (ts_next_id s) line)) = [] \<or>
      ts_next_id s \<notin> fst ` set (all_entries (s\<lparr>ts_next_id := ts_next_id s + 1\<rparr>))"
    using fresh_id [OF assms] by (simp add: all_entries_def)
qed (use types_wfD(1) [OF assms] in \<open>simp_all add: make_basic_entry\<close>)

lemma types_wf_CreateBuiltinType:
  assumes "types_wf s" and "0 < k" and "k < 10"
  shows "types_wf (with_builtin k (make_basic_type k line) s)"
proof (rule types_wf_builtin [OF assms(1)])
  show "entry_ok (ts_next_id s) (s_builted_simple_types s) k (make_basic_type k line)"
    using types_wfD(1) [OF assms(1)] assms(2,3) by (intro make_basic_entry) simp_all
  have "k \<in> fst ` set (all_entries s) \<Longrightarrow> k \<in> fst ` set (s_builted_simple_types s)"
    using types_wfD(3) [OF assms(1), of k] assms(3) by auto
  then show "k \<in> fst ` set (s_builted_simple_types s) \<and> vt_bases (vt_info (make_basic_type k line)) = [] \<or>
      k \<notin> fst ` set (all_entries s)" by auto
qed simp

definition with_basics :: "string list \<Rightarrow> 'z type_system_scheme \<Rightarrow> 'z type_system_scheme" where
  "with_basics ls s = fold (\<lambda>line s. if line = [] then s else new_basic (ts_next_id s) line s) ls s"

definition with_specials :: "'z type_system_scheme \<Rightarrow> 'z type_system_scheme" where
  "with_specials s =
     (let put = (\<lambda>k s. with_builtin k (make_basic_type k (special_name k)) s)
      in put kAnyType (put kAllFunction (put kAllCompoundType (put kAllTypes s))))"

lemma add_basic_types: "foldM add_basic_type ls () s = Inr ((), with_basics ls s)"
  by (induction ls arbitrary: s) (simp_all add: return_apply bnd_def add_basic_type_apply with_basics_def)

definition constructed :: "configuration \<Rightarrow> 'z type_system_scheme \<Rightarrow> 'z type_system_scheme" where
  "constructed c s =
     with_specials (with_basics (GetBasicTypeStr c)
       (s\<lparr>simple_var_types := [], compound_types := [], function_types := [], pointer_map := []\<rparr>))"

lemma new_TypeSystem_apply: "is_init c \<Longrightarrow> new_TypeSystem c s = Inr ((), constructed c s)"
  by (simp add: new_TypeSystem_def init_basic_types_def bnd_def modify_apply require_apply add_basic_types
      CreateBuiltinType_def put_builtin_simple_apply constructed_def with_specials_def Let_def special_name_def)

lemma types_wf_cleared:
  assumes wf: "types_wf s"
  shows "types_wf (s\<lparr>simple_var_types := [], compound_types := [], function_types := [], pointer_map := []\<rparr>)"
    (is "types_wf ?s")
proof -
  have e: "all_entries s = all_entries ?s @ simple_var_types s @ compound_types s @ function_types s"
    by (simp add: all_entries_def)
  then have sub: "set (all_entries ?s) \<subseteq> set (all_entries s)" by auto
  show ?thesis
  proof (rule types_wfI)
    show "distinct (map fst (all_entries ?s))"
      using types_wfD(2) [OF wf] unfolding e by simp
    show "k \<in> fst ` set (s_builted_simple_types ?s) \<or> 10 \<le> k" if "k \<in> fst ` set (all_entries ?s)" for k
      using types_wfD(3) [OF wf, of k] image_mono [OF sub, of fst] that by auto
    show "entry_ok (ts_next_id ?s) (s_builted_simple_types ?s) k v" if "(k, v) \<in> set (all_entries ?s)" for k v
      using types_wfD(4) [OF wf] that sub by auto
    show "simple_kind v" if "(k, v) \<in> set (s_builted_simple_types ?s) \<union> set (simple_var_types ?s)" for k v
      using that by (intro types_wfD(5) [OF wf, of k]) simp
    show "is_compound_type v" if "(k, v) \<in> set (s_builted_compound_types ?s) \<union> set (compound_types ?s)" for k v
      using that by (intro types_wfD(6) [OF wf, of k]) simp
    show "is_function_type v" if "(k, v) \<in> set (s_builted_function_types ?s) \<union> set (function_types ?s)" for k v
      using that by (intro types_wfD(7) [OF wf, of k]) simp
  qed (use types_wfD(1) [OF wf] in simp)
qed

lemma types_wf_with_basics: "types_wf s \<Longrightarrow> types_wf (with_basics ls s)"
  unfolding with_basics_def by (induction ls arbitrary: s) (simp_all add: types_wf_new_basic)

lemma types_wf_with_specials: "types_wf s \<Longrightarrow> types_wf (with_specials s)"
  unfolding with_specials_def Let_def by (intro types_wf_CreateBuiltinType) simp_all

lemma specials_with_specials: "specials (with_specials s)"
  by (simp add: specials_def baseless_def with_specials_def Let_def with_builtin_lookup special_name_def)

lemma types_wf_constructed: "types_wf s \<Longrightarrow> types_wf (constructed c s)"
  unfolding constructed_def by (intro types_wf_with_specials types_wf_with_basics types_wf_cleared)

lemma specials_constructed: "specials (constructed c s)"
  unfolding constructed_def by (rule specials_with_specials)

section \<open>Creating types keeps it\<close>

lemma kind_cases:
  obtains (simple) "simple_kind v" "\<not> is_compound_type v" "\<not> is_function_type v"
  | (compound) "is_compound_type v" "\<not> simple_kind v" "\<not> is_function_type v"
  | (func) "is_function_type v" "\<not> simple_kind v" "\<not> is_compound_type v"
  by (cases v) (auto simp: simple_kind_def is_compound_type_def is_function_type_def)

lemma types_wf_extend:
  assumes wf: "types_wf s" and k: "k = ts_next_id s"
    and v: "entry_ok (k + 1) (s_builted_simple_types s) k v"
    and b: "s_builted_simple_types s' = s_builted_simple_types s"
      "s_builted_compound_types s' = s_builted_compound_types s"
      "s_builted_function_types s' = s_builted_function_types s" "ts_next_id s' = k + 1"
    and m: "simple_var_types s' = simple_var_types s @ (if simple_kind v then [(k, v)] else [])"
      "compound_types s' = compound_types s @ (if is_compound_type v then [(k, v)] else [])"
      "function_types s' = function_types s @ (if is_function_type v then [(k, v)] else [])"
  shows "types_wf s'" and "GetTypePtrByID s' = (GetTypePtrByID s)(k \<mapsto> v)"
proof -
  have fr: "k \<notin> fst ` set (all_entries s)" using fresh_id [OF wf] k by simp
  have st: "set (all_entries s') = insert (k, v) (set (all_entries s))"
    by (cases v rule: kind_cases) (auto simp: all_entries_def b m)
  have dk: "distinct (map fst (all_entries s'))"
    using types_wfD(2) [OF wf] fr by (cases v rule: kind_cases) (auto simp: all_entries_def b m)
  show "types_wf s'"
  proof (rule types_wfI)
    show "distinct (map fst (all_entries s'))" by (rule dk)
    show "10 \<le> ts_next_id s'" using types_wfD(1) [OF wf] b k by simp
    show "k' \<in> fst ` set (s_builted_simple_types s') \<or> 10 \<le> k'" if "k' \<in> fst ` set (all_entries s')" for k'
      using that types_wfD(1,3) [OF wf] k unfolding st b by auto
    show "entry_ok (ts_next_id s') (s_builted_simple_types s') k' v'" if "(k', v') \<in> set (all_entries s')" for k' v'
      using that v types_wfD(4) [OF wf, of k' v'] k unfolding st b by (auto intro: entry_ok_mono)
    show "simple_kind v'" if "(k', v') \<in> set (s_builted_simple_types s') \<union> set (simple_var_types s')" for k' v'
      using that types_wfD(5) [OF wf, of k' v'] by (auto simp: b m split: if_splits)
    show "is_compound_type v'" if "(k', v') \<in> set (s_builted_compound_types s') \<union> set (compound_types s')" for k' v'
      using that types_wfD(6) [OF wf, of k' v'] by (auto simp: b m split: if_splits)
    show "is_function_type v'" if "(k', v') \<in> set (s_builted_function_types s') \<union> set (function_types s')" for k' v'
      using that types_wfD(7) [OF wf, of k' v'] by (auto simp: b m split: if_splits)
  qed
  show "GetTypePtrByID s' = (GetTypePtrByID s)(k \<mapsto> v)"
  proof
    fix j
    have "map_of (all_entries s') j = Some w \<longleftrightarrow> ((map_of (all_entries s))(k \<mapsto> v)) j = Some w" for w
      using dk types_wfD(2) [OF wf] fr st by (auto simp: map_of_eq_Some_iff rev_image_eqI)
    then show "GetTypePtrByID s' j = ((GetTypePtrByID s)(k \<mapsto> v)) j"
      by (simp add: GetTypePtrByID_all) (metis not_Some_eq)
  qed
qed

text \<open>Equality up to the list of derived types.\<close>

definition forget_derived :: "VarType \<Rightarrow> VarType" where
  "forget_derived = map_info (\<lambda>i. i\<lparr>vt_derived := []\<rparr>)"

definition same_types :: "'z type_system_scheme \<Rightarrow> 'z type_system_scheme \<Rightarrow> bool" where
  "same_types s s' \<longleftrightarrow>
     (\<forall>k. map_option forget_derived (GetTypePtrByID s' k) = map_option forget_derived (GetTypePtrByID s k))"

definition derived_pushed :: "TypeID \<Rightarrow> TypeID \<Rightarrow> 'z type_system_scheme \<Rightarrow> 'z type_system_scheme" where
  "derived_pushed b k s = s\<lparr>s_builted_simple_types := AList.map_entry b
     (map_info (\<lambda>i. i\<lparr>vt_derived := vt_derived i @ [k]\<rparr>)) (s_builted_simple_types s)\<rparr>"

lemma push_derived_apply:
  "baseless (s_builted_simple_types s) b \<Longrightarrow> push_derived b k s = Inr ((), derived_pushed b k s)"
  by (auto simp: push_derived_def bnd_def m_eval GetTypePtrByID_def has_key_def baseless_def modify_type_def
      Let_def derived_pushed_def)

lemma map_entry_keys [simp]: "map fst (AList.map_entry b f m) = map fst m"
  by (induction m) auto

lemma map_entry_set: "(k, v) \<in> set (AList.map_entry b f m) \<Longrightarrow> \<exists>w. (k, w) \<in> set m \<and> (v = w \<or> v = f w)"
  by (induction m) (auto split: if_splits)

lemma derived_info [simp]:
  "vt_id (vt_info (map_info (\<lambda>i. i\<lparr>vt_derived := f i\<rparr>) w)) = vt_id (vt_info w)"
  "vt_name (vt_info (map_info (\<lambda>i. i\<lparr>vt_derived := f i\<rparr>) w)) = vt_name (vt_info w)"
  "vt_bases (vt_info (map_info (\<lambda>i. i\<lparr>vt_derived := f i\<rparr>) w)) = vt_bases (vt_info w)"
  "simple_kind (map_info (\<lambda>i. i\<lparr>vt_derived := f i\<rparr>) w) = simple_kind w"
  "forget_derived (map_info (\<lambda>i. i\<lparr>vt_derived := f i\<rparr>) w) = forget_derived w"
  "entry_ok n bs k (map_info (\<lambda>i. i\<lparr>vt_derived := f i\<rparr>) w) = entry_ok n bs k w"
  by (cases w; simp add: simple_kind_def is_compound_type_def is_function_type_def forget_derived_def entry_ok_def)+

lemma derived_lookup:
  "map_of (s_builted_simple_types (derived_pushed b k s)) j =
     (if j = b then map_option (map_info (\<lambda>i. i\<lparr>vt_derived := vt_derived i @ [k]\<rparr>))
                      (map_of (s_builted_simple_types s) b)
      else map_of (s_builted_simple_types s) j)"
  by (simp add: derived_pushed_def map_of_map_entry split: option.split)

lemma baseless_derived [simp]:
  "baseless (s_builted_simple_types (derived_pushed b k s)) j = baseless (s_builted_simple_types s) j"
  by (auto simp: baseless_def derived_lookup)

lemma types_wf_derived:
  assumes wf: "types_wf s"
  shows "types_wf (derived_pushed b k s)" and "same_types s (derived_pushed b k s)"
proof -
  let ?s = "derived_pushed b k s"
  let ?f = "map_info (\<lambda>i. i\<lparr>vt_derived := vt_derived i @ [k]\<rparr>)"
  have keys: "map fst (all_entries ?s) = map fst (all_entries s)"
    "map fst (s_builted_simple_types ?s) = map fst (s_builted_simple_types s)"
    by (simp_all add: all_entries_def derived_pushed_def)
  have fs: "fst ` set (all_entries ?s) = fst ` set (all_entries s)"
    "fst ` set (s_builted_simple_types ?s) = fst ` set (s_builted_simple_types s)"
    using keys by (metis list.set_map)+
  have en: "\<exists>w. (j, w) \<in> set (all_entries s) \<and> (v = w \<or> v = ?f w)" if "(j, v) \<in> set (all_entries ?s)" for j v
    using that by (auto simp: all_entries_def derived_pushed_def dest!: map_entry_set)
  show "types_wf ?s"
  proof (rule types_wfI)
    show "10 \<le> ts_next_id ?s" using types_wfD(1) [OF wf] by (simp add: derived_pushed_def)
    show "distinct (map fst (all_entries ?s))" unfolding keys by (rule types_wfD(2) [OF wf])
    show "j \<in> fst ` set (s_builted_simple_types ?s) \<or> 10 \<le> j" if "j \<in> fst ` set (all_entries ?s)" for j
      using that types_wfD(3) [OF wf, of j] unfolding fs by simp
    show "entry_ok (ts_next_id ?s) (s_builted_simple_types ?s) j v" if m: "(j, v) \<in> set (all_entries ?s)" for j v
    proof -
      obtain w where w: "(j, w) \<in> set (all_entries s)" "v = w \<or> v = ?f w" using en [OF m] by blast
      then have "entry_ok (ts_next_id s) (s_builted_simple_types s) j v"
        using types_wfD(4) [OF wf w(1)] by auto
      then show ?thesis
        by (rule entry_ok_mono) (simp_all, simp add: derived_pushed_def)
    qed
    show "simple_kind v" if "(j, v) \<in> set (s_builted_simple_types ?s) \<union> set (simple_var_types ?s)" for j v
      using that types_wfD(5) [OF wf, of j] by (auto simp: derived_pushed_def dest!: map_entry_set)
    show "is_compound_type v" if "(j, v) \<in> set (s_builted_compound_types ?s) \<union> set (compound_types ?s)" for j v
      using that by (intro types_wfD(6) [OF wf, of j]) (simp add: derived_pushed_def)
    show "is_function_type v" if "(j, v) \<in> set (s_builted_function_types ?s) \<union> set (function_types ?s)" for j v
      using that by (intro types_wfD(7) [OF wf, of j]) (simp add: derived_pushed_def)
  qed
  show "same_types s ?s"
    by (auto simp: same_types_def GetTypePtrByID_all all_entries_def derived_pushed_def map_of_map_entry map_add_def
        split: option.splits)
qed

lemma specials_derived: "specials s \<Longrightarrow> specials (derived_pushed b k s)"
  by (auto simp: specials_def derived_lookup)

lemma CreateFunctionType_apply:
  assumes "types_wf s" and "specials s"
  shows "CreateFunctionType name ret args names s =
    (let k = ts_next_id s
     in Inr (k, derived_pushed kAllFunction k (s\<lparr>ts_next_id := k + 1, function_types := function_types s @
          [(k, FunctionType \<lparr>vt_id = k, vt_name = name, vt_bases = [kAllFunction], vt_derived = []\<rparr> ret args names)]\<rparr>)))"
proof -
  have "ts_next_id s \<notin> fst ` set (function_types s)"
    using fresh_id [OF assms(1), of "ts_next_id s"] by (auto simp: all_entries_def)
  then show ?thesis
    using assms(2)
    by (simp add: CreateFunctionType_def bnd_def gen_type_id_apply modify_apply update_new push_derived_apply
        specials_def Let_def return_apply)
qed

lemma GetFunctionType_derived [simp]: "GetFunctionType (derived_pushed b k s) = GetFunctionType s"
  by (simp add: fun_eq_iff GetFunctionType_def derived_pushed_def)

lemma GetCompoundType_derived [simp]: "GetCompoundType (derived_pushed b k s) = GetCompoundType s"
  by (simp add: fun_eq_iff GetCompoundType_def derived_pushed_def)

lemma GetTypePtrByID_derived:
  "has_key (s_builted_simple_types s) b \<Longrightarrow> GetTypePtrByID (derived_pushed b k s) j =
     (if j = b then map_option (map_info (\<lambda>i. i\<lparr>vt_derived := vt_derived i @ [k]\<rparr>)) (GetTypePtrByID s b)
      else GetTypePtrByID s j)"
proof -
  have tables: "s_builted_compound_types (derived_pushed b k s) = s_builted_compound_types s"
    "s_builted_function_types (derived_pushed b k s) = s_builted_function_types s"
    "simple_var_types (derived_pushed b k s) = simple_var_types s"
    "compound_types (derived_pushed b k s) = compound_types s" "function_types (derived_pushed b k s) = function_types s"
    by (simp_all add: derived_pushed_def)
  show "has_key (s_builted_simple_types s) b \<Longrightarrow> ?thesis"
    unfolding GetTypePtrByID_def has_key_def derived_lookup tables by auto
qed

text \<open>What creating a type does not touch besides: the static compound types and the allocator.\<close>

definition kept :: "'z type_system_scheme \<Rightarrow> umap \<times> nat" where
  "kept s = (s_builted_compound_types s, rt_next s)"

lemma ok_CreateFunctionType:
  assumes wf: "types_wf s" and sp: "specials s"
  shows "ok (CreateFunctionType name ret args names) s (\<lambda>k s'. k = ts_next_id s \<and> types_wf s' \<and> specials s' \<and>
     GetFunctionType s' k =
       Some (FunctionType \<lparr>vt_id = k, vt_name = name, vt_bases = [kAllFunction], vt_derived = []\<rparr> ret args names) \<and>
     (\<forall>j. j \<noteq> k \<longrightarrow> map_option forget_derived (GetTypePtrByID s' j) = map_option forget_derived (GetTypePtrByID s j)) \<and>
     type_system.more s' = type_system.more s \<and> kept s' = kept s)"
proof -
  let ?k = "ts_next_id s"
  let ?v = "FunctionType \<lparr>vt_id = ?k, vt_name = name, vt_bases = [kAllFunction], vt_derived = []\<rparr> ret args names"
  let ?s = "s\<lparr>ts_next_id := ?k + 1, function_types := function_types s @ [(?k, ?v)]\<rparr>"
  have kind: "is_function_type ?v" "\<not> is_compound_type ?v" "\<not> simple_kind ?v"
    by (simp_all add: is_function_type_def is_compound_type_def simple_kind_def)
  have en: "entry_ok (?k + 1) (s_builted_simple_types s) ?k ?v"
    using types_wfD(1) [OF wf] sp by (simp add: entry_ok_def specials_def)
  note X = types_wf_extend [OF wf refl en, of ?s]
  have wf': "types_wf ?s" and lk: "GetTypePtrByID ?s = (GetTypePtrByID s)(?k \<mapsto> ?v)"
    by (rule X(1); simp add: kind) (rule X(2); simp add: kind)
  have fr: "?k \<notin> fst ` set (function_types s)"
    using fresh_id [OF wf, of ?k] by (auto simp: all_entries_def)
  have fr': "map_of (function_types s) ?k = None" using fr by (simp add: map_of_eq_None_iff)
  have gf: "GetFunctionType ?s ?k = Some ?v"
    using fr' by (simp add: GetFunctionType_def has_key_def map_add_def)
  have "same_types ?s (derived_pushed kAllFunction ?k ?s)" by (rule types_wf_derived(2) [OF wf'])
  then have "map_option forget_derived (GetTypePtrByID (derived_pushed kAllFunction ?k ?s) j) =
      map_option forget_derived (GetTypePtrByID s j)" if "j \<noteq> ?k" for j
    using that by (simp add: same_types_def lk)
  moreover have "specials (derived_pushed kAllFunction ?k ?s)"
    by (rule specials_derived) (use sp in \<open>simp add: specials_def\<close>)
  moreover have "type_system.more (derived_pushed kAllFunction ?k ?s) = type_system.more s"
      "kept (derived_pushed kAllFunction ?k ?s) = kept s"
    by (simp_all add: derived_pushed_def kept_def)
  ultimately show ?thesis
    using types_wf_derived(1) [OF wf', of kAllFunction ?k] gf
    unfolding ok_def CreateFunctionType_apply [OF wf sp] Let_def sum.case prod.case by simp
qed

lemma om_at_fold_push:
  "om_at [] (fold (\<lambda>(t, n). om_push t n) xs m) k = om_at [] m k @ map snd (filter (\<lambda>x. fst x = k) xs)"
  by (induction xs arbitrary: m) (auto simp: om_at_push)

lemma om_sorted_fold_push: "om_sorted m \<Longrightarrow> om_sorted (fold (\<lambda>(t, n). om_push t n) xs m)"
  by (induction xs arbitrary: m) (auto simp: om_sorted_push)

definition member_map :: "TypeID list \<Rightarrow> string list \<Rightarrow> (TypeID, string list) omap" where
  "member_map members member_names = fold (\<lambda>(t, n). om_push t n) (zip members member_names) []"

lemma ok_CreateCompoundType:
  assumes wf: "types_wf s" and sp: "specials s" and len: "length members = length member_names"
  shows "ok (CreateCompoundType name members member_names) s (\<lambda>k s'. k = ts_next_id s \<and> types_wf s' \<and> specials s' \<and>
     GetCompoundType s' k = Some (CompoundType \<lparr>vt_id = k, vt_name = name, vt_bases = [], vt_derived = []\<rparr>
       (member_map members member_names)) \<and>
     (\<forall>j. j \<noteq> k \<longrightarrow> GetTypePtrByID s' j = GetTypePtrByID s j) \<and>
     type_system.more s' = type_system.more s \<and> kept s' = kept s)"
proof -
  let ?k = "ts_next_id s"
  let ?v = "CompoundType \<lparr>vt_id = ?k, vt_name = name, vt_bases = [], vt_derived = []\<rparr> (member_map members member_names)"
  let ?s = "s\<lparr>ts_next_id := ?k + 1, compound_types := compound_types s @ [(?k, ?v)]\<rparr>"
  have kind: "is_compound_type ?v" "\<not> is_function_type ?v" "\<not> simple_kind ?v"
    by (simp_all add: is_function_type_def is_compound_type_def simple_kind_def)
  have en: "entry_ok (?k + 1) (s_builted_simple_types s) ?k ?v"
    using types_wfD(1) [OF wf] by (simp add: entry_ok_def)
  note X = types_wf_extend [OF wf refl en, of ?s]
  have wf': "types_wf ?s" and lk: "GetTypePtrByID ?s = (GetTypePtrByID s)(?k \<mapsto> ?v)"
    by (rule X(1); simp add: kind) (rule X(2); simp add: kind)
  have fr: "?k \<notin> fst ` set (compound_types s)"
    using fresh_id [OF wf, of ?k] by (auto simp: all_entries_def)
  have fr': "map_of (compound_types s) ?k = None" using fr by (simp add: map_of_eq_None_iff)
  have gf: "GetCompoundType ?s ?k = Some ?v"
    using fr' by (simp add: GetCompoundType_def has_key_def map_add_def)
  have ap: "CreateCompoundType name members member_names s = Inr (?k, ?s)"
    using len fr by (simp add: CreateCompoundType_def bnd_def gen_type_id_apply modify_apply require_apply
        return_apply update_new member_map_def)
  have "specials ?s" using sp by (simp add: specials_def)
  then show ?thesis using wf' gf lk unfolding ok_def ap sum.case prod.case by (simp add: kept_def)
qed

section \<open>Names\<close>

lemma iter_set: "walks_all ord \<Longrightarrow> set (iter ord m) = {(k, the (map_of m k)) |k. k \<in> fst ` set m}"
  by (auto simp: iter_def walks_all_def)

lemma iter_iff: "walks_all ord \<Longrightarrow> (k, v) \<in> set (iter ord m) \<longleftrightarrow> map_of m k = Some v"
  unfolding iter_set by (cases "map_of m k") (auto simp: map_of_eq_None_iff dest: map_of_SomeD intro: rev_image_eqI)

lemma find_by_name_Some:
  assumes "walks_all ord" and "find_by_name ord m str = Some k"
  shows "\<exists>v. map_of m k = Some v \<and> vt_name (vt_info v) = str"
proof -
  obtain x where x: "find (\<lambda>(k, v). vt_name (vt_info v) = str) (iter ord m) = Some x" "fst x = k"
    using assms(2) by (auto simp: find_by_name_def)
  have nm: "x \<in> set (iter ord m) \<and> vt_name (vt_info (snd x)) = str"
    using x(1) unfolding find_Some_iff by (metis (mono_tags, lifting) case_prod_beta nth_mem)
  then show ?thesis using iter_iff [OF assms(1), of "fst x" "snd x" m] x(2) by auto
qed

lemma find_by_name_None:
  assumes "walks_all ord" and "find_by_name ord m str = None" and "map_of m k = Some v"
  shows "vt_name (vt_info v) \<noteq> str"
  using assms(2,3) iter_iff [OF assms(1), of k v m] by (auto simp: find_by_name_def find_None_iff)

lemma table_lookup:
  assumes "types_wf s" and "map_of m k = Some v" and "set m \<subseteq> set (all_entries s)"
  shows "GetTypePtrByID s k = Some v"
proof -
  have "(k, v) \<in> set (all_entries s)" using assms(3) map_of_SomeD [OF assms(2)] by blast
  then show ?thesis using types_wfD(2) [OF assms(1)] by (simp add: GetTypePtrByID_all)
qed

lemma GetTypeIDByStr_spec:
  assumes wf: "types_wf s" and w: "walks_all ord"
  shows "if GetTypeIDByStr ord s str = kNotExist then \<forall>k v. GetTypePtrByID s k = Some v \<longrightarrow> vt_name (vt_info v) \<noteq> str
     else \<exists>v. GetTypePtrByID s (GetTypeIDByStr ord s str) = Some v \<and> vt_name (vt_info v) = str"
proof -
  let ?tables = "[s_builted_simple_types s, s_builted_compound_types s, s_builted_function_types s,
    simple_var_types s, compound_types s, function_types s]"
  have found: "\<exists>v. GetTypePtrByID s k = Some v \<and> vt_name (vt_info v) = str \<and> k \<noteq> kNotExist"
    if m: "m \<in> set ?tables" and f: "find_by_name ord m str = Some k" for m k
  proof -
    obtain v where v: "map_of m k = Some v" "vt_name (vt_info v) = str"
      using find_by_name_Some [OF w f] by blast
    have "set m \<subseteq> set (all_entries s)" using m by (auto simp: all_entries_def)
    then have l: "GetTypePtrByID s k = Some v" by (rule table_lookup [OF wf v(1)])
    then show ?thesis using v(2) types_wf_entry [OF wf l] by (auto simp: entry_ok_def)
  qed
  have none: "vt_name (vt_info v) \<noteq> str"
    if "\<forall>m\<in>set ?tables. find_by_name ord m str = None" and "GetTypePtrByID s k = Some v" for k v
  proof -
    from that(2) have "(k, v) \<in> set (all_entries s)" by (auto simp: GetTypePtrByID_all dest: map_of_SomeD)
    then obtain m where m: "m \<in> set ?tables" "(k, v) \<in> set m" by (auto simp: all_entries_def)
    have "distinct (map fst m)" using m(1) types_wfD(2) [OF wf] by (auto simp: all_entries_def)
    then have "map_of m k = Some v" using m(2) by simp
    then show ?thesis by (rule find_by_name_None [OF w bspec [OF that(1) m(1)]])
  qed
  let ?r = "\<lambda>k. \<exists>v. GetTypePtrByID s k = Some v \<and> vt_name (vt_info v) = str"
  have step: "P (case find_by_name ord m str of Some k \<Rightarrow> k | None \<Rightarrow> z)"
    if "m \<in> set ?tables" "\<And>k. k \<noteq> kNotExist \<Longrightarrow> ?r k \<Longrightarrow> P k" "find_by_name ord m str = None \<Longrightarrow> P z" for m P z
    using found [OF that(1)] that(2,3) by (cases "find_by_name ord m str") auto
  show ?thesis
    unfolding GetTypeIDByStr_def
    by (rule step, simp, simp, rule step, simp, simp, rule step, simp, simp, rule step, simp, simp,
        rule step, simp, simp, rule step, simp, simp, use none in simp)
qed

section \<open>Derivation between types\<close>

lemma types_wf_id: "types_wf s \<Longrightarrow> GetTypePtrByID s k = Some v \<Longrightarrow> vt_id (vt_info v) = k"
  using types_wf_entry by (auto simp: entry_ok_def)

lemma types_wf_base:
  assumes "types_wf s" and "GetTypePtrByID s k = Some v" and "b \<in> set (vt_bases (vt_info v))"
  shows "\<exists>w. GetTypePtrByID s b = Some w \<and> vt_bases (vt_info w) = []"
proof -
  have "baseless (s_builted_simple_types s) b"
    using types_wf_entry [OF assms(1,2)] assms(3) by (auto simp: entry_ok_def)
  then show ?thesis by (auto simp: baseless_def GetTypePtrByID_def has_key_def)
qed

lemma derive_loop_bases:
  assumes "types_wf s" and "GetTypePtrByID s btype = Some w"
    and "\<And>t. t \<in> set ts \<Longrightarrow> t \<noteq> dtype \<and> (\<exists>u. GetTypePtrByID s t = Some u \<and> vt_bases (vt_info u) = [])"
  shows "derive_loop (Suc (Suc n)) s dtype btype ts res = Inr (res \<or> btype \<in> set ts)"
  using assms(3)
proof (induction ts arbitrary: res)
  case (Cons t ts)
  obtain u where u: "GetTypePtrByID s t = Some u" "vt_bases (vt_info u) = []" "t \<noteq> dtype"
    using Cons.prems by auto
  have "can_derive (Suc (Suc n)) s t btype = Inr (btype = t)"
    using u(1,2) types_wf_id [OF assms(1) u(1)] types_wf_id [OF assms(1,2)]
    by (simp add: same_object_def assms(2))
  then show ?case using Cons.IH Cons.prems u(3) by simp
qed simp

lemma CanDeriveFrom_eq:
  assumes "types_wf s"
  shows "CanDeriveFrom s dtype btype =
    (case (GetTypePtrByID s dtype, GetTypePtrByID s btype) of
       (Some d, Some b) \<Rightarrow> Inr (dtype = btype \<or> btype \<in> set (vt_bases (vt_info d)))
     | (None, None) \<Rightarrow> Inr True
     | _ \<Rightarrow> Inl Assert_failed)"
proof -
  have 3: "(3 :: nat) = Suc (Suc (Suc 0))" by simp
  show ?thesis
  proof (cases "GetTypePtrByID s dtype")
    case None
    then show ?thesis
      by (cases "GetTypePtrByID s btype") (simp_all add: CanDeriveFrom_def 3 same_object_def)
  next
    case (Some d)
    note d = this
    show ?thesis
    proof (cases "GetTypePtrByID s btype")
      case None
      with d show ?thesis by (simp add: CanDeriveFrom_def 3 same_object_def)
    next
      case (Some b)
      have "derive_loop (Suc (Suc 0)) s dtype btype (vt_bases (vt_info d)) False =
          Inr (False \<or> btype \<in> set (vt_bases (vt_info d)))"
      proof (rule derive_loop_bases [OF assms Some])
        fix t assume t: "t \<in> set (vt_bases (vt_info d))"
        then obtain u where "GetTypePtrByID s t = Some u" "vt_bases (vt_info u) = []"
          using types_wf_base [OF assms d] by blast
        then show "t \<noteq> dtype \<and> (\<exists>u. GetTypePtrByID s t = Some u \<and> vt_bases (vt_info u) = [])"
          using t d by auto
      qed
      then show ?thesis
        using d Some types_wf_id [OF assms d] types_wf_id [OF assms Some]
        by (auto simp: CanDeriveFrom_def 3 same_object_def)
    qed
  qed
qed

text \<open>C23: what \<open>CanDeriveFrom\<close> answers. Of two defined types, whether they are the same or the
  second is a base type of the first, with the depth the walk is given never exhausted; of one
  defined and one undefined type, a failed assertion; of two undefined ids, however different,
  that one derives from the other, because the null pointers of both lookups are equal.\<close>

theorem CanDeriveFrom_spec:
  assumes "types_wf s"
  shows "CanDeriveFrom s dtype btype =
    (case (GetTypePtrByID s dtype, GetTypePtrByID s btype) of
       (Some d, Some b) \<Rightarrow> Inr (dtype = btype \<or> btype \<in> set (vt_bases (vt_info d)))
     | (None, None) \<Rightarrow> Inr True
     | _ \<Rightarrow> Inl Assert_failed)"
  by (rule CanDeriveFrom_eq [OF assms])

lemma derives_antisym:
  assumes "types_wf s" and "CanDeriveFrom s a b = Inr True" and "CanDeriveFrom s b a = Inr True"
    and "GetTypePtrByID s a = Some v"
  shows "a = b"
  using assms(2-) types_wf_base [OF assms(1,4), of b]
  by (auto simp: CanDeriveFrom_eq [OF assms(1)] split: option.splits)

lemma GetLeastUpperCommonType_defined:
  assumes "types_wf s" and "GetTypePtrByID s a = Some v" and "GetTypePtrByID s b = Some w"
  shows "\<exists>r. GetLeastUpperCommonType s a b = Inr r \<and> GetLeastUpperCommonType s b a = Inr r \<and>
    (if r = kNotExist then CanDeriveFrom s a b = Inr False \<and> CanDeriveFrom s b a = Inr False
     else r \<in> {a, b} \<and> CanDeriveFrom s a r = Inr True \<and> CanDeriveFrom s b r = Inr True)"
proof -
  note C = CanDeriveFrom_eq [OF assms(1)]
  have nz: "a \<noteq> kNotExist" "b \<noteq> kNotExist"
    using types_wf_entry [OF assms(1,2)] types_wf_entry [OF assms(1,3)] by (auto simp: entry_ok_def)
  obtain p q where pq: "CanDeriveFrom s a b = Inr p" "CanDeriveFrom s b a = Inr q"
    using assms(2,3) by (simp add: C)
  have refl: "CanDeriveFrom s a a = Inr True" "CanDeriveFrom s b b = Inr True"
    using assms(2,3) by (simp_all add: C)
  have "p \<Longrightarrow> q \<Longrightarrow> a = b" using derives_antisym [OF assms(1) _ _ assms(2)] pq by simp
  then show ?thesis
    using nz pq refl by (cases p; cases q; cases "a = b") (auto simp: GetLeastUpperCommonType_def)
qed

text \<open>C24: what \<open>GetLeastUpperCommonType\<close> answers on any two ids. Of two defined types it returns,
  whatever their order, the same type; it is one of the two and both derive from it, or it is
  \<open>kNotExist\<close> and neither derives from the other (a common base type that is neither of them is not
  found). Of one defined and one undefined type, a failed assertion. Of two undefined ids it returns
  the second, so that the order of the arguments matters there.\<close>

theorem GetLeastUpperCommonType_spec:
  assumes "types_wf s"
  shows "case (GetTypePtrByID s a, GetTypePtrByID s b) of
      (Some _, Some _) \<Rightarrow>
        (\<exists>r. GetLeastUpperCommonType s a b = Inr r \<and> GetLeastUpperCommonType s b a = Inr r \<and>
          (if r = kNotExist then CanDeriveFrom s a b = Inr False \<and> CanDeriveFrom s b a = Inr False
           else r \<in> {a, b} \<and> CanDeriveFrom s a r = Inr True \<and> CanDeriveFrom s b r = Inr True))
    | (None, None) \<Rightarrow> GetLeastUpperCommonType s a b = Inr b \<and> GetLeastUpperCommonType s b a = Inr a
    | _ \<Rightarrow> GetLeastUpperCommonType s a b = Inl Assert_failed \<and> GetLeastUpperCommonType s b a = Inl Assert_failed"
proof (cases "GetTypePtrByID s a"; cases "GetTypePtrByID s b")
  fix v w assume "GetTypePtrByID s a = Some v" "GetTypePtrByID s b = Some w"
  then show ?thesis using GetLeastUpperCommonType_defined [OF assms, of a v b w] by simp
qed (auto simp: GetLeastUpperCommonType_def CanDeriveFrom_eq [OF assms])

section \<open>The life of a type system\<close>

lemma fresh_lookup: "types_wf s \<Longrightarrow> GetTypePtrByID s k = Some v \<Longrightarrow> k < ts_next_id s"
  using types_wf_entry by (fastforce simp: entry_ok_def)


lemma specials_lookup: "specials s \<Longrightarrow> \<exists>w. GetTypePtrByID s kAllFunction = Some w"
  by (auto simp: specials_def GetTypePtrByID_def has_key_def)

text \<open>What a lookup by id finds after the creation of a function type.\<close>

definition function_object :: "TypeID \<Rightarrow> string \<Rightarrow> TypeID \<Rightarrow> TypeID list \<Rightarrow> string list \<Rightarrow> VarType" where
  "function_object k name ret args names =
     FunctionType \<lparr>vt_id = k, vt_name = name, vt_bases = [kAllFunction], vt_derived = []\<rparr> ret args names"

lemma ok_CreateFunctionType_lookup:
  assumes wf: "types_wf s" and sp: "specials s"
  shows "ok (CreateFunctionType name ret args names) s (\<lambda>k s'. \<forall>j. GetTypePtrByID s' j =
    (if j = k then Some (function_object k name ret args names)
     else if j = kAllFunction then map_option (map_info (\<lambda>i. i\<lparr>vt_derived := vt_derived i @ [k]\<rparr>)) (GetTypePtrByID s j)
     else GetTypePtrByID s j))"
proof -
  let ?k = "ts_next_id s"
  let ?v = "function_object ?k name ret args names"
  let ?s = "s\<lparr>ts_next_id := ?k + 1, function_types := function_types s @ [(?k, ?v)]\<rparr>"
  have kind: "is_function_type ?v" "\<not> is_compound_type ?v" "\<not> simple_kind ?v"
    by (simp_all add: function_object_def is_function_type_def is_compound_type_def simple_kind_def)
  have en: "entry_ok (?k + 1) (s_builted_simple_types s) ?k ?v"
    using types_wfD(1) [OF wf] sp by (simp add: function_object_def entry_ok_def specials_def)
  have lk: "GetTypePtrByID ?s = (GetTypePtrByID s)(?k \<mapsto> ?v)"
    by (rule types_wf_extend(2) [OF wf refl en, of ?s]; simp add: kind)
  have "has_key (s_builted_simple_types ?s) kAllFunction" "?k \<noteq> kAllFunction"
    using sp types_wfD(1) [OF wf] by (auto simp: specials_def has_key_def)
  then show ?thesis
    unfolding ok_def CreateFunctionType_apply [OF wf sp] Let_def sum.case prod.case
    by (simp add: GetTypePtrByID_derived lk flip: function_object_def)
qed

text \<open>C35: a function type is created under an id that was not in use, derives from \<open>kAllFunction\<close> and is
  found by its id with the given name, return type, arguments and argument names. A lookup by id
  finds every other type as before, except that the list of derived types of \<open>kAllFunction\<close> has
  the new id at its end. If no type had the name, the new one is found by it; otherwise the name keeps
  leading to some type of that name. The id counter stays the 32-bit counter of the code, given
  that it has not reached its end.\<close>

theorem CreateFunctionType_registers:
  assumes "types_wf s" and "specials s" and "walks_all ord" and "ts_next_id s < INT_MAX"
  shows "ok (CreateFunctionType name ret args names) s (\<lambda>k s'. types_wf s' \<and> specials s' \<and>
     GetTypePtrByID s k = None \<and> ts_next_id s' = sint (word_of_int k + 1 :: 32 word) \<and>
     CanDeriveFrom s' k kAllFunction = Inr True \<and>
     GetFunctionType s' k =
       Some (FunctionType \<lparr>vt_id = k, vt_name = name, vt_bases = [kAllFunction], vt_derived = []\<rparr> ret args names) \<and>
     (\<forall>j. GetTypePtrByID s' j =
        (if j = k then GetFunctionType s' k
         else if j = kAllFunction then map_option (map_info (\<lambda>i. i\<lparr>vt_derived := vt_derived i @ [k]\<rparr>)) (GetTypePtrByID s j)
         else GetTypePtrByID s j)) \<and>
     (if GetTypeIDByStr ord s name = kNotExist then GetTypeIDByStr ord s' name = k
      else \<exists>v. GetTypePtrByID s' (GetTypeIDByStr ord s' name) = Some v \<and> vt_name (vt_info v) = name))"
proof -
  obtain k s' where run: "CreateFunctionType name ret args names s = Inr (k, s')"
    and k: "k = ts_next_id s" "ts_next_id s' = k + 1"
    unfolding CreateFunctionType_apply [OF assms(1,2)] Let_def by (simp add: derived_pushed_def)
  have 1: "types_wf s'" "specials s'" "GetFunctionType s' k = Some (function_object k name ret args names)"
    using ok_CreateFunctionType [OF assms(1,2), of name ret args names]
    unfolding ok_def run sum.case prod.case function_object_def by blast+
  have lk: "GetTypePtrByID s' j =
    (if j = k then Some (function_object k name ret args names)
     else if j = kAllFunction then map_option (map_info (\<lambda>i. i\<lparr>vt_derived := vt_derived i @ [k]\<rparr>)) (GetTypePtrByID s j)
     else GetTypePtrByID s j)" for j
    using ok_CreateFunctionType_lookup [OF assms(1,2), of name ret args names] by (simp add: ok_def run)
  have v: "GetTypePtrByID s' k = Some (function_object k name ret args names)"
    "vt_name (vt_info (function_object k name ret args names)) = name"
    by (simp_all add: lk function_object_def)
  note found = GetTypeIDByStr_spec [OF 1(1) assms(3), of name]
  have some: "GetTypeIDByStr ord s' name \<noteq> kNotExist" using found v by metis
  have named: "GetTypeIDByStr ord s' name = k" if "GetTypeIDByStr ord s name = kNotExist"
  proof (rule ccontr)
    assume ne: "GetTypeIDByStr ord s' name \<noteq> k"
    obtain w where w: "GetTypePtrByID s' (GetTypeIDByStr ord s' name) = Some w" "vt_name (vt_info w) = name"
      using found some by auto
    then obtain u where "GetTypePtrByID s (GetTypeIDByStr ord s' name) = Some u" "vt_name (vt_info u) = name"
      using ne lk [of "GetTypeIDByStr ord s' name"] by (auto split: if_splits)
    then show False using GetTypeIDByStr_spec [OF assms(1,3), of name] that by simp
  qed
  obtain u where "GetTypePtrByID s' kAllFunction = Some u" using specials_lookup [OF 1(2)] by blast
  then have "CanDeriveFrom s' k kAllFunction = Inr True"
    by (simp add: CanDeriveFrom_eq [OF 1(1)] v function_object_def)
  moreover have "GetTypePtrByID s k = None"
    using fresh_lookup [OF assms(1), of k] k(1) by (cases "GetTypePtrByID s k") auto
  moreover have "ts_next_id s' = sint (word_of_int k + 1 :: 32 word)"
    using int32_next [of k] k types_wfD(1) [OF assms(1)] assms(4) by simp
  ultimately show ?thesis
    using 1 lk named found some by (simp add: ok_def run function_object_def)
qed

text \<open>a compound type is created under a new id with exactly the members given, grouped by type in
  declaration order, and changes no other type.\<close>

theorem CreateCompoundType_members:
  assumes "types_wf s" and "specials s" and "length members = length member_names"
  shows "ok (CreateCompoundType name members member_names) s (\<lambda>k s'. types_wf s' \<and> specials s' \<and>
     GetTypePtrByID s k = None \<and> (\<forall>j. j \<noteq> k \<longrightarrow> GetTypePtrByID s' j = GetTypePtrByID s j) \<and>
     (\<exists>v. GetCompoundType s' k = Some v \<and> vt_name (vt_info v) = name \<and> om_sorted (ct_members v) \<and>
        (\<forall>t. om_at [] (ct_members v) t = map snd (filter (\<lambda>x. fst x = t) (zip members member_names)))))"
proof (rule ok_mono [OF ok_CreateCompoundType [OF assms]], elim conjE, goal_cases)
  case (1 k s')
  have "GetTypePtrByID s k = None"
    using fresh_lookup [OF assms(1), of k] 1(1) by (cases "GetTypePtrByID s k") auto
  then show ?case
    using 1 by (simp add: member_map_def om_at_fold_push om_sorted_fold_push) (simp add: om_at_def)
qed

section \<open>Witnesses\<close>

text \<open>A type system over the demo configuration: one basic type, \<open>int\<close>, with the id 10.\<close>

definition demo_statics :: type_system where
  "demo_statics = \<lparr>rt_rand = (\<lambda>n. n), rt_pos = 0, rt_next = 0, rt_id_counter = 0, rt_name_counter = 0,
     rt_listener_error = False, rt_parse_counter = 0, rt_junk_scope = (\<lambda>_. 0), rt_junk_stmt = (\<lambda>_. 0),
     ts_next_id = 10, s_builted_simple_types = [], s_builted_compound_types = [], s_builted_function_types = [],
     simple_var_types = [], compound_types = [], function_types = [], pointer_map = []\<rparr>"

definition demo_types :: type_system where
  "demo_types = constructed demo_configuration demo_statics"

lemma demo_statics_wf: "types_wf demo_statics"
  by (simp add: types_wf_def demo_statics_def all_entries_def)

lemma demo_types_wf: "types_wf demo_types" "specials demo_types"
  by (simp_all add: demo_types_def types_wf_constructed demo_statics_wf specials_constructed)

lemma demo_types_lookup:
  "GetTypePtrByID demo_types 10 = Some (make_basic_type 10 ''int'')"
  "GetTypePtrByID demo_types 1 = Some (make_basic_type 1 ''SpecialType::kAllTypes'')"
  "GetTypePtrByID demo_types 55 = None" "GetTypePtrByID demo_types 56 = None"
  by (simp_all add: demo_types_def constructed_def with_specials_def with_basics_def Let_def with_builtin_def
      demo_configuration_def GetBasicTypeStr_def new_basic_def demo_statics_def GetTypePtrByID_def has_key_def
      special_name_def)

lemma demo_no_main: "GetTypeIDByStr (\<lambda>ks. ks) demo_types ''main'' = kNotExist"
  by (simp add: demo_types_def constructed_def with_specials_def with_basics_def Let_def with_builtin_def
      demo_configuration_def GetBasicTypeStr_def new_basic_def demo_statics_def GetTypeIDByStr_def find_by_name_def
      iter_def special_name_def make_basic_type_def)

lemma CanDeriveFrom_spec_witness: "CanDeriveFrom demo_types 55 56 = Inr True"
  using CanDeriveFrom_spec [OF demo_types_wf(1), of 55 56] by (simp add: demo_types_lookup)

lemma GetLeastUpperCommonType_spec_witness:
  "(\<exists>r. GetLeastUpperCommonType demo_types 10 1 = Inr r \<and> GetLeastUpperCommonType demo_types 1 10 = Inr r) \<and>
   GetLeastUpperCommonType demo_types 55 56 = Inr 56 \<and> GetLeastUpperCommonType demo_types 56 55 = Inr 55 \<and>
   GetLeastUpperCommonType demo_types 10 55 = Inl Assert_failed"
  using GetLeastUpperCommonType_spec [OF demo_types_wf(1), of 10 1]
    GetLeastUpperCommonType_spec [OF demo_types_wf(1), of 55 56]
    GetLeastUpperCommonType_spec [OF demo_types_wf(1), of 10 55]
  by (simp add: demo_types_lookup) blast

lemma CreateFunctionType_registers_witness:
  "ok (CreateFunctionType ''main'' 10 [] []) demo_types (\<lambda>k s'. GetTypeIDByStr (\<lambda>ks. ks) s' ''main'' = k) \<and>
   ok (CreateFunctionType ''int'' 10 [] []) demo_types (\<lambda>k s'. GetTypePtrByID s' 1 = GetTypePtrByID demo_types 1 \<and> k \<noteq> 1)"
proof (intro conjI)
  have next_id: "ts_next_id demo_types < INT_MAX"
    by (simp add: demo_types_def constructed_def with_specials_def with_basics_def Let_def with_builtin_def
        demo_configuration_def GetBasicTypeStr_def new_basic_def demo_statics_def)
  have w: "walks_all (\<lambda>ks. ks)" by (simp add: walks_all_def)
  note R = CreateFunctionType_registers [OF demo_types_wf w next_id]
  show "ok (CreateFunctionType ''main'' 10 [] []) demo_types (\<lambda>k s'. GetTypeIDByStr (\<lambda>ks. ks) s' ''main'' = k)"
    by (rule ok_mono [OF R]) (simp add: demo_no_main)
  show "ok (CreateFunctionType ''int'' 10 [] []) demo_types (\<lambda>k s'. GetTypePtrByID s' 1 = GetTypePtrByID demo_types 1 \<and> k \<noteq> 1)"
    by (rule ok_mono [OF R]) (auto simp: demo_types_lookup)
qed

lemma CreateCompoundType_members_witness:
  "ok (CreateCompoundType ''S'' [10, 10] [''x'', ''y'']) demo_types (\<lambda>k s'. types_wf s')"
  by (rule ok_mono [OF CreateCompoundType_members [OF demo_types_wf(1,2)]]) simp_all

end
