(* ===== verification/Pointer_Types.thy ===== *)
theory Pointer_Types
  imports Type_System
begin

text \<open>
  The pointer types of \<open>srcs/internal/srcs/var_definition.cpp\<close>: the map from a type to its chain of
  pointer types by level. The map stays in step with the type objects, and asking again for the
  pointer type to a type returns the one made before. A new type system starts with all invariants.
\<close>

section \<open>Pointer types\<close>

text \<open>What the pointer table promises: under a type, each level's entry is a pointer type object with
  that type and level, and it points to the type of the level below.\<close>

definition ptr_entry :: "'z type_system_scheme \<Rightarrow> TypeID \<Rightarrow> (nat, TypeID) omap \<Rightarrow> nat \<Rightarrow> TypeID \<Rightarrow> bool" where
  "ptr_entry s orig levels lvl tid \<longleftrightarrow> 0 < lvl \<and>
     (\<exists>i t. GetTypePtrByID s tid = Some (PointerType i t orig lvl) \<and>
        (if lvl = 1 then t = orig else (lvl - 1, t) \<in> set levels))"

definition ptr_ok :: "'z type_system_scheme \<Rightarrow> bool" where
  "ptr_ok s \<longleftrightarrow> om_sorted (pointer_map s) \<and>
     (\<forall>(orig, levels)\<in>set (pointer_map s). 0 < orig \<and> om_sorted levels \<and>
        (\<forall>(lvl, tid)\<in>set levels. ptr_entry s orig levels lvl tid))"

lemma pointer_map_irrelevant [simp]:
  "types_wf (s\<lparr>pointer_map := m\<rparr>) = types_wf s" "specials (s\<lparr>pointer_map := m\<rparr>) = specials s"
  "GetTypePtrByID (s\<lparr>pointer_map := m\<rparr>) = GetTypePtrByID s"
  by (simp_all add: types_wf_def all_entries_def specials_def fun_eq_iff GetTypePtrByID_def)

lemma pointer_map_derived [simp]: "pointer_map (derived_pushed b k s) = pointer_map s"
  by (simp add: derived_pushed_def)

lemma alltype_found:
  assumes wf: "types_wf s" and sp: "specials s" and w: "walks_all ord"
  shows "baseless (s_builted_simple_types s) (GetBasicTypeIDByStr ord s ''SpecialType::kAllTypes'')"
proof -
  let ?bs = "s_builted_simple_types s" and ?n = "''SpecialType::kAllTypes''"
  obtain a where "map_of ?bs kAllTypes = Some a" "vt_name (vt_info a) = ?n"
    using sp by (auto simp: specials_def special_name_def)
  then obtain k where k: "find_by_name ord ?bs ?n = Some k"
    using find_by_name_None [OF w, of ?bs ?n kAllTypes a] by (cases "find_by_name ord ?bs ?n") auto
  obtain v where v: "map_of ?bs k = Some v" "vt_name (vt_info v) = ?n"
    using find_by_name_Some [OF w k] by blast
  have "entry_ok (ts_next_id s) ?bs k v"
    using map_of_SomeD [OF v(1)] by (intro types_wfD(4) [OF wf]) (simp add: all_entries_def)
  moreover have "simple_kind v" using map_of_SomeD [OF v(1)] by (intro types_wfD(5) [OF wf, of k]) simp
  ultimately have "vt_bases (vt_info v) = []"
    using v(2) by (cases v) (simp_all add: entry_ok_def pointer_name_def simple_kind_def is_function_type_def
        is_compound_type_def)
  then show ?thesis using k v(1) by (simp add: GetBasicTypeIDByStr_def baseless_def)
qed

lemma pointer_shape: "forget_derived v = forget_derived (PointerType i t orig lvl) \<Longrightarrow> \<exists>i. v = PointerType i t orig lvl"
  by (cases v) (simp_all add: forget_derived_def)

lemma same_types_pointer:
  assumes "map_option forget_derived (GetTypePtrByID s' k) = map_option forget_derived (GetTypePtrByID s k)"
    and "GetTypePtrByID s k = Some (PointerType i t orig lvl)"
  shows "\<exists>i. GetTypePtrByID s' k = Some (PointerType i t orig lvl)"
  using assms pointer_shape by (auto simp del: map_option_eq_Some)

lemma ok_create_pointer:
  assumes wf: "types_wf s" and sp: "specials s" and w: "walks_all ord"
  shows "ok (create_pointer ord t orig lvl) s (\<lambda>k s'. k = ts_next_id s \<and> types_wf s' \<and> specials s' \<and>
     (\<exists>i. GetTypePtrByID s' k = Some (PointerType i t orig lvl)) \<and>
     (\<forall>j. j \<noteq> k \<longrightarrow> map_option forget_derived (GetTypePtrByID s' j) = map_option forget_derived (GetTypePtrByID s j)) \<and>
     pointer_map s' = om_put orig (om_put lvl k (om_at [] (pointer_map s) orig)) (pointer_map s) \<and>
     type_system.more s' = type_system.more s)"
proof -
  let ?k = "ts_next_id s"
  let ?a = "GetBasicTypeIDByStr ord s ''SpecialType::kAllTypes''"
  let ?v = "new_pointer ?k ?a t orig lvl"
  let ?s = "s\<lparr>ts_next_id := ?k + 1, simple_var_types := simple_var_types s @ [(?k, ?v)]\<rparr>"
  let ?m = "om_put orig (om_put lvl ?k (om_at [] (pointer_map s) orig)) (pointer_map s)"
  have kind: "simple_kind ?v" "\<not> is_compound_type ?v" "\<not> is_function_type ?v"
    by (simp_all add: is_function_type_def is_compound_type_def simple_kind_def new_pointer_def)
  have ba: "baseless (s_builted_simple_types s) ?a" by (rule alltype_found [OF wf sp w])
  have en: "entry_ok (?k + 1) (s_builted_simple_types s) ?k ?v"
    using types_wfD(1) [OF wf] ba by (simp add: entry_ok_def new_pointer_def)
  note X = types_wf_extend [OF wf refl en, of ?s]
  have wf': "types_wf ?s" and lk: "GetTypePtrByID ?s = (GetTypePtrByID s)(?k \<mapsto> ?v)"
    by (rule X(1); simp add: kind) (rule X(2); simp add: kind)
  have fr: "?k \<notin> fst ` set (simple_var_types s)"
    using fresh_id [OF wf, of ?k] by (auto simp: all_entries_def)
  have ne: "GetBasicTypeIDByStr ord (s\<lparr>ts_next_id := n\<rparr>) str = GetBasicTypeIDByStr ord s str" for n str
    by (simp add: GetBasicTypeIDByStr_def)
  have ap: "create_pointer ord t orig lvl s = Inr (?k, (derived_pushed ?a ?k ?s)\<lparr>pointer_map := ?m\<rparr>)"
    using fr ba push_derived_apply [of "s\<lparr>ts_next_id := ?k + 1\<rparr>" ?a ?k]
    by (simp add: create_pointer_def bnd_def gen_type_id_apply gets_apply ne put_pointer_map_def modify_apply
        return_apply derived_pushed_def update_new)
  have st: "same_types ?s (derived_pushed ?a ?k ?s)" by (rule types_wf_derived(2) [OF wf'])
  have "map_option forget_derived (GetTypePtrByID (derived_pushed ?a ?k ?s) j) =
      map_option forget_derived (GetTypePtrByID s j)" if "j \<noteq> ?k" for j
    using that st by (simp add: same_types_def lk)
  moreover have "\<exists>i. GetTypePtrByID (derived_pushed ?a ?k ?s) ?k = Some (PointerType i t orig lvl)"
    using lk by (intro same_types_pointer [OF st [unfolded same_types_def, rule_format]]) (simp add: new_pointer_def)
  moreover have "specials (derived_pushed ?a ?k ?s)"
    by (rule specials_derived) (use sp in \<open>simp add: specials_def\<close>)
  moreover have "type_system.more (derived_pushed ?a ?k ?s) = type_system.more s"
    by (simp add: derived_pushed_def)
  ultimately show ?thesis
    using types_wf_derived(1) [OF wf', of ?a ?k] unfolding ok_def ap sum.case prod.case by simp
qed

lemma find_pointer_Some:
  "find_pointer t m = Some (orig, lvl) \<Longrightarrow> \<exists>levels. (orig, levels) \<in> set m \<and> (orig = t \<and> lvl = 0 \<or> (lvl, t) \<in> set levels)"
  by (induction t m rule: find_pointer.induct)
    (auto split: if_splits option.splits simp: find_Some_iff, metis nth_mem)

lemma find_level_put:
  "k \<noteq> t \<Longrightarrow> om_get levels l = None \<Longrightarrow>
   find (\<lambda>(lvl, tid). tid = t) (om_put l k levels) = find (\<lambda>(lvl, tid). tid = t) levels"
  by (induction l k levels rule: om_put.induct) (auto simp: om_get_def split: if_splits)

lemma find_pointer_put:
  assumes "om_sorted m" and "find_pointer t m = Some (orig, lvl)" and "(orig, levels) \<in> set m"
    and "find (\<lambda>(lvl, tid). tid = t) levels' = find (\<lambda>(lvl, tid). tid = t) levels"
  shows "find_pointer t (om_put orig levels' m) = Some (orig, lvl)"
  using assms
proof (induction t m rule: find_pointer.induct)
  case (2 type o1 l1 m)
  show ?case
  proof (cases "orig = o1")
    case True
    then have "l1 = levels" using "2.prems"(1,3) by (auto simp: om_sorted_Cons)
    then show ?thesis using "2.prems" True by (auto split: option.splits if_splits dest: find_pointer_Some)
  next
    case False
    then have "(orig, levels) \<in> set m" "o1 < orig" "om_sorted m"
      using "2.prems"(1,3) by (auto simp: om_sorted_Cons)
    then show ?thesis using "2.prems" "2.IH" False
      by (auto split: option.splits if_splits simp: om_sorted_Cons)
  qed
qed simp

lemma find_pointer_put_new:
  "om_sorted m \<Longrightarrow> find_pointer t m = None \<Longrightarrow> find_pointer t (om_put t levels m) = Some (t, 0)"
  by (induction t m rule: find_pointer.induct) (auto simp: om_sorted_Cons split: if_splits option.splits)

lemma find_pointer_None: "find_pointer t m = None \<Longrightarrow> t \<notin> fst ` set m"
  by (induction t m rule: find_pointer.induct) (auto split: if_splits option.splits)

lemma om_put_iff:
  "om_sorted m \<Longrightarrow> (j, w) \<in> set (om_put k v m) \<longleftrightarrow> (if j = k then w = v else (j, w) \<in> set m)"
  by (simp add: om_get_iff [symmetric] om_sorted_put om_get_put) auto

lemma ptr_okD:
  assumes "ptr_ok s" and "(orig, levels) \<in> set (pointer_map s)"
  shows "0 < orig" and "om_sorted levels"
    and "\<And>lvl tid. (lvl, tid) \<in> set levels \<Longrightarrow> ptr_entry s orig levels lvl tid"
  using assms by (auto simp: ptr_ok_def)

lemma ptr_ok_at:
  assumes "ptr_ok s"
  shows "om_sorted (om_at [] (pointer_map s) orig)"
    and "om_at [] (pointer_map s) orig \<noteq> [] \<Longrightarrow> (orig, om_at [] (pointer_map s) orig) \<in> set (pointer_map s)"
proof -
  show "om_sorted (om_at [] (pointer_map s) orig)"
    using assms by (auto simp: om_at_def ptr_ok_def split: option.split dest!: om_get_SomeD)
  show "(orig, om_at [] (pointer_map s) orig) \<in> set (pointer_map s)" if "om_at [] (pointer_map s) orig \<noteq> []"
    using that by (auto simp: om_at_def split: option.splits dest: om_get_SomeD)
qed

lemma ptr_ok_put:
  assumes p: "ptr_ok s" and o: "0 < orig"
    and m: "pointer_map s' = om_put orig (om_put (Suc lvl) k (om_at [] (pointer_map s) orig)) (pointer_map s)"
    and k: "GetTypePtrByID s k = None" "GetTypePtrByID s' k = Some (PointerType i t orig (Suc lvl))"
    and same: "\<And>j. j \<noteq> k \<Longrightarrow> map_option forget_derived (GetTypePtrByID s' j) = map_option forget_derived (GetTypePtrByID s j)"
    and new: "om_get (om_at [] (pointer_map s) orig) (Suc lvl) = None"
    and t: "if lvl = 0 then t = orig else (lvl, t) \<in> set (om_at [] (pointer_map s) orig)"
  shows "ptr_ok s'"
proof -
  let ?pm = "pointer_map s" and ?ls = "om_at [] (pointer_map s) orig"
  have srt: "om_sorted ?pm" "om_sorted ?ls" using p ptr_ok_at [OF p] by (simp_all add: ptr_ok_def)
  have keep: "ptr_entry s' o1 levels l tid"
    if e: "(o1, levels) \<in> set ?pm" "(l, tid) \<in> set levels" for o1 levels l tid
  proof -
    obtain i t where g: "0 < l" "GetTypePtrByID s tid = Some (PointerType i t o1 l)"
      "if l = 1 then t = o1 else (l - 1, t) \<in> set levels"
      using ptr_okD(3) [OF p e] unfolding ptr_entry_def by blast
    then have "tid \<noteq> k" using k(1) by auto
    then obtain i' where "GetTypePtrByID s' tid = Some (PointerType i' t o1 l)"
      using same_types_pointer [OF same g(2)] by blast
    then show ?thesis using g unfolding ptr_entry_def by blast
  qed
  have ls: "ptr_entry s' orig (om_put (Suc lvl) k ?ls) l tid"
    if e: "(l, tid) \<in> set (om_put (Suc lvl) k ?ls)" for l tid
  proof (cases "l = Suc lvl")
    case True
    then have "tid = k" using e by (simp add: om_put_iff srt)
    then show ?thesis using True k(2) t by (auto simp: om_put_iff srt ptr_entry_def)
  next
    case False
    then have m: "(l, tid) \<in> set ?ls" using e by (simp add: om_put_iff srt)
    then have "(orig, ?ls) \<in> set ?pm" by (intro ptr_ok_at [OF p]) auto
    from keep [OF this m] obtain i t where g: "0 < l" "GetTypePtrByID s' tid = Some (PointerType i t orig l)"
      "if l = 1 then t = orig else (l - 1, t) \<in> set ?ls"
      unfolding ptr_entry_def by blast
    moreover have "l - 1 \<noteq> Suc lvl" if "(l - 1, t) \<in> set ?ls"
      using that new srt(2) by (metis om_get_iff option.distinct(1))
    ultimately have "if l = 1 then t = orig else (l - 1, t) \<in> set (om_put (Suc lvl) k ?ls)"
      by (auto simp: om_put_iff srt)
    then show ?thesis using g unfolding ptr_entry_def by blast
  qed
  show ?thesis
    unfolding ptr_ok_def
  proof (intro conjI ballI, goal_cases)
    case 1
    show ?case unfolding m by (rule om_sorted_put [OF srt(1)])
  next
    case (2 e)
    obtain o1 levels where e: "e = (o1, levels)" by (cases e)
    show ?case
    proof (cases "o1 = orig")
      case True
      then have "levels = om_put (Suc lvl) k ?ls" using 2 unfolding e m by (simp add: om_put_iff srt)
      then show ?thesis using True o ls om_sorted_put [OF srt(2)] unfolding e by auto
    next
      case False
      then have "(o1, levels) \<in> set ?pm" using 2 unfolding e m by (simp add: om_put_iff srt)
      then show ?thesis using keep ptr_okD(1,2) [OF p] unfolding e by auto
    qed
  qed
qed

definition pointer_to :: "'z type_system_scheme \<Rightarrow> TypeID \<Rightarrow> TypeID \<Rightarrow> bool" where
  "pointer_to s k t \<longleftrightarrow> (\<exists>i orig lvl. GetTypePtrByID s k = Some (PointerType i t orig lvl))"

lemma GetOrCreatePointerType_new:
  assumes s: "types_wf s" "specials s" "ptr_ok s" "walks_all ord" and t: "GetTypePtrByID s t = Some v"
    and orig: "0 < orig" "om_get (om_at [] (pointer_map s) orig) (Suc lvl) = None"
      "if lvl = 0 then t = orig else (lvl, t) \<in> set (om_at [] (pointer_map s) orig)"
    and found: "\<And>k. k \<noteq> t \<Longrightarrow>
      find_pointer t (om_put orig (om_put (Suc lvl) k (om_at [] (pointer_map s) orig)) (pointer_map s)) = Some (orig, lvl)"
  shows "ok (create_pointer ord t orig (Suc lvl)) s (\<lambda>k s'. types_wf s' \<and> specials s' \<and> ptr_ok s' \<and>
    pointer_to s' k t \<and> GetOrCreatePointerType ord t s' = Inr (k, s'))"
proof (rule ok_mono [OF ok_create_pointer [OF s(1,2,4)]], elim conjE, intro conjI, goal_cases)
  case (3 k s')
  then obtain i where i: "GetTypePtrByID s' k = Some (PointerType i t orig (Suc lvl))" by blast
  have "GetTypePtrByID s k = None"
    using fresh_lookup [OF s(1), of k] 3(1) by (cases "GetTypePtrByID s k") auto
  then show ?case using 3 by (intro ptr_ok_put [OF s(3) orig(1) _ _ i _ orig(2,3)]) auto
next
  case (4 k s')
  then show ?case by (auto simp: pointer_to_def)
next
  case (5 k s')
  have "k \<noteq> t" using fresh_lookup [OF s(1) t] 5(1) by simp
  then have "find_pointer t (pointer_map s') = Some (orig, lvl)" using found 5(6) by simp
  moreover have "om_get (om_at [] (pointer_map s') orig) (Suc lvl) = Some k"
    unfolding 5(6) by (simp add: om_at_def om_get_put)
  ultimately show ?case using orig(1)
    by (simp add: GetOrCreatePointerType_def bnd_def m_eval)
qed

lemma om_get_Suc_None: "ptr_ok s \<Longrightarrow> find_pointer t (pointer_map s) = None \<Longrightarrow> om_at [] (pointer_map s) t = []"
  using find_pointer_None [of t "pointer_map s"] ptr_ok_at(2) [of s t] by (metis fst_conv image_eqI)

text \<open>A type without a pointer chain starts one.\<close>

lemma GetOrCreatePointerType_unknown:
  assumes "types_wf s" and "specials s" and "ptr_ok s" and "walks_all ord" and "GetTypePtrByID s t = Some v"
    and none: "find_pointer t (pointer_map s) = None"
  shows "ok (GetOrCreatePointerType ord t) s (\<lambda>k s'. types_wf s' \<and> specials s' \<and> ptr_ok s' \<and>
    pointer_to s' k t \<and> GetOrCreatePointerType ord t s' = Inr (k, s'))"
proof -
  have srt: "om_sorted (pointer_map s)" using assms(3) by (simp add: ptr_ok_def)
  have "0 < t" using types_wf_entry [OF assms(1,5)] by (simp add: entry_ok_def)
  have "ok (create_pointer ord t t (Suc 0)) s (\<lambda>k s'. types_wf s' \<and> specials s' \<and> ptr_ok s' \<and>
      pointer_to s' k t \<and> GetOrCreatePointerType ord t s' = Inr (k, s'))"
    by (rule GetOrCreatePointerType_new [OF assms(1-5) \<open>0 < t\<close>])
      (simp_all add: om_get_Suc_None [OF assms(3) none] find_pointer_put_new [OF srt none])
  moreover have "GetOrCreatePointerType ord t s = create_pointer ord t t (Suc 0) s"
    by (simp add: GetOrCreatePointerType_def bnd_def m_eval none)
  ultimately show ?thesis unfolding ok_def by simp
qed

text \<open>A type of a chain: its pointer is on the next level, or is made there.\<close>

lemma GetOrCreatePointerType_known:
  assumes "types_wf s" and "specials s" and "ptr_ok s" and "walks_all ord" and "GetTypePtrByID s t = Some v"
    and f: "find_pointer t (pointer_map s) = Some (orig, lvl)"
  shows "ok (GetOrCreatePointerType ord t) s (\<lambda>k s'. types_wf s' \<and> specials s' \<and> ptr_ok s' \<and>
    pointer_to s' k t \<and> GetOrCreatePointerType ord t s' = Inr (k, s'))"
proof -
  have srt: "om_sorted (pointer_map s)" using assms(3) by (simp add: ptr_ok_def)
  obtain levels where l: "(orig, levels) \<in> set (pointer_map s)" "orig = t \<and> lvl = 0 \<or> (lvl, t) \<in> set levels"
    using find_pointer_Some [OF f] by blast
  have at: "om_at [] (pointer_map s) orig = levels" using l(1) srt by (simp add: om_at_def om_get_iff [symmetric])
  have o: "0 < orig" and ls: "om_sorted levels" and en: "\<And>n tid. (n, tid) \<in> set levels \<Longrightarrow> ptr_entry s orig levels n tid"
    by (rule ptr_okD [OF assms(3) l(1)]; assumption)+
  have t: "if lvl = 0 then t = orig else (lvl, t) \<in> set levels"
    using l(2) en [of lvl t] by (auto simp: ptr_entry_def)
  show ?thesis
  proof (cases "om_get levels (Suc lvl)")
    case None
    have "ok (create_pointer ord t orig (Suc lvl)) s (\<lambda>k s'. types_wf s' \<and> specials s' \<and> ptr_ok s' \<and>
        pointer_to s' k t \<and> GetOrCreatePointerType ord t s' = Inr (k, s'))"
      by (rule GetOrCreatePointerType_new [OF assms(1-5) o])
        (use None t in \<open>simp_all add: at find_pointer_put [OF srt f l(1)] find_level_put\<close>)
    moreover have "GetOrCreatePointerType ord t s = create_pointer ord t orig (Suc lvl) s"
      using o by (simp add: GetOrCreatePointerType_def bnd_def m_eval f at None)
    ultimately show ?thesis unfolding ok_def by simp
  next
    case (Some k)
    have e: "GetOrCreatePointerType ord t s = Inr (k, s)"
      using o Some by (simp add: GetOrCreatePointerType_def bnd_def m_eval f at)
    obtain i u where u: "GetTypePtrByID s k = Some (PointerType i u orig (Suc lvl))"
      "if Suc lvl = 1 then u = orig else (lvl, u) \<in> set levels"
      using en [of "Suc lvl" k] om_get_SomeD [OF Some] unfolding ptr_entry_def diff_Suc_1 by blast
    have "u = t" using u(2) t ls by (auto split: if_splits simp: om_get_iff [symmetric])
    then show ?thesis using u(1) assms unfolding ok_def pointer_to_def by (auto simp: e)
  qed
qed

text \<open>C33: the pointer type to a defined type. The call succeeds, returns the id of a pointer type
  object that points to the given type, keeps the tables' and the pointer table's invariants, and
  a second call returns the same id and changes nothing. (As everywhere, while the id counter has not
  reached the end of \<open>int\<close>.)\<close>

theorem GetOrCreatePointerType_idempotent:
  assumes "types_wf s" and "specials s" and "ptr_ok s" and "walks_all ord" and "GetTypePtrByID s t = Some v"
  shows "ok (GetOrCreatePointerType ord t) s (\<lambda>k s'. types_wf s' \<and> specials s' \<and> ptr_ok s' \<and>
    pointer_to s' k t \<and> GetOrCreatePointerType ord t s' = Inr (k, s'))"
proof (cases "find_pointer t (pointer_map s)")
  case None
  then show ?thesis by (rule GetOrCreatePointerType_unknown [OF assms])
next
  case (Some r)
  then show ?thesis using GetOrCreatePointerType_known [OF assms] by (cases r) simp
qed

section \<open>A new type system\<close>

lemma with_basics_lookup:
  "map_of (s_builted_simple_types (with_basics ls s)) j =
     (let basics = filter (\<lambda>line. line \<noteq> []) ls
      in if ts_next_id s \<le> j \<and> j < ts_next_id s + int (length basics)
         then Some (make_basic_type j (basics ! nat (j - ts_next_id s)))
         else map_of (s_builted_simple_types s) j)"
proof (induction ls arbitrary: s)
  case Nil
  then show ?case by (auto simp: with_basics_def)
next
  case (Cons line ls)
  have later: "nat (j - ts_next_id s) = Suc (nat (j - (ts_next_id s + 1)))" if "ts_next_id s + 1 \<le> j"
    using that by auto
  have "with_basics (line # ls) s = with_basics ls (if line = [] then s else new_basic (ts_next_id s) line s)"
    by (simp add: with_basics_def)
  then show ?case
    by (auto simp: Cons.IH Let_def new_basic_def with_builtin_def update_conv' later)
qed

text \<open>C34: constructing a type system over static tables that satisfy the invariant establishes it for
  the new object, with its own tables empty. In the static table of simple types the basic types of the
  configuration are entered once more, in order and under the next ids of the counter, whether or
  not an earlier object had entered them; the four special types are entered under their fixed ids; all
  other entries stay, as do the static tables of compound and function types.\<close>

theorem new_TypeSystem_wf:
  assumes "is_init c" and "types_wf s"
    and "basics = filter (\<lambda>line. line \<noteq> []) (GetBasicTypeStr c)" and "ts_next_id s + int (length basics) \<le> INT_MAX"
  shows "ok (new_TypeSystem c) s (\<lambda>_ s'. types_wf s' \<and> specials s' \<and> ptr_ok s' \<and>
     simple_var_types s' = [] \<and> compound_types s' = [] \<and> function_types s' = [] \<and>
     s_builted_compound_types s' = s_builted_compound_types s \<and> s_builted_function_types s' = s_builted_function_types s \<and>
     ts_next_id s' = ts_next_id s + int (length basics) \<and> ts_next_id s' \<le> INT_MAX \<and>
     (\<forall>j. map_of (s_builted_simple_types s') j =
        (if j \<in> {kAllTypes, kAllCompoundType, kAllFunction, kAnyType}
         then Some (SimpleType \<lparr>vt_id = j, vt_name = special_name j, vt_bases = [], vt_derived = []\<rparr>)
         else if ts_next_id s \<le> j \<and> j < ts_next_id s'
         then Some (SimpleType \<lparr>vt_id = j, vt_name = basics ! nat (j - ts_next_id s), vt_bases = [], vt_derived = []\<rparr>)
         else map_of (s_builted_simple_types s) j)))"
proof -
  have next_id: "ts_next_id (with_basics ls s) = ts_next_id s + int (length (filter (\<lambda>line. line \<noteq> []) ls))"
    for ls and s :: "'a type_system_scheme"
    by (induction ls arbitrary: s) (simp_all add: with_basics_def new_basic_def with_builtin_def)
  have own: "simple_var_types (with_basics ls s) = simple_var_types s" "compound_types (with_basics ls s) = compound_types s"
    "function_types (with_basics ls s) = function_types s" "pointer_map (with_basics ls s) = pointer_map s"
    "s_builted_compound_types (with_basics ls s) = s_builted_compound_types s"
    "s_builted_function_types (with_basics ls s) = s_builted_function_types s"
    for ls and s :: "'a type_system_scheme"
    by (induction ls arbitrary: s) (simp_all add: with_basics_def new_basic_def with_builtin_def)
  show ?thesis
    unfolding ok_def new_TypeSystem_apply [OF assms(1)] sum.case prod.case
    using types_wf_constructed [OF assms(2), of c] specials_constructed [of c s] assms(4)
    by (auto simp: constructed_def with_specials_def Let_def with_builtin_def next_id own ptr_ok_def update_conv'
        with_basics_lookup assms(3) make_basic_type_def special_name_def)
qed

section \<open>Witnesses\<close>

lemma demo_types_pointers: "ptr_ok demo_types"
  by (simp add: demo_types_def ptr_ok_def constructed_def with_specials_def with_basics_def Let_def with_builtin_def
      demo_configuration_def GetBasicTypeStr_def new_basic_def demo_statics_def)

lemma GetOrCreatePointerType_idempotent_witness:
  "ok (GetOrCreatePointerType (\<lambda>ks. ks) 10) demo_types (\<lambda>k s'. pointer_to s' k 10 \<and>
     GetOrCreatePointerType (\<lambda>ks. ks) 10 s' = Inr (k, s'))"
  by (rule ok_mono [OF GetOrCreatePointerType_idempotent [OF demo_types_wf demo_types_pointers _ demo_types_lookup(1)]])
    (simp_all add: walks_all_def)

lemma new_TypeSystem_wf_witness:
  "ok (new_TypeSystem demo_configuration) demo_types (\<lambda>_ s'. types_wf s' \<and> ts_next_id s' = ts_next_id demo_types + 1 \<and>
     map_of (s_builted_simple_types s') (ts_next_id demo_types) =
       Some (SimpleType \<lparr>vt_id = ts_next_id demo_types, vt_name = ''int'', vt_bases = [], vt_derived = []\<rparr>))"
proof (rule ok_mono [OF new_TypeSystem_wf [OF _ demo_types_wf(1) refl]])
  show "ts_next_id demo_types + int (length (filter (\<lambda>line. line \<noteq> []) (GetBasicTypeStr demo_configuration))) \<le> INT_MAX"
    by (simp add: demo_types_def constructed_def with_specials_def with_basics_def Let_def with_builtin_def
        demo_configuration_def GetBasicTypeStr_def new_basic_def demo_statics_def)
qed (use types_wfD(1) [OF demo_types_wf(1)] in \<open>auto simp: demo_configuration_def GetBasicTypeStr_def\<close>)

end
