(* ===== verification/Scope_Tree.thy ===== *)
theory Scope_Tree
  imports Type_System
begin

text \<open>
  The classes \<open>SymbolTable\<close>, \<open>Scope\<close> and \<open>ScopeTree\<close> of \<open>srcs/internal/srcs/var_definition.cpp\<close>
  and the construction of the scopes of a program, \<open>BuildTree\<close>. A scope is allocated with a new id
  and entered into \<open>scope_id_map_\<close>, which keeps it alive, so a pointer to a scope is its id and
  the map is the store. \<open>BuildScopeTreeImpl\<close> writes scope ids into the program's nodes, so it
  returns the updated tree. The results: the ids it writes are those of a pure numbering of the
  tree in preorder, the scopes form a tree that mirrors the program's, and the construction fails
  exactly on programs with two outermost scopes.
\<close>

section \<open>Symbol tables and scopes\<close>

record Definition =
  def_name :: string
  def_type :: TypeID
  def_statement_id :: StatementID

type_synonym symbol_table = "(TypeID, Definition list) omap"

definition table_AddDefinition :: "Definition \<Rightarrow> symbol_table \<Rightarrow> symbol_table" where
  "table_AddDefinition d table = om_push (def_type d) d table"

definition GetDefinition :: "symbol_table \<Rightarrow> string \<Rightarrow> Definition option" where
  "GetDefinition table name = find (\<lambda>d. def_name d = name) (concat (map snd table))"

record scope =
  sc_type :: ScopeType
  sc_parent :: "ScopeID option"
  sc_children :: "ScopeID list"
  sc_table :: symbol_table
  sc_defined_names :: "string set"

section \<open>The scope tree\<close>

text \<open>\<open>recursive_counter\<close> is the static of \<open>create_symbol_table\<close>.\<close>

record scope_tree = type_system +
  g_scope_id_counter :: int
  g_scope_root :: "ScopeID option"
  g_scope_current :: "ScopeID option"
  scope_id_map :: "(ScopeID, scope) omap"
  recursive_counter :: "32 word"

definition GetScopeById :: "'z scope_tree_scheme \<Rightarrow> ScopeID \<Rightarrow> scope option" where
  "GetScopeById s sid = om_get (scope_id_map s) sid"

text \<open>A store through a pointer to a scope.\<close>

definition modify_scope :: "ScopeID \<Rightarrow> (scope \<Rightarrow> scope) \<Rightarrow> ('z scope_tree_scheme, unit) M" where
  "modify_scope sid f =
     bnd (gets (\<lambda>s. GetScopeById s sid)) (\<lambda>sc.
     case sc of
       None \<Rightarrow> throw Null_dereference
     | Some sc \<Rightarrow> modify (\<lambda>s. s\<lparr>scope_id_map := om_put sid (f sc) (scope_id_map s)\<rparr>))"

text \<open>\<open>Scope::AddDefinition(name, type, id)\<close>.\<close>

definition AddDefinition :: "ScopeID \<Rightarrow> string \<Rightarrow> TypeID \<Rightarrow> StatementID \<Rightarrow> ('z scope_tree_scheme, unit) M" where
  "AddDefinition sid var_name type stmt =
     modify_scope sid (\<lambda>sc.
       if type = kNotExist then sc
       else sc\<lparr>sc_table := table_AddDefinition
              \<lparr>def_name = var_name, def_type = type, def_statement_id = stmt\<rparr> (sc_table sc)\<rparr>)"

definition GenScope :: "ScopeType \<Rightarrow> ('z scope_tree_scheme, ScopeID) M" where
  "GenScope scope_type =
     bnd (modify (\<lambda>s. s\<lparr>g_scope_id_counter := g_scope_id_counter s + 1\<rparr>)) (\<lambda>_.
     bnd (gets (\<lambda>s. word_of_int (g_scope_id_counter s))) (\<lambda>sid.
     bnd (modify (\<lambda>s. s\<lparr>scope_id_map := om_put sid
            \<lparr>sc_type = scope_type, sc_parent = None, sc_children = [], sc_table = [], sc_defined_names = {}\<rparr>
            (scope_id_map s)\<rparr>)) (\<lambda>_.
     return sid)))"

definition EnterScope :: "ScopeType \<Rightarrow> ('z scope_tree_scheme, unit) M" where
  "EnterScope scope_type =
     bnd (GenScope scope_type) (\<lambda>new_scope.
     bnd (gets g_scope_root) (\<lambda>root.
     if root = None then
       modify (\<lambda>s. s\<lparr>g_scope_root := Some new_scope, g_scope_current := Some new_scope\<rparr>)
     else
       bnd (gets g_scope_current) (\<lambda>cur.
       bnd (modify_scope new_scope (\<lambda>sc. sc\<lparr>sc_parent := cur\<rparr>)) (\<lambda>_.
       case cur of
         None \<Rightarrow> throw Null_dereference
       | Some c \<Rightarrow>
           bnd (modify_scope c (\<lambda>sc. sc\<lparr>sc_children := os_insert new_scope (sc_children sc)\<rparr>)) (\<lambda>_.
           modify (\<lambda>s. s\<lparr>g_scope_current := Some new_scope\<rparr>))))))"

definition ExitScope :: "('z scope_tree_scheme, unit) M" where
  "ExitScope =
     bnd (gets (\<lambda>s. case g_scope_current s of None \<Rightarrow> None | Some c \<Rightarrow> GetScopeById s c)) (\<lambda>sc.
     case sc of
       None \<Rightarrow> throw Null_dereference
     | Some sc \<Rightarrow> modify (\<lambda>s. s\<lparr>g_scope_current := sc_parent sc\<rparr>))"

fun BuildScopeTreeImpl :: "IR \<Rightarrow> ('z scope_tree_scheme, IR) M" where
  "BuildScopeTreeImpl NullIR = return NullIR"
| "BuildScopeTreeImpl (Node a i l r) =
     bnd (if ir_scope_type i \<noteq> kScopeDefault then EnterScope (ir_scope_type i) else return ()) (\<lambda>_.
     bnd (gets g_scope_current) (\<lambda>cur.
     bnd (BuildScopeTreeImpl l) (\<lambda>l'.
     bnd (BuildScopeTreeImpl r) (\<lambda>r'.
     bnd (if ir_scope_type i \<noteq> kScopeDefault then ExitScope else return ()) (\<lambda>_.
     return (Node a (case cur of Some sid \<Rightarrow> i\<lparr>ir_scope_id := sid\<rparr> | None \<Rightarrow> i) l' r'))))))"

text \<open>A new \<open>ScopeTree\<close> object: no scopes, a new type system.\<close>

definition new_ScopeTree :: "configuration \<Rightarrow> ('z scope_tree_scheme, unit) M" where
  "new_ScopeTree c =
     bnd (modify (\<lambda>s. s\<lparr>g_scope_id_counter := 0, g_scope_root := None, g_scope_current := None,
                       scope_id_map := []\<rparr>)) (\<lambda>_.
     new_TypeSystem c)"

definition BuildTree :: "configuration \<Rightarrow> IR \<Rightarrow> ('z scope_tree_scheme, IR) M" where
  "BuildTree c root = bnd (new_ScopeTree c) (\<lambda>_. BuildScopeTreeImpl root)"

text \<open>
  \<open>Scope::AddDefinition(name, type, id, scope_type)\<close>: in a weakly typed language a definition goes
  to the nearest enclosing scope of the wanted type (to the scope itself when there is none) and a
  name is entered there once. The walk along the parents ends because ids decrease.
\<close>

primrec enclosing_of_type :: "nat \<Rightarrow> 'z scope_tree_scheme \<Rightarrow> ScopeID \<Rightarrow> ScopeType \<Rightarrow> ScopeID option" where
  "enclosing_of_type 0 s sid stype = None"
| "enclosing_of_type (Suc n) s sid stype =
     (case GetScopeById s sid of
        None \<Rightarrow> None
      | Some sc \<Rightarrow>
          if sc_type sc = stype then Some sid
          else (case sc_parent sc of None \<Rightarrow> None | Some p \<Rightarrow> enclosing_of_type n s p stype))"

definition AddDefinition_scoped ::
  "configuration \<Rightarrow> ScopeID \<Rightarrow> string \<Rightarrow> TypeID \<Rightarrow> StatementID \<Rightarrow> ScopeType \<Rightarrow> ('z scope_tree_scheme, unit) M" where
  "AddDefinition_scoped c sid var_name type stmt stype =
     (if type = kNotExist then return ()
      else if IsWeakType c \<and> stype \<noteq> kScopeStatement then
        bnd (gets (\<lambda>s. case enclosing_of_type (length (scope_id_map s)) s sid stype of None \<Rightarrow> sid | Some p \<Rightarrow> p)) (\<lambda>p.
        bnd (gets (\<lambda>s. GetScopeById s p)) (\<lambda>sc.
        case sc of
          None \<Rightarrow> throw Null_dereference
        | Some sc \<Rightarrow>
            if var_name \<in> sc_defined_names sc then return ()
            else bnd (modify_scope p (\<lambda>sc. sc\<lparr>sc_defined_names := insert var_name (sc_defined_names sc)\<rparr>)) (\<lambda>_.
                 AddDefinition p var_name type stmt)))
      else AddDefinition sid var_name type stmt)"

section \<open>The numbering\<close>

definition opens :: "IRInfo \<Rightarrow> bool" where
  "opens i \<longleftrightarrow> ir_scope_type i \<noteq> kScopeDefault"

fun scope_count :: "IR \<Rightarrow> nat" where
  "scope_count NullIR = 0"
| "scope_count (Node a i l r) = (if opens i then 1 else 0) + scope_count l + scope_count r"

fun outermost :: "IR \<Rightarrow> nat" where
  "outermost NullIR = 0"
| "outermost (Node a i l r) = (if opens i then 1 else outermost l + outermost r)"

definition with_scope :: "ScopeID option \<Rightarrow> IRInfo \<Rightarrow> IRInfo" where
  "with_scope c i = (case c of Some sid \<Rightarrow> i\<lparr>ir_scope_id := sid\<rparr> | None \<Rightarrow> i)"

text \<open>\<open>number c n t\<close>: scopes below a scope \<open>c\<close> numbered in preorder from \<open>n + 1\<close>; \<open>scopes_of\<close> lists
  them with their type and parent.\<close>

fun number :: "ScopeID option \<Rightarrow> nat \<Rightarrow> IR \<Rightarrow> IR" where
  "number c n NullIR = NullIR"
| "number c n (Node a i l r) =
     (if opens i
      then let k = Some (word_of_nat (Suc n)) in
           Node a (with_scope k i) (number k (Suc n) l) (number k (Suc n + scope_count l) r)
      else Node a (with_scope c i) (number c n l) (number c (n + scope_count l) r))"

fun scopes_of :: "ScopeID option \<Rightarrow> nat \<Rightarrow> IR \<Rightarrow> (ScopeID \<times> ScopeType \<times> ScopeID option) list" where
  "scopes_of c n NullIR = []"
| "scopes_of c n (Node a i l r) =
     (if opens i
      then let k = word_of_nat (Suc n) in
           (k, ir_scope_type i, c) # scopes_of (Some k) (Suc n) l @ scopes_of (Some k) (Suc n + scope_count l) r
      else scopes_of c n l @ scopes_of c (n + scope_count l) r)"

lemma length_scopes_of [simp]: "length (scopes_of c n t) = scope_count t"
  by (induction c n t rule: scopes_of.induct) (auto simp: Let_def)

lemma outermost_0_iff: "outermost t = 0 \<longleftrightarrow> scope_count t = 0"
  by (induction t) auto

lemma scopes_of_keys: "fst ` set (scopes_of c n t) = word_of_nat ` {Suc n .. n + scope_count t}"
proof (induction c n t rule: scopes_of.induct)
  case (1 c n)
  show ?case by simp
next
  case (2 c n a i l r)
  have split: "{Suc m .. m + (x + y)} = {Suc m .. m + x} \<union> {Suc (m + x) .. m + x + y}" for m x y :: nat by auto
  show ?case
  proof (cases "opens i")
    case True
    have "{Suc n .. n + scope_count (Node a i l r)} =
        insert (Suc n) ({Suc (Suc n) .. Suc n + scope_count l} \<union> {Suc (Suc n + scope_count l) .. Suc n + scope_count l + scope_count r})"
      using True by auto
    then show ?thesis using True 2 by (simp only: scopes_of.simps if_True Let_def) (simp add: image_Un)
  next
    case False
    have "{Suc n .. n + scope_count (Node a i l r)} =
        {Suc n .. n + scope_count l} \<union> {Suc (n + scope_count l) .. n + scope_count l + scope_count r}"
      using False by auto
    then show ?thesis using False 2 by (simp only: scopes_of.simps if_False) (simp add: image_Un)
  qed
qed

section \<open>The invariant of the scope tree\<close>

definition scope_ids :: "'z scope_tree_scheme \<Rightarrow> ScopeID set" where
  "scope_ids s = fst ` set (scope_id_map s)"

definition scopes_wf :: "'z scope_tree_scheme \<Rightarrow> bool" where
  "scopes_wf s \<longleftrightarrow> om_sorted (scope_id_map s) \<and> 0 \<le> g_scope_id_counter s \<and> g_scope_id_counter s < 2 ^ 31 \<and>
     scope_ids s = word_of_nat ` {1 .. nat (g_scope_id_counter s)} \<and>
     (\<forall>k sc. GetScopeById s k = Some sc \<longrightarrow>
        (\<forall>p. sc_parent sc = Some p \<longrightarrow> p \<in> scope_ids s \<and> p < k) \<and> os_sorted (sc_children sc) \<and>
        (\<forall>j. j \<in> set (sc_children sc) \<longleftrightarrow> (\<exists>sj. GetScopeById s j = Some sj \<and> sc_parent sj = Some k)))"

lemma scopes_wfD:
  assumes "scopes_wf s"
  shows "om_sorted (scope_id_map s)" and "0 \<le> g_scope_id_counter s" and "g_scope_id_counter s < 2 ^ 31"
    and "scope_ids s = word_of_nat ` {1 .. nat (g_scope_id_counter s)}"
    and "\<And>k sc p. GetScopeById s k = Some sc \<Longrightarrow> sc_parent sc = Some p \<Longrightarrow> p \<in> scope_ids s \<and> p < k"
    and "\<And>k sc. GetScopeById s k = Some sc \<Longrightarrow> os_sorted (sc_children sc)"
    and "\<And>k sc j. GetScopeById s k = Some sc \<Longrightarrow>
           j \<in> set (sc_children sc) \<longleftrightarrow> (\<exists>sj. GetScopeById s j = Some sj \<and> sc_parent sj = Some k)"
  using assms unfolding scopes_wf_def by blast+

lemma scope_ids_iff: "k \<in> scope_ids s \<longleftrightarrow> (\<exists>sc. GetScopeById s k = Some sc)"
  by (auto simp: scope_ids_def om_keys_dom GetScopeById_def)

text \<open>What a part of the construction may change: it adds scopes and children.\<close>

definition scope_view :: "'z scope_tree_scheme \<Rightarrow> ScopeID \<Rightarrow> (ScopeType \<times> ScopeID option \<times> symbol_table \<times> string set) option" where
  "scope_view s k = map_option (\<lambda>sc. (sc_type sc, sc_parent sc, sc_table sc, sc_defined_names sc)) (GetScopeById s k)"

definition but_scopes :: "'z scope_tree_scheme \<Rightarrow> 'z scope_tree_scheme" where
  "but_scopes s = s\<lparr>g_scope_id_counter := 0, g_scope_root := None, g_scope_current := None, scope_id_map := []\<rparr>"

definition built :: "'z scope_tree_scheme \<Rightarrow> 'z scope_tree_scheme \<Rightarrow>
    (ScopeID \<times> ScopeType \<times> ScopeID option) list \<Rightarrow> bool" where
  "built s s' news \<longleftrightarrow>
     g_scope_id_counter s' = g_scope_id_counter s + int (length news) \<and> but_scopes s' = but_scopes s \<and>
     g_scope_root s' = g_scope_root s \<and> g_scope_current s' = g_scope_current s \<and>
     scope_ids s' = scope_ids s \<union> fst ` set news \<and>
     (\<forall>k\<in>scope_ids s. scope_view s' k = scope_view s k) \<and>
     (\<forall>(k, ty, par)\<in>set news. scope_view s' k = Some (ty, par, [], {}))"

lemma scope_view_ids: "k \<in> scope_ids s \<longleftrightarrow> scope_view s k \<noteq> None"
  by (auto simp: scope_ids_iff scope_view_def)

lemma built_refl [simp]: "built s s []"
  by (simp add: built_def)

lemma built_trans:
  assumes "built s s' news" and "built s' s'' news'"
  shows "built s s'' (news @ news')"
proof -
  have "scope_view s'' k = Some (ty, par, [], {})" if "(k, ty, par) \<in> set news" for k ty par
  proof -
    have "scope_view s' k = Some (ty, par, [], {})" using assms(1) that by (auto simp: built_def)
    moreover from this have "k \<in> scope_ids s'" by (simp add: scope_view_ids)
    ultimately show ?thesis using assms(2) by (simp add: built_def)
  qed
  then show ?thesis using assms by (auto simp: built_def)
qed

lemma scopes_wf_current [simp]: "scopes_wf (s\<lparr>g_scope_current := c\<rparr>) = scopes_wf s"
  by (simp add: scopes_wf_def scope_ids_def GetScopeById_def)

lemma current_irrelevant [simp]:
  "GetScopeById (s\<lparr>g_scope_current := c\<rparr>) = GetScopeById s" "scope_ids (s\<lparr>g_scope_current := c\<rparr>) = scope_ids s"
  "scope_view (s\<lparr>g_scope_current := c\<rparr>) = scope_view s" "but_scopes (s\<lparr>g_scope_current := c\<rparr>) = but_scopes s"
  by (simp_all add: fun_eq_iff GetScopeById_def scope_ids_def scope_view_def but_scopes_def)

lemma built_current: "built s s' news \<Longrightarrow> built (s\<lparr>g_scope_current := c\<rparr>) (s'\<lparr>g_scope_current := c\<rparr>) news"
  by (simp add: built_def)

lemma small_word_less: "i < 2 ^ 31 \<Longrightarrow> j < 2 ^ 31 \<Longrightarrow> (word_of_nat i :: 64 word) < word_of_nat j \<longleftrightarrow> i < j"
  by (simp add: word_less_nat_alt unsigned_of_nat take_bit_nat_eq_self)

lemma small_word_eq: "i < 2 ^ 31 \<Longrightarrow> j < 2 ^ 31 \<Longrightarrow> (word_of_nat i :: 64 word) = word_of_nat j \<longleftrightarrow> i = j"
  by (metis linorder_neqE_nat less_irrefl small_word_less)

lemma scopes_wf_fresh:
  assumes "scopes_wf s" and "g_scope_id_counter s + 1 < 2 ^ 31" and "k = word_of_nat (Suc (nat (g_scope_id_counter s)))"
  shows "k \<notin> scope_ids s" and "j \<in> scope_ids s \<Longrightarrow> j < k" and "GetScopeById s k = None"
proof -
  have *: "j < k" if "j \<in> scope_ids s" for j
  proof -
    have "j \<in> word_of_nat ` {1 .. nat (g_scope_id_counter s)}" using that scopes_wfD(4) [OF assms(1)] by simp
    then obtain i where i: "j = word_of_nat i" "i \<le> nat (g_scope_id_counter s)" by auto
    then show ?thesis unfolding assms(3) i(1) using scopes_wfD(2,3) [OF assms(1)] assms(2)
      by (subst small_word_less) auto
  qed
  then show "j \<in> scope_ids s \<Longrightarrow> j < k" by simp
  show "k \<notin> scope_ids s" using * by auto
  then show "GetScopeById s k = None" by (simp add: scope_ids_iff)
qed

text \<open>The state after entering a scope below \<open>p\<close>.\<close>

definition entered :: "ScopeType \<Rightarrow> ScopeID \<Rightarrow> ScopeID \<Rightarrow> scope \<Rightarrow> 'z scope_tree_scheme \<Rightarrow> 'z scope_tree_scheme" where
  "entered ty k p psc s = s\<lparr>g_scope_id_counter := g_scope_id_counter s + 1, g_scope_current := Some k,
     scope_id_map := om_put p (psc\<lparr>sc_children := os_insert k (sc_children psc)\<rparr>)
       (om_put k \<lparr>sc_type = ty, sc_parent = Some p, sc_children = [], sc_table = [], sc_defined_names = {}\<rparr>
         (om_put k \<lparr>sc_type = ty, sc_parent = None, sc_children = [], sc_table = [], sc_defined_names = {}\<rparr>
           (scope_id_map s)))\<rparr>"

lemma entered_lookup:
  "GetScopeById (entered ty k p psc s) j =
     (if j = p then Some (psc\<lparr>sc_children := os_insert k (sc_children psc)\<rparr>)
      else if j = k then Some \<lparr>sc_type = ty, sc_parent = Some p, sc_children = [], sc_table = [], sc_defined_names = {}\<rparr>
      else GetScopeById s j)"
  by (simp add: entered_def GetScopeById_def om_get_put)

lemma EnterScope_apply:
  assumes "scopes_wf s" and "g_scope_current s = Some p" and "GetScopeById s p = Some psc" and "g_scope_root s \<noteq> None"
    and "g_scope_id_counter s + 1 < 2 ^ 31" and "k = word_of_nat (Suc (nat (g_scope_id_counter s)))"
  shows "EnterScope ty s = Inr ((), entered ty k p psc s)"
proof -
  obtain n where n: "g_scope_id_counter s = int n"
    using scopes_wfD(2) [OF assms(1)] nonneg_int_cases by blast
  then have k: "k = word_of_nat n + 1" "word_of_int (g_scope_id_counter s) = (word_of_nat n :: 64 word)"
    by (simp_all add: assms(6))
  have "p \<noteq> k" using scopes_wf_fresh(3) [OF assms(1,5,6)] assms(3) by auto
  then show ?thesis
    using assms(2-4)
    by (auto simp: EnterScope_def GenScope_def modify_scope_def bnd_def m_eval k n GetScopeById_def om_get_put entered_def)
qed

lemma entered_ids: "scope_ids (entered ty k p psc s) = insert p (insert k (scope_ids s))"
  by (simp add: scope_ids_def entered_def om_put_fst)

text \<open>The new scope is a child of \<open>p\<close>, all other relations stay.\<close>

lemma entered_children:
  assumes "GetScopeById s p = Some psc" and "p \<noteq> k" and "GetScopeById s k = None"
  shows "(\<exists>sj. GetScopeById (entered ty k p psc s) j = Some sj \<and> sc_parent sj = Some h) \<longleftrightarrow>
      j = k \<and> h = p \<or> (\<exists>sj. GetScopeById s j = Some sj \<and> sc_parent sj = Some h)"
  using assms by (auto simp: entered_lookup)

lemma entered_scope:
  assumes wf: "scopes_wf s" and p: "GetScopeById s p = Some psc"
    and c: "g_scope_id_counter s + 1 < 2 ^ 31" and k: "k = word_of_nat (Suc (nat (g_scope_id_counter s)))"
    and h: "GetScopeById (entered ty k p psc s) h = Some sc"
  shows "(\<forall>q. sc_parent sc = Some q \<longrightarrow> q \<in> scope_ids (entered ty k p psc s) \<and> q < h) \<and> os_sorted (sc_children sc) \<and>
    (\<forall>j. j \<in> set (sc_children sc) \<longleftrightarrow> (\<exists>sj. GetScopeById (entered ty k p psc s) j = Some sj \<and> sc_parent sj = Some h))"
proof -
  note fr = scopes_wf_fresh [OF wf c k]
  have pk: "p \<noteq> k" "p \<in> scope_ids s" using fr(3) p by (auto simp: scope_ids_iff)
  note par = entered_children [OF p pk(1) fr(3)]
  show ?thesis
  proof (cases "h = k")
    case True
    then have sc: "sc_parent sc = Some p" "sc_children sc = []" using h pk by (auto simp: entered_lookup)
    have "\<not> (\<exists>sj. GetScopeById s j = Some sj \<and> sc_parent sj = Some h)" for j
      using scopes_wfD(5) [OF wf] fr(1) True by blast
    moreover have "p < h" using fr(2) [OF pk(2)] True by simp
    ultimately show ?thesis using pk True sc unfolding par by (auto simp: entered_ids os_sorted_def)
  next
    case False
    obtain sc0 where sc0: "GetScopeById s h = Some sc0" "sc_parent sc = sc_parent sc0"
      "sc_children sc = (if h = p then os_insert k (sc_children sc0) else sc_children sc0)"
      using h False p by (auto simp: entered_lookup split: if_splits)
    then show ?thesis
      using scopes_wfD(5,6,7) [OF wf sc0(1)] unfolding par by (auto simp: entered_ids os_sorted_insert)
  qed
qed

lemma entered_wf:
  assumes wf: "scopes_wf s" and p: "GetScopeById s p = Some psc"
    and c: "g_scope_id_counter s + 1 < 2 ^ 31" and k: "k = word_of_nat (Suc (nat (g_scope_id_counter s)))"
  shows "scopes_wf (entered ty k p psc s)"
    and "built s ((entered ty k p psc s)\<lparr>g_scope_current := g_scope_current s\<rparr>) [(k, ty, Some p)]"
proof -
  let ?s = "entered ty k p psc s"
  note fr = scopes_wf_fresh [OF wf c k]
  have pk: "p \<noteq> k" "p \<in> scope_ids s" using fr(3) p by (auto simp: scope_ids_iff)
  have ids: "scope_ids ?s = insert k (scope_ids s)" using pk by (auto simp: entered_ids)
  have cnt: "nat (g_scope_id_counter ?s) = Suc (nat (g_scope_id_counter s))" "g_scope_id_counter ?s = g_scope_id_counter s + 1"
    using scopes_wfD(2) [OF wf] by (simp_all add: entered_def)
  have rng: "{1 .. Suc n} = insert (Suc n) {1 .. n}" for n :: nat by auto
  show "scopes_wf ?s"
    unfolding scopes_wf_def cnt(1)
  proof (intro conjI allI impI)
    show "om_sorted (scope_id_map ?s)" using scopes_wfD(1) [OF wf] by (simp add: entered_def om_sorted_put)
    show "scope_ids ?s = word_of_nat ` {1 .. Suc (nat (g_scope_id_counter s))}"
      unfolding ids scopes_wfD(4) [OF wf] unfolding rng k by simp
  qed (use entered_scope [OF assms, of ty] c cnt(2) scopes_wfD(2) [OF wf] in auto)
  show "built s (?s\<lparr>g_scope_current := g_scope_current s\<rparr>) [(k, ty, Some p)]"
    unfolding built_def
  proof (intro conjI ballI, goal_cases)
    case 5
    show ?case using ids by (simp add: scope_ids_def)
  next
    case (6 h)
    then have "h \<noteq> k" using fr(1) by auto
    then show ?case using p by (simp add: scope_view_def entered_lookup)
  next
    case (7 x)
    then show ?case using pk by (simp add: scope_view_def entered_lookup)
  qed (simp_all add: but_scopes_def entered_def)
qed

section \<open>Building inside a scope\<close>

lemma built_ids: "built s s' news \<Longrightarrow> k \<in> scope_ids s \<Longrightarrow> k \<in> scope_ids s'"
  by (simp add: built_def)

lemma built_counter: "built s s' news \<Longrightarrow> g_scope_id_counter s' = g_scope_id_counter s + int (length news)"
  by (simp add: built_def)

text \<open>Ready to build inside the scope \<open>p\<close>, after \<open>n\<close> scopes.\<close>

definition building :: "ScopeID \<Rightarrow> nat \<Rightarrow> 'z scope_tree_scheme \<Rightarrow> bool" where
  "building p n s \<longleftrightarrow> scopes_wf s \<and> g_scope_current s = Some p \<and> p \<in> scope_ids s \<and> g_scope_root s \<noteq> None \<and>
     g_scope_id_counter s = int n"

text \<open>A tree builds if it gets its numbers and scopes wherever its construction starts.\<close>

definition builds :: "'z itself \<Rightarrow> IR \<Rightarrow> bool" where
  "builds _ t \<longleftrightarrow> (\<forall>p n (s :: 'z scope_tree_scheme). building p n s \<longrightarrow> n + scope_count t < 2 ^ 31 \<longrightarrow>
     ok (BuildScopeTreeImpl t) s (\<lambda>t' s'. t' = number (Some p) n t \<and> scopes_wf s' \<and> built s s' (scopes_of (Some p) n t)))"

lemma buildsD:
  "builds TYPE('z) t \<Longrightarrow> building p n (s :: 'z scope_tree_scheme) \<Longrightarrow> n + scope_count t < 2 ^ 31 \<Longrightarrow>
     ok (BuildScopeTreeImpl t) s (\<lambda>t' s'. t' = number (Some p) n t \<and> scopes_wf s' \<and> built s s' (scopes_of (Some p) n t))"
  by (simp add: builds_def)

lemma building_later: "building p n s \<Longrightarrow> scopes_wf s' \<Longrightarrow> built s s' news \<Longrightarrow> building p (n + length news) s'"
  by (auto simp: building_def built_def)

lemma ok_build_children:
  fixes s :: "'z scope_tree_scheme"
  assumes "builds TYPE('z) l" and "builds TYPE('z) r" and "building q m s" and "m + scope_count l + scope_count r < 2 ^ 31"
    and f: "\<And>s'. scopes_wf s' \<Longrightarrow> built s s' (scopes_of (Some q) m l @ scopes_of (Some q) (m + scope_count l) r) \<Longrightarrow>
      ok (f (number (Some q) m l) (number (Some q) (m + scope_count l) r)) s' Q"
  shows "ok (bnd (BuildScopeTreeImpl l) (\<lambda>l'. bnd (BuildScopeTreeImpl r) (\<lambda>r'. f l' r'))) s Q"
  unfolding ok_bnd
proof (rule ok_mono [OF buildsD [OF assms(1,3)]], goal_cases)
  case 1
  then show ?case using assms(4) by simp
next
  case (2 l' s2)
  then have b: "built s s2 (scopes_of (Some q) m l)" by simp
  have "building q (m + scope_count l) s2" using building_later [OF assms(3) _ b] 2 by simp
  then show ?case
    by (rule ok_mono [OF buildsD [OF assms(2)]]) (use 2 assms(4) built_trans [OF b] f in auto)
qed

lemma ExitScope_built:
  assumes "built s s' news" and "g_scope_current s = Some k" and "scope_view s k = Some (ty, Some p, [], {})"
  shows "ok (bnd ExitScope (\<lambda>_. return t)) s' (\<lambda>u s''. u = t \<and> s'' = s'\<lparr>g_scope_current := Some p\<rparr>)"
proof -
  have "k \<in> scope_ids s" using assms(3) by (simp add: scope_view_ids)
  then have "scope_view s' k = Some (ty, Some p, [], {})" "g_scope_current s' = Some k"
    using assms by (simp_all add: built_def)
  then show ?thesis by (auto simp: ExitScope_def ok_def bnd_def m_eval scope_view_def)
qed

text \<open>A node that opens a scope enters it, builds its children inside it and leaves it.\<close>

lemma ok_build_opening:
  fixes s :: "'z scope_tree_scheme"
  assumes bl: "builds TYPE('z) l" "builds TYPE('z) r" and b: "building p n s" and o: "opens i"
    and n: "n + scope_count (Node a i l r) < 2 ^ 31"
  shows "ok (BuildScopeTreeImpl (Node a i l r)) s (\<lambda>t' s'. t' = number (Some p) n (Node a i l r) \<and> scopes_wf s' \<and>
     built s s' (scopes_of (Some p) n (Node a i l r)))"
proof -
  let ?k = "word_of_nat (Suc n)" and ?ty = "ir_scope_type i"
  have s: "scopes_wf s" "g_scope_current s = Some p" "p \<in> scope_ids s" "g_scope_root s \<noteq> None" "g_scope_id_counter s = int n"
    using b by (simp_all add: building_def)
  obtain psc where psc: "GetScopeById s p = Some psc" using s(3) by (auto simp: scope_ids_iff)
  let ?s = "entered ?ty ?k p psc s"
  have cn: "g_scope_id_counter s + 1 < 2 ^ 31" "?k = word_of_nat (Suc (nat (g_scope_id_counter s)))"
    using s(5) n o by simp_all
  note en = EnterScope_apply [OF s(1,2) psc s(4) cn]
  note wf = entered_wf [OF s(1) psc cn]
  have cur: "g_scope_current ?s = Some ?k" by (simp add: entered_def)
  have inside: "building ?k (Suc n) ?s"
    using s wf(1) by (simp add: building_def entered_ids) (simp add: entered_def)
  have view: "scope_view ?s ?k = Some (?ty, Some p, [], {})" using wf(2) by (simp add: built_def)
  have step: "ok (BuildScopeTreeImpl (Node a i l r)) s Q =
      ok (bnd (BuildScopeTreeImpl l) (\<lambda>l'. bnd (BuildScopeTreeImpl r) (\<lambda>r'.
        bnd ExitScope (\<lambda>_. return (Node a (i\<lparr>ir_scope_id := ?k\<rparr>) l' r'))))) ?s Q" for Q
    using o cur by (simp add: opens_def ok_def bnd_def en m_eval split: sum.splits prod.splits)
  show ?thesis
    unfolding step
  proof (rule ok_build_children [OF bl inside], goal_cases)
    case 1
    then show ?case using n o by simp
  next
    case (2 s3)
    have "built s (s3\<lparr>g_scope_current := Some p\<rparr>)
        ([(?k, ?ty, Some p)] @ scopes_of (Some ?k) (Suc n) l @ scopes_of (Some ?k) (Suc n + scope_count l) r)"
      using built_trans [OF wf(2) built_current [OF 2(2), of "g_scope_current s"]] s(2) by simp
    then show ?case
      using 2(1) o by (intro ok_mono [OF ExitScope_built [OF 2(2) cur view]]) (simp add: with_scope_def Let_def)
  qed
qed

lemma builds_all: "builds TYPE('z) t"
proof (induction t)
  case NullIR
  then show ?case by (simp add: builds_def building_def ok_return)
next
  case (Node a i l r)
  show ?case
    unfolding builds_def
  proof (intro allI impI)
    fix p n and s :: "'z scope_tree_scheme"
    assume b: "building p n s" and n: "n + scope_count (Node a i l r) < 2 ^ 31"
    show "ok (BuildScopeTreeImpl (Node a i l r)) s (\<lambda>t' s'. t' = number (Some p) n (Node a i l r) \<and> scopes_wf s' \<and>
        built s s' (scopes_of (Some p) n (Node a i l r)))"
    proof (cases "opens i")
      case True
      then show ?thesis by (rule ok_build_opening [OF Node.IH b _ n])
    next
      case False
      have step: "ok (BuildScopeTreeImpl (Node a i l r)) s Q =
          ok (bnd (BuildScopeTreeImpl l) (\<lambda>l'. bnd (BuildScopeTreeImpl r) (\<lambda>r'.
            return (Node a (i\<lparr>ir_scope_id := p\<rparr>) l' r')))) s Q" for Q
        using False b by (simp add: building_def ok_def bnd_def m_eval opens_def split: sum.splits prod.splits)
      show ?thesis
        unfolding step by (rule ok_build_children [OF Node.IH b]) (use n False in \<open>simp_all add: ok_return with_scope_def\<close>)
    qed
  qed
qed

section \<open>Building outside of every scope\<close>

lemma number_no_scopes: "scope_count t = 0 \<Longrightarrow> number None n t = t"
  by (induction t arbitrary: n) (auto simp: with_scope_def split: if_splits)

lemma scopes_of_no_scopes: "scope_count t = 0 \<Longrightarrow> scopes_of c n t = []"
  by (induction t arbitrary: n) (auto split: if_splits)

lemma Build_no_scopes: "scope_count t = 0 \<Longrightarrow> g_scope_current s = None \<Longrightarrow> BuildScopeTreeImpl t s = Inr (t, s)"
  by (induction t arbitrary: s) (auto simp: bnd_def m_eval opens_def split: if_splits)

lemma Build_second:
  "scope_count t \<noteq> 0 \<Longrightarrow> g_scope_current s = None \<Longrightarrow> g_scope_root s \<noteq> None \<Longrightarrow>
   BuildScopeTreeImpl t s = Inl Null_dereference"
proof (induction t arbitrary: s)
  case NullIR
  then show ?case by simp
next
  case (Node a i l r)
  show ?case
  proof (cases "opens i")
    case True
    then show ?thesis using Node.prems
      by (auto simp: opens_def bnd_def m_eval EnterScope_def GenScope_def modify_scope_def GetScopeById_def om_get_put)
  next
    case False
    then show ?thesis
      using Node Build_no_scopes [of l s] by (cases "scope_count l = 0") (auto simp: opens_def bnd_def m_eval)
  qed
qed

text \<open>A scope tree object before its first scope.\<close>

definition no_scopes :: "'z scope_tree_scheme \<Rightarrow> bool" where
  "no_scopes s \<longleftrightarrow> g_scope_id_counter s = 0 \<and> g_scope_root s = None \<and> g_scope_current s = None \<and> scope_id_map s = []"

definition first_scope :: "ScopeType \<Rightarrow> 'z scope_tree_scheme \<Rightarrow> 'z scope_tree_scheme" where
  "first_scope ty s = s\<lparr>g_scope_id_counter := 1, g_scope_root := Some 1, g_scope_current := Some 1,
     scope_id_map := [(1, \<lparr>sc_type = ty, sc_parent = None, sc_children = [], sc_table = [], sc_defined_names = {}\<rparr>)]\<rparr>"

lemma first_scope_wf: "scopes_wf (first_scope ty s)" "scope_ids (first_scope ty s) = {1}"
  "scope_view (first_scope ty s) 1 = Some (ty, None, [], {})"
  by (auto simp: scopes_wf_def first_scope_def scope_ids_def GetScopeById_def om_get_def os_sorted_def om_sorted_def
      scope_view_def)

lemma EnterScope_first: "no_scopes s \<Longrightarrow> EnterScope ty s = Inr ((), first_scope ty s)"
  by (simp add: EnterScope_def GenScope_def no_scopes_def bnd_def m_eval first_scope_def)

text \<open>The tree of scopes a program with one outermost scope gets.\<close>

definition built_program :: "'z scope_tree_scheme \<Rightarrow> IR \<Rightarrow> 'z scope_tree_scheme \<Rightarrow> bool" where
  "built_program s t s' \<longleftrightarrow> scopes_wf s' \<and> g_scope_current s' = None \<and> g_scope_root s' = Some 1 \<and>
     but_scopes s' = but_scopes s \<and> scope_ids s' = word_of_nat ` {1 .. scope_count t} \<and>
     (\<forall>(k, ty, par)\<in>set (scopes_of None 0 t). scope_view s' k = Some (ty, par, [], {}))"

lemma ok_Build_opening:
  assumes s: "no_scopes s" and o: "opens i" and n: "scope_count (Node a i l r) < 2 ^ 31"
  shows "ok (BuildScopeTreeImpl (Node a i l r)) s (\<lambda>t' s'. t' = number None 0 (Node a i l r) \<and>
     built_program s (Node a i l r) s')"
proof -
  let ?ty = "ir_scope_type i"
  let ?s = "first_scope ?ty s"
  have c: "g_scope_current ?s = Some 1" "1 \<in> scope_ids ?s" "g_scope_root ?s \<noteq> None" "g_scope_id_counter ?s = int 1"
    by (simp_all add: first_scope_wf) (simp_all add: first_scope_def)
  have step: "ok (BuildScopeTreeImpl (Node a i l r)) s Q =
      ok (bnd (BuildScopeTreeImpl l) (\<lambda>l'. bnd (BuildScopeTreeImpl r) (\<lambda>r'.
        bnd ExitScope (\<lambda>_. return (Node a (i\<lparr>ir_scope_id := 1\<rparr>) l' r'))))) ?s Q" for Q
    using o c(1) by (simp add: ok_def bnd_def EnterScope_first [OF s] m_eval opens_def split: sum.splits prod.splits)
  have inside: "building 1 1 ?s" using c first_scope_wf(1) by (simp add: building_def)
  show ?thesis
    unfolding step
  proof (rule ok_build_children [OF builds_all builds_all inside], goal_cases)
    case 1
    show ?case using n o by simp
  next
    case (2 s3)
    note b = 2(2)
    have view: "scope_view s3 1 = Some (?ty, None, [], {})" using b by (simp add: built_def first_scope_wf)
    then obtain sc where sc: "GetScopeById s3 1 = Some sc" "sc_parent sc = None" by (auto simp: scope_view_def)
    have "g_scope_current s3 = Some 1" using b c(1) by (simp add: built_def)
    then have ex: "ExitScope s3 = Inr ((), s3\<lparr>g_scope_current := None\<rparr>)"
      using sc by (simp add: ExitScope_def bnd_def m_eval)
    have ids: "scope_ids s3 = word_of_nat ` {1 .. scope_count (Node a i l r)}"
      using scopes_wfD(4) [OF 2(1)] built_counter [OF b] c(4) o nat_int [of "Suc (scope_count l + scope_count r)"]
      by (simp del: nat_int)
    have "but_scopes s3 = but_scopes s" "g_scope_root s3 = Some 1" using b by (simp_all add: built_def but_scopes_def first_scope_def)
    moreover have "\<forall>(k, ty, par)\<in>set (scopes_of None 0 (Node a i l r)). scope_view s3 k = Some (ty, par, [], {})"
      using b o view by (auto simp: built_def Let_def)
    ultimately show ?case
      using 2(1) o ids
      by (simp add: ok_def bnd_def ex m_eval built_program_def with_scope_def Let_def del: scopes_of.simps)
  qed
qed

lemma Build_outside:
  assumes "no_scopes s" and "scope_count t < 2 ^ 31"
  shows "(outermost t = 1 \<longrightarrow> ok (BuildScopeTreeImpl t) s (\<lambda>t' s'. t' = number None 0 t \<and> built_program s t s')) \<and>
    (1 < outermost t \<longrightarrow> BuildScopeTreeImpl t s = Inl Null_dereference)"
  using assms
proof (induction t)
  case NullIR
  then show ?case by simp
next
  case (Node a i l r)
  have cur: "g_scope_current s = None" using Node.prems(1) by (simp add: no_scopes_def)
  show ?case
  proof (cases "opens i")
    case True
    then show ?thesis using ok_Build_opening [OF Node.prems(1) True Node.prems(2)] by simp
  next
    case False
    then have n: "scope_count l < 2 ^ 31" "scope_count r < 2 ^ 31" using Node.prems(2) by simp_all
    note L = Node.IH(1) [OF Node.prems(1) n(1)] and R = Node.IH(2) [OF Node.prems(1) n(2)]
    have step: "BuildScopeTreeImpl (Node a i l r) s =
        bnd (BuildScopeTreeImpl l) (\<lambda>l'. bnd (BuildScopeTreeImpl r) (\<lambda>r'. return (Node a i l' r'))) s"
      using False cur by (simp add: bnd_def m_eval opens_def split: sum.splits prod.splits)
    consider (none) "scope_count l = 0" | (one) "outermost l = 1" | (more) "1 < outermost l"
      using outermost_0_iff [of l] by linarith
    then show ?thesis
    proof cases
      case none
      note l = Build_no_scopes [OF none cur] number_no_scopes [OF none] scopes_of_no_scopes [OF none]
      have o: "outermost l = 0" using none by (simp add: outermost_0_iff)
      have bp: "built_program s (Node a i l r) s' = built_program s r s'" for s'
        using False by (simp add: built_program_def l none)
      show ?thesis
        using R False o by (auto simp: step ok_Inr_iff bnd_def m_eval l none with_scope_def bp simp del: BuildScopeTreeImpl.simps)
    next
      case one
      then obtain s2 where l: "BuildScopeTreeImpl l s = Inr (number None 0 l, s2)" "built_program s l s2"
        using L by (auto simp: ok_Inr_iff)
      then have s2: "g_scope_current s2 = None" "g_scope_root s2 \<noteq> None" by (simp_all add: built_program_def)
      show ?thesis
      proof (cases "scope_count r = 0")
        case True
        have bp: "built_program s (Node a i l r) s2 = built_program s l s2"
          using False by (simp add: built_program_def True scopes_of_no_scopes)
        show ?thesis
          using False one l(2) outermost_0_iff [of r] True
          by (simp add: step ok_Inr_iff bnd_def m_eval l(1) Build_no_scopes [OF True s2(1)] bp with_scope_def
              number_no_scopes del: BuildScopeTreeImpl.simps)
      next
        case False
        then have "0 < outermost r" using outermost_0_iff [of r] by simp
        then show ?thesis
          using \<open>\<not> opens i\<close> one by (simp add: step bnd_def l(1) Build_second [OF False s2] del: BuildScopeTreeImpl.simps)
      qed
    next
      case more
      then show ?thesis using L False by (simp add: step bnd_def del: BuildScopeTreeImpl.simps)
    qed
  qed
qed

section \<open>Building the scopes of a program\<close>

lemma constructed_scopes [simp]:
  "g_scope_id_counter (constructed c s) = g_scope_id_counter s" "g_scope_root (constructed c s) = g_scope_root s"
  "g_scope_current (constructed c s) = g_scope_current s" "scope_id_map (constructed c s) = scope_id_map s"
proof -
  have "g_scope_id_counter (with_basics ls s) = g_scope_id_counter s \<and> g_scope_root (with_basics ls s) = g_scope_root s \<and>
    g_scope_current (with_basics ls s) = g_scope_current s \<and> scope_id_map (with_basics ls s) = scope_id_map s"
    for ls and s :: "'a scope_tree_scheme"
    by (induction ls arbitrary: s) (simp_all add: with_basics_def new_basic_def with_builtin_def)
  then show "g_scope_id_counter (constructed c s) = g_scope_id_counter s" "g_scope_root (constructed c s) = g_scope_root s"
    "g_scope_current (constructed c s) = g_scope_current s" "scope_id_map (constructed c s) = scope_id_map s"
    by (simp_all add: constructed_def with_specials_def Let_def with_builtin_def)
qed

lemma new_ScopeTree_apply:
  assumes "is_init c"
  obtains s1 where "new_ScopeTree c s = Inr ((), s1)" and "no_scopes s1"
    and "s1 = constructed c (but_scopes s)"
proof
  show "new_ScopeTree c s = Inr ((), constructed c (but_scopes s))"
    by (simp add: new_ScopeTree_def bnd_def m_eval new_TypeSystem_apply [OF assms] but_scopes_def)
  show "no_scopes (constructed c (but_scopes s))" by (simp add: no_scopes_def) (simp add: but_scopes_def)
qed simp

lemma types_wf_but_scopes [simp]: "types_wf (but_scopes s) = types_wf s"
  by (simp add: types_wf_def but_scopes_def all_entries_def)

text \<open>C37: building the scope tree of a program returns when the program has at most one outermost
  scope; on any other the second one is attached to a null current scope, and the construction
  stops by dereferencing that null pointer.\<close>

theorem BuildTree_returns_iff:
  assumes "is_init c" and "scope_count t < 2 ^ 31"
  shows "if outermost t \<le> 1 then \<exists>t' s'. BuildTree c t s = Inr (t', s') else BuildTree c t s = Inl Null_dereference"
proof -
  obtain s1 where s1: "new_ScopeTree c s = Inr ((), s1)" "no_scopes s1" "s1 = constructed c (but_scopes s)"
    using new_ScopeTree_apply [OF assms(1)] by blast
  have b: "BuildTree c t s = BuildScopeTreeImpl t s1" by (simp add: BuildTree_def bnd_def s1(1))
  have cur: "g_scope_current s1 = None" using s1(2) by (simp add: no_scopes_def)
  consider "outermost t = 0" | "outermost t = 1" | "1 < outermost t" by linarith
  then show ?thesis
    using Build_outside [OF s1(2) assms(2)] Build_no_scopes [OF _ cur] outermost_0_iff [of t]
    by cases (auto simp: b ok_Inr_iff)
qed

lemma ok_BuildTree:
  assumes "is_init c" and "types_wf s" and "outermost t = 1" and "scope_count t < 2 ^ 31"
  shows "ok (BuildTree c t) s (\<lambda>t' s'. t' = number None 0 t \<and> scopes_wf s' \<and>
     g_scope_current s' = None \<and> g_scope_root s' = Some 1 \<and> scope_ids s' = word_of_nat ` {1 .. scope_count t} \<and>
     (\<forall>(k, ty, par)\<in>set (scopes_of None 0 t). scope_view s' k = Some (ty, par, [], {})) \<and>
     types_wf s' \<and> specials s' \<and> recursive_counter s' = recursive_counter s \<and>
     but_scopes s' = but_scopes (constructed c (but_scopes s)))"
proof -
  obtain s1 where s1: "new_ScopeTree c s = Inr ((), s1)" "no_scopes s1" "s1 = constructed c (but_scopes s)"
    using new_ScopeTree_apply [OF assms(1)] by blast
  have b: "BuildTree c t s = BuildScopeTreeImpl t s1" by (simp add: BuildTree_def bnd_def s1(1))
  have w: "types_wf s1" "specials s1" using assms(2) by (simp_all add: s1(3) types_wf_constructed specials_constructed)
  have wf: "types_wf (but_scopes s1)" "specials (but_scopes s1)"
    using w by (simp_all) (simp add: specials_def but_scopes_def)
  have frame: "types_wf s' \<and> specials s' \<and> recursive_counter s' = recursive_counter s1"
    if "but_scopes s' = but_scopes s1" for s'
  proof -
    have "types_wf s'" using wf(1) that types_wf_but_scopes by metis
    moreover have "specials s' = specials (but_scopes s')" by (simp add: specials_def but_scopes_def)
    moreover have "recursive_counter s' = recursive_counter s1"
      using arg_cong [OF that, of recursive_counter] by (simp add: but_scopes_def)
    ultimately show ?thesis using wf(2) that by simp
  qed
  have rc: "recursive_counter s1 = recursive_counter s"
  proof -
    have "recursive_counter (with_basics ls u) = recursive_counter u" for ls and u :: "'a scope_tree_scheme"
      by (induction ls arbitrary: u) (simp_all add: with_basics_def new_basic_def with_builtin_def)
    then show ?thesis by (simp add: s1(3) constructed_def with_specials_def Let_def with_builtin_def but_scopes_def)
  qed
  have "ok (BuildScopeTreeImpl t) s1 (\<lambda>t' s'. t' = number None 0 t \<and> built_program s1 t s')"
    using Build_outside [OF s1(2) assms(4)] assms(3) by simp
  then show ?thesis
    unfolding ok_Inr_iff b s1(3) [symmetric] using frame rc by (auto simp: built_program_def)
qed

text \<open>C36: building the scope tree of a program with one outermost scope writes into every node the
  number of its innermost enclosing scope, scopes being numbered in preorder from 1; the scopes
  recorded are exactly these, each with its type, its enclosing scope as parent and an empty
  symbol table, parents and children agree, no scope is left open, and the type system is new.\<close>

theorem BuildTree_numbers_scopes:
  assumes "is_init c" and "types_wf s" and "outermost t = 1" and "scope_count t < 2 ^ 31"
  shows "ok (BuildTree c t) s (\<lambda>t' s'. t' = number None 0 t \<and> scopes_wf s' \<and>
     g_scope_current s' = None \<and> g_scope_root s' = Some 1 \<and> scope_ids s' = word_of_nat ` {1 .. scope_count t} \<and>
     (\<forall>(k, ty, par)\<in>set (scopes_of None 0 t). scope_view s' k = Some (ty, par, [], {})) \<and>
     types_wf s' \<and> specials s' \<and> recursive_counter s' = recursive_counter s)"
  by (rule ok_mono [OF ok_BuildTree [OF assms]]) simp

section \<open>Witnesses\<close>

definition demo_scopes :: scope_tree where
  "demo_scopes = type_system.extend demo_statics
     \<lparr>g_scope_id_counter = 0, g_scope_root = None, g_scope_current = None, scope_id_map = [], recursive_counter = 0\<rparr>"

lemma demo_scopes_wf: "types_wf demo_scopes"
  by (simp add: types_wf_def demo_scopes_def demo_statics_def all_entries_def type_system.defs)

definition node_info :: "DataType \<Rightarrow> ScopeType \<Rightarrow> ir_variant \<Rightarrow> IRInfo" where
  "node_info d sty v = \<lparr>ir_type = 1, ir_op = None, ir_scope_type = sty, ir_scope_id = 0, ir_data_type = d,
     ir_statement_id = 0, ir_data = v\<rparr>"

text \<open>Two scopes, one inside the other, and two side by side.\<close>

definition demo_nested :: IR where
  "demo_nested = Node 0 (node_info kDataDefault kScopeGlobal Monostate)
     (Node 1 (node_info kFunctionBody kScopeFunction Monostate) NullIR NullIR) NullIR"

definition demo_siblings :: IR where
  "demo_siblings = Node 0 (node_info kDataDefault kScopeDefault Monostate)
     (Node 1 (node_info kDataDefault kScopeGlobal Monostate) NullIR NullIR)
     (Node 2 (node_info kDataDefault kScopeGlobal Monostate) NullIR NullIR)"

lemma BuildTree_returns_iff_witness:
  "BuildTree demo_configuration demo_siblings demo_scopes = Inl Null_dereference \<and>
   (\<exists>t' s'. BuildTree demo_configuration demo_nested demo_scopes = Inr (t', s'))"
  using BuildTree_returns_iff [of demo_configuration demo_siblings demo_scopes]
    BuildTree_returns_iff [of demo_configuration demo_nested demo_scopes]
  by (simp add: demo_configuration_def demo_siblings_def demo_nested_def node_info_def opens_def)

lemma BuildTree_numbers_scopes_witness:
  "ok (BuildTree demo_configuration demo_nested) demo_scopes (\<lambda>t' s'. ir_scope_id (ir_info (LeftChild t')) = 2 \<and>
     scope_view s' 2 = Some (kScopeFunction, Some 1, [], {}))"
proof (rule ok_mono [OF BuildTree_numbers_scopes [OF _ demo_scopes_wf]], goal_cases)
  case (4 t' s')
  then show ?case by (auto simp: demo_nested_def node_info_def opens_def with_scope_def Let_def)
qed (simp_all add: demo_configuration_def demo_nested_def node_info_def opens_def)

end
