(* ===== verification/Symbol_Collection.thy ===== *)
theory Symbol_Collection
  imports Scope_Tree
begin

text \<open>
  How \<open>ScopeTree::BuildSymbolTables\<close> (\<open>srcs/internal/srcs/var_definition.cpp\<close>) fills the symbol
  tables: it looks for definitions in the program, and for each enters its names and types into
  the scope of the defining node, creating compound and function types on the way and descending
  into class and function bodies. The results: the searches are characterised by the preorder of
  the tree, the collection terminates, keeps the invariants of the type tables and of the scope
  tree and only adds definitions, and the conditions under which it fails or does nothing.
\<close>

section \<open>Searching the program\<close>

definition is_definition_type :: "DataType \<Rightarrow> bool" where
  "is_definition_type d \<longleftrightarrow> d = kVariableDefinition \<or> d = kFunctionDefinition \<or> d = kClassDefinition"

text \<open>The loop of \<open>is_contain_definition\<close> over an explicit stack.\<close>

function contain_loop :: "IR list \<Rightarrow> bool" where
  "contain_loop [] = False"
| "contain_loop (NullIR # stk) = contain_loop stk"
| "contain_loop (Node a i l r # stk) =
     (if is_definition_type (ir_data_type i) then True
      else contain_loop ((if l \<noteq> NullIR then [l] else []) @ (if r \<noteq> NullIR then [r] else []) @ stk))"
  by pat_completeness auto
termination
  by (relation "measures [\<lambda>stk. sum_list (map ir_size stk), length]") auto

definition is_contain_definition :: "IR \<Rightarrow> bool" where
  "is_contain_definition cur = contain_loop [cur]"

fun find_define_type :: "IR \<Rightarrow> DataType" where
  "find_define_type NullIR = kDataDefault"
| "find_define_type (Node a i l r) =
     (if ir_data_type i = kVariableType \<or> ir_data_type i = kClassDefinition \<or> ir_data_type i = kFunctionDefinition
      then ir_data_type i
      else if l \<noteq> NullIR \<and> find_define_type l \<noteq> kDataDefault then find_define_type l
      else if r \<noteq> NullIR then find_define_type r
      else kDataDefault)"

text \<open>The two overloads of \<open>search_by_data_type\<close>: the first match, and all matches.\<close>

fun search_by_data_type :: "IR \<Rightarrow> DataType \<Rightarrow> DataType \<Rightarrow> IR" where
  "search_by_data_type NullIR type forbid = NullIR"
| "search_by_data_type (Node a i l r) type forbid =
     (if ir_data_type i = type then Node a i l r
      else if forbid \<noteq> kDataDefault \<and> ir_data_type i = forbid then NullIR
      else if search_by_data_type l type forbid \<noteq> NullIR then search_by_data_type l type forbid
      else search_by_data_type r type forbid)"

fun search_all_by_data_type :: "IR \<Rightarrow> DataType \<Rightarrow> IR list \<Rightarrow> DataType \<Rightarrow> bool \<Rightarrow> IR list" where
  "search_all_by_data_type NullIR type result forbid go_inside = result"
| "search_all_by_data_type (Node a i l r) type result forbid go_inside =
     (if ir_data_type i \<noteq> type \<and> forbid \<noteq> kDataDefault \<and> ir_data_type i = forbid then result
      else
        let result = (if ir_data_type i = type then result @ [Node a i l r] else result) in
        if ir_data_type i \<noteq> type \<or> go_inside
        then search_all_by_data_type r type (search_all_by_data_type l type result forbid go_inside) forbid go_inside
        else result)"

lemma search_subtree:
  "search_by_data_type t type forbid \<noteq> NullIR \<Longrightarrow>
     search_by_data_type t type forbid \<in> set (subtrees t) \<and>
     ir_data_type (ir_info (search_by_data_type t type forbid)) = type"
  by (induction t) (auto split: if_splits)

lemma search_smaller:
  assumes "search_by_data_type t type forbid \<noteq> NullIR" and "ir_data_type (ir_info t) \<noteq> type"
  shows "ir_size (search_by_data_type t type forbid) < ir_size t"
proof -
  have "search_by_data_type t type forbid \<noteq> t" using search_subtree [OF assms(1)] assms(2) by auto
  then show ?thesis using subtree_proper search_subtree [OF assms(1)] by blast
qed

lemma search_le: "ir_size (search_by_data_type t type forbid) \<le> ir_size t"
  by (induction t) auto

section \<open>Collecting definitions\<close>

definition CollectSimpleVariableDefinition ::
  "configuration \<Rightarrow> (TypeID list \<Rightarrow> TypeID list) \<Rightarrow> (64 word \<Rightarrow> string) \<Rightarrow> IR \<Rightarrow> ('z scope_tree_scheme, unit) M" where
  "CollectSimpleVariableDefinition c ord fd cur =
     (let name_vec = search_all_by_data_type cur kVariableName [] kDataDefault False;
          type_node = search_by_data_type cur kVariableType kDataDefault in
      bnd (if type_node \<noteq> NullIR then
             bnd (gets (\<lambda>s. GetTypeIDByStr ord s (Trim (ToString fd type_node)))) (\<lambda>type.
             let type = (if type = kNotExist \<and> IsWeakType c then kAnyType else type) in
             bnd (require Assert_failed (type \<noteq> kNotExist)) (\<lambda>_. return type))
           else return kAnyType) (\<lambda>type.
      foldM (\<lambda>name_ir _. AddDefinition (ir_scope_id (ir_info cur)) (ToString fd name_ir) type
               (ir_statement_id (ir_info name_ir))) name_vec ()))"

text \<open>The word \<open>struct\<close> or \<open>enum\<close> in front of a return type.\<close>

definition strip_tag :: "string \<Rightarrow> string" where
  "strip_tag str =
     (if 7 < length str then
        (if take 7 str = ''struct '' then drop 7 str
         else if take 5 str = ''enum '' then drop 5 str else str)
      else str)"

definition collect_argument ::
  "(TypeID list \<Rightarrow> TypeID list) \<Rightarrow> (64 word \<Rightarrow> string) \<Rightarrow> IR \<Rightarrow> TypeID list \<times> string list
     \<Rightarrow> ('z scope_tree_scheme, TypeID list \<times> string list) M" where
  "collect_argument ord fd arg_ir acc =
     (let arg_type_ir = search_by_data_type arg_ir kVariableType kDataDefault;
          arg_name_ir = search_by_data_type arg_ir kVariableName kDataDefault in
      bnd (require Assert_failed (arg_name_ir \<noteq> NullIR)) (\<lambda>_.
      bnd (require Null_dereference (arg_type_ir \<noteq> NullIR)) (\<lambda>_.
      bnd (gets (\<lambda>s. GetTypeIDByStr ord s (Trim (ToString fd arg_type_ir)))) (\<lambda>t.
      return (fst acc @ [t], snd acc @ [Trim (ToString fd arg_name_ir)])))))"

text \<open>The log line that prints the name of an argument's type.\<close>

definition log_argument_type :: "TypeID \<Rightarrow> unit \<Rightarrow> ('z scope_tree_scheme, unit) M" where
  "log_argument_type t = (\<lambda>_.
     bnd (gets (\<lambda>s. GetTypePtrByID s t)) (\<lambda>ptr. require Null_dereference (ptr \<noteq> None)))"

definition collect_rank :: "IR \<Rightarrow> nat" where
  "collect_rank cur = (case cur of NullIR \<Rightarrow> 4 | Node a i l r \<Rightarrow> if is_definition_type (ir_data_type i) then 1 else 4)"

lemma body_rank:
  assumes "search_by_data_type cur kFunctionBody kDataDefault \<noteq> NullIR"
  shows "ir_size (search_by_data_type cur kFunctionBody kDataDefault) < ir_size cur \<or>
    ir_size (search_by_data_type cur kFunctionBody kDataDefault) = ir_size cur \<and> 3 < collect_rank cur"
proof (cases "ir_data_type (ir_info cur) = kFunctionBody")
  case True
  then have "3 < collect_rank cur" by (cases cur) (simp_all add: collect_rank_def is_definition_type_def)
  then show ?thesis using search_le [of cur kFunctionBody kDataDefault] by linarith
next
  case False
  then show ?thesis using search_smaller [OF assms] by simp
qed

text \<open>
  \<open>create_symbol_table\<close> works off a queue that only ever holds the root it was called with. The
  size limits apply to the outermost call (the static counter is 1) and \<open>GetChildNum\<close> is read as
  an \<open>int\<close>. The recursion descends into the bodies of classes and functions.
\<close>

function create_symbol_table ::
  "configuration \<Rightarrow> (TypeID list \<Rightarrow> TypeID list) \<Rightarrow> (64 word \<Rightarrow> string) \<Rightarrow> IR \<Rightarrow> ('z scope_tree_scheme, bool) M"
and collect_definition ::
  "configuration \<Rightarrow> (TypeID list \<Rightarrow> TypeID list) \<Rightarrow> (64 word \<Rightarrow> string) \<Rightarrow> IR \<Rightarrow> ('z scope_tree_scheme, bool) M"
and CollectStructureDefinition ::
  "configuration \<Rightarrow> (TypeID list \<Rightarrow> TypeID list) \<Rightarrow> (64 word \<Rightarrow> string) \<Rightarrow> IR \<Rightarrow> ('z scope_tree_scheme, unit) M"
and CollectFunctionDefinition ::
  "configuration \<Rightarrow> (TypeID list \<Rightarrow> TypeID list) \<Rightarrow> (64 word \<Rightarrow> string) \<Rightarrow> IR \<Rightarrow> ('z scope_tree_scheme, unit) M"
where
  "create_symbol_table c ord fd root =
     bnd (modify (\<lambda>s. s\<lparr>recursive_counter := recursive_counter s + 1\<rparr>)) (\<lambda>_.
     bnd (gets recursive_counter) (\<lambda>counter.
     if root = NullIR then throw Null_dereference
     else if counter = 1 \<and> (250 < sint (GetChildNum root) \<or> 1500 < sint (GetChildNum root)) \<and> \<not> HasBuiltinType then
       bnd (modify (\<lambda>s. s\<lparr>recursive_counter := recursive_counter s - 1\<rparr>)) (\<lambda>_. return False)
     else
       bnd (if is_contain_definition root then collect_definition c ord fd root else return False) (\<lambda>_.
       bnd (modify (\<lambda>s. s\<lparr>recursive_counter := recursive_counter s - 1\<rparr>)) (\<lambda>_. return True))))"
| "collect_definition c ord fd cur =
     (case cur of
        NullIR \<Rightarrow> throw Null_dereference
      | Node a i l r \<Rightarrow>
          if is_definition_type (ir_data_type i) then
            (case find_define_type cur of
               kVariableType \<Rightarrow> bnd (CollectSimpleVariableDefinition c ord fd cur) (\<lambda>_. return True)
             | kClassDefinition \<Rightarrow> bnd (CollectStructureDefinition c ord fd cur) (\<lambda>_. return True)
             | kFunctionDefinition \<Rightarrow> bnd (CollectFunctionDefinition c ord fd cur) (\<lambda>_. return True)
             | _ \<Rightarrow> bnd (CollectSimpleVariableDefinition c ord fd cur) (\<lambda>_. return False))
          else
            bnd (if l \<noteq> NullIR then bnd (collect_definition c ord fd l) (\<lambda>res. return (res \<and> False))
                 else return False) (\<lambda>res.
            if r \<noteq> NullIR then bnd (collect_definition c ord fd r) (\<lambda>res'. return (res' \<and> res))
            else return res))"
| "CollectStructureDefinition c ord fd cur =
     (if cur = NullIR then throw Null_dereference
      else if ir_data_type (ir_info cur) \<noteq> kClassDefinition then throw Contract_failed
      else
        let structure_name = search_by_data_type cur kClassName kDataDefault;
            struct_body = search_by_data_type cur kClassBody kDataDefault in
        if struct_body = NullIR then throw Assert_failed
        else if structure_name = NullIR then throw Assert_failed
        else
          bnd (lift_result (GetString (ir_info structure_name))) (\<lambda>name.
          bnd (create_symbol_table c ord fd struct_body) (\<lambda>_.
          bnd (gets (\<lambda>s. GetScopeById s (ir_scope_id (ir_info struct_body)))) (\<lambda>scope_ptr.
          case scope_ptr of
            None \<Rightarrow> throw Null_dereference
          | Some sc \<Rightarrow>
              (let members = concat (map snd (sc_table sc)) in
               bnd (CreateCompoundType (Trim name) (map def_type members) (map def_name members)) (\<lambda>new_class.
               AddDefinition (ir_scope_id (ir_info cur)) (Trim name) new_class
                 (ir_statement_id (ir_info cur))))))))"
| "CollectFunctionDefinition c ord fd cur =
     (let return_ir = search_by_data_type cur kFunctionReturnType kFunctionBody;
          name_ir = search_by_data_type cur kFunctionName kFunctionBody;
          arguments = search_all_by_data_type cur kFunctionArgument [] kFunctionBody False;
          name = strip_string (ToString fd name_ir);
          body = search_by_data_type cur kFunctionBody kDataDefault in
      if name_ir = NullIR then throw Null_dereference
      else if name = [] then return ()
      else
        bnd (if return_ir \<noteq> NullIR
             then gets (\<lambda>s. GetTypeIDByStr ord s (Trim (strip_tag (ToString fd return_ir))))
             else return kNotExist) (\<lambda>return_type.
        bnd (foldM (collect_argument ord fd) arguments ([], [])) (\<lambda>args.
        bnd (foldM log_argument_type (fst args) ()) (\<lambda>_.
        bnd (if return_type \<noteq> kNotExist
             then bnd (CreateFunctionType name return_type (fst args) (snd args)) (\<lambda>fid.
                  AddDefinition (ir_scope_id (ir_info cur)) name fid (ir_statement_id (ir_info name_ir)))
             else return ()) (\<lambda>_.
        if body = NullIR then return ()
        else
          bnd (foldM (\<lambda>(n, t) _. AddDefinition (ir_scope_id (ir_info body)) n t (ir_statement_id (ir_info cur)))
                 (zip (snd args) (fst args)) ()) (\<lambda>_.
          bnd (create_symbol_table c ord fd body) (\<lambda>_. return ())))))))"
  by pat_completeness auto

termination
proof (relation "measures [case_sum (case_sum (\<lambda>(_, _, _, t). ir_size t) (\<lambda>(_, _, _, t). ir_size t))
      (case_sum (\<lambda>(_, _, _, t). ir_size t) (\<lambda>(_, _, _, t). ir_size t)),
    case_sum (case_sum (\<lambda>_. 3) (\<lambda>_. 2)) (case_sum (\<lambda>_. 1) (\<lambda>(_, _, _, t). collect_rank t))]", goal_cases)
  case (7 c ord fd cur x xa xb)
  then show ?case using search_smaller [of cur kClassBody kDataDefault] by simp
next
  case (8 c ord fd cur x xa xb xc xd xe xf xg xh xi)
  then show ?case using body_rank [of cur] by auto
qed (auto simp: collect_rank_def)

declare create_symbol_table.simps [simp del]
declare collect_definition.simps [simp del]
declare CollectStructureDefinition.simps [simp del]
declare CollectFunctionDefinition.simps [simp del]

definition BuildSymbolTables ::
  "configuration \<Rightarrow> (TypeID list \<Rightarrow> TypeID list) \<Rightarrow> (64 word \<Rightarrow> string) \<Rightarrow> IR \<Rightarrow> ('z scope_tree_scheme, unit) M" where
  "BuildSymbolTables c ord fd root = bnd (create_symbol_table c ord fd root) (\<lambda>_. return ())"

section \<open>What the collection keeps\<close>

text \<open>Every table is sorted by type and files every definition under its own, existing type.\<close>

definition table_ok :: "symbol_table \<Rightarrow> bool" where
  "table_ok m \<longleftrightarrow> om_sorted m \<and> (\<forall>(ty, ds)\<in>set m. ty \<noteq> kNotExist \<and> ds \<noteq> [] \<and> (\<forall>d\<in>set ds. def_type d = ty))"

definition table_defs :: "symbol_table \<Rightarrow> Definition set" where
  "table_defs m = \<Union> (set ` snd ` set m)"

text \<open>Every member type of a compound type comes with the names of its members.\<close>

definition named_members :: "'z type_system_scheme \<Rightarrow> bool" where
  "named_members s \<longleftrightarrow>
     (\<forall>j i ms. GetTypePtrByID s j = Some (CompoundType i ms) \<longrightarrow> (\<forall>x\<in>set ms. snd x \<noteq> []))"

definition collecting :: "'z scope_tree_scheme \<Rightarrow> bool" where
  "collecting s \<longleftrightarrow> types_wf s \<and> specials s \<and> scopes_wf s \<and> named_members s \<and> s_builted_compound_types s = [] \<and>
     (\<forall>k sc. GetScopeById s k = Some sc \<longrightarrow> table_ok (sc_table sc))"

text \<open>\<open>grown s s'\<close>: the scopes are the same, their tables hold at least the same definitions, and no
  type has been lost or changed.\<close>

definition same_scope :: "scope \<Rightarrow> scope \<Rightarrow> bool" where
  "same_scope sc sc' \<longleftrightarrow> sc_type sc' = sc_type sc \<and> sc_parent sc' = sc_parent sc \<and>
     sc_children sc' = sc_children sc \<and> sc_defined_names sc' = sc_defined_names sc \<and>
     table_defs (sc_table sc) \<subseteq> table_defs (sc_table sc')"

definition grown :: "'z scope_tree_scheme \<Rightarrow> 'z scope_tree_scheme \<Rightarrow> bool" where
  "grown s s' \<longleftrightarrow>
     g_scope_id_counter s' = g_scope_id_counter s \<and> g_scope_root s' = g_scope_root s \<and>
     g_scope_current s' = g_scope_current s \<and> recursive_counter s' = recursive_counter s \<and>
     scope_tree.more s' = scope_tree.more s \<and> kept s' = kept s \<and> scope_ids s' = scope_ids s \<and>
     (\<forall>k sc. GetScopeById s k = Some sc \<longrightarrow> (\<exists>sc'. GetScopeById s' k = Some sc' \<and> same_scope sc sc')) \<and>
     (\<forall>j v. GetTypePtrByID s j = Some v \<longrightarrow>
        (\<exists>v'. GetTypePtrByID s' j = Some v' \<and> forget_derived v' = forget_derived v))"

lemma same_scope_refl [simp]: "same_scope sc sc"
  by (simp add: same_scope_def)

lemma grown_refl [simp]: "grown s s"
  by (simp add: grown_def)

lemma grownD:
  assumes "grown s s'"
  shows "GetScopeById s k = Some sc \<Longrightarrow> \<exists>sc'. GetScopeById s' k = Some sc' \<and> same_scope sc sc'"
    and "GetTypePtrByID s j = Some v \<Longrightarrow> \<exists>v'. GetTypePtrByID s' j = Some v' \<and> forget_derived v' = forget_derived v"
  using assms unfolding grown_def by blast+

lemma grown_trans [trans]:
  assumes "grown s s'" and "grown s' s''"
  shows "grown s s''"
proof -
  have "\<exists>sc''. GetScopeById s'' k = Some sc'' \<and> same_scope sc sc''" if k: "GetScopeById s k = Some sc" for k sc
  proof -
    obtain sc' where 1: "GetScopeById s' k = Some sc'" "same_scope sc sc'" using grownD(1) [OF assms(1) k] by blast
    then obtain sc'' where "GetScopeById s'' k = Some sc''" "same_scope sc' sc''" using grownD(1) [OF assms(2)] by blast
    with 1 show ?thesis unfolding same_scope_def by (metis subset_trans)
  qed
  moreover have "\<exists>v''. GetTypePtrByID s'' j = Some v'' \<and> forget_derived v'' = forget_derived v"
    if j: "GetTypePtrByID s j = Some v" for j v
  proof -
    obtain v' where 1: "GetTypePtrByID s' j = Some v'" "forget_derived v' = forget_derived v"
      using grownD(2) [OF assms(1) j] by blast
    then obtain v'' where "GetTypePtrByID s'' j = Some v''" "forget_derived v'' = forget_derived v'"
      using grownD(2) [OF assms(2)] by blast
    with 1 show ?thesis by simp
  qed
  ultimately show ?thesis using assms by (simp add: grown_def)
qed

text \<open>The judgement of this section: started in a good state, a step keeps it good and grows it, or
  stops with an error of the collection.\<close>

definition collection_errors :: "error set" where
  "collection_errors = {Assert_failed, Contract_failed, Null_dereference, Bad_variant_access}"

definition collects :: "('z scope_tree_scheme, 'a) M \<Rightarrow> bool" where
  "collects m \<longleftrightarrow> (\<forall>s. collecting s \<longrightarrow> only collection_errors m s (\<lambda>_ s'. collecting s' \<and> grown s s'))"

named_theorems collects_intro \<open>steps that keep a good state\<close>

lemma collects_bnd [collects_intro]: "collects m \<Longrightarrow> (\<And>x. collects (f x)) \<Longrightarrow> collects (bnd m f)"
  unfolding collects_def only_bnd by (blast intro: only_mono grown_trans)

lemma collects_simple [collects_intro]:
  "collects (return x)" "collects (gets f)" "collects (throw Assert_failed)" "collects (throw Contract_failed)"
  "collects (throw Null_dereference)" "collects (require Assert_failed b)" "collects (require Null_dereference b)"
  "collects (lift_result (GetString i))"
  by (auto simp: collects_def only_simps collection_errors_def lift_result_def GetString_def split: sum.split ir_variant.split)

lemma collects_if [collects_intro]: "(b \<Longrightarrow> collects m) \<Longrightarrow> (\<not> b \<Longrightarrow> collects m') \<Longrightarrow> collects (if b then m else m')"
  by simp

lemma collects_foldM [collects_intro]: "(\<And>x b. collects (f x b)) \<Longrightarrow> collects (foldM f xs b)"
  by (induction xs arbitrary: b) (simp_all add: collects_intro)

lemma om_at_iff: "x \<in> set (om_at [] m k) \<longleftrightarrow> (\<exists>ds. om_get m k = Some ds \<and> x \<in> set ds)"
  by (cases "om_get m k") (simp_all add: om_at_def)

lemma table_defs_iff:
  assumes "om_sorted m"
  shows "x \<in> table_defs m \<longleftrightarrow> (\<exists>ty. x \<in> set (om_at [] m ty))"
  by (force simp: table_defs_def om_at_iff om_get_iff [OF assms])

lemma table_defs_push:
  assumes "om_sorted m"
  shows "table_defs (table_AddDefinition d m) = insert d (table_defs m)"
proof (rule set_eqI)
  fix x
  have "x \<in> table_defs (table_AddDefinition d m) \<longleftrightarrow>
      (\<exists>ty. x \<in> set (om_at [] (om_push (def_type d) d m) ty))"
    by (simp add: table_AddDefinition_def table_defs_iff om_sorted_push assms)
  also have "\<dots> \<longleftrightarrow> x = d \<or> (\<exists>ty. x \<in> set (om_at [] m ty))"
    unfolding om_at_push by (auto split: if_splits) metis
  finally show "x \<in> table_defs (table_AddDefinition d m) \<longleftrightarrow> x \<in> insert d (table_defs m)"
    by (simp add: table_defs_iff [OF assms])
qed

lemma table_okD:
  assumes "table_ok m"
  shows "om_sorted m" and "om_get m ty = Some ds \<Longrightarrow> ty \<noteq> kNotExist \<and> ds \<noteq> [] \<and> (\<forall>d\<in>set ds. def_type d = ty)"
  using assms om_get_SomeD unfolding table_ok_def by fast+

lemma table_okI:
  assumes "om_sorted m"
    and "\<And>ty ds. om_get m ty = Some ds \<Longrightarrow> ty \<noteq> kNotExist \<and> ds \<noteq> [] \<and> (\<forall>d\<in>set ds. def_type d = ty)"
  shows "table_ok m"
  using assms(1) assms(2) [unfolded om_get_iff [OF assms(1)]] unfolding table_ok_def by fast

lemma table_ok_push:
  assumes "table_ok m" and "def_type d \<noteq> kNotExist"
  shows "table_ok (table_AddDefinition d m)"
  unfolding table_AddDefinition_def
proof (rule table_okI)
  show "om_sorted (om_push (def_type d) d m)" by (rule om_sorted_push [OF table_okD(1) [OF assms(1)]])
next
  fix ty ds
  assume get: "om_get (om_push (def_type d) d m) ty = Some ds"
  have old: "def_type x = def_type d" if "x \<in> set (om_at [] m (def_type d))" for x
    using that table_okD(2) [OF assms(1)] unfolding om_at_iff by blast
  show "ty \<noteq> kNotExist \<and> ds \<noteq> [] \<and> (\<forall>d\<in>set ds. def_type d = ty)"
  proof (cases "ty = def_type d")
    case True
    then have "ds = om_at [] m (def_type d) @ [d]" using get by (simp add: om_get_push)
    then show ?thesis using old assms(2) True by auto
  next
    case False
    then have "om_get m ty = Some ds" using get by (simp add: om_get_push)
    then show ?thesis by (rule table_okD(2) [OF assms(1)])
  qed
qed

lemma table_ok_Nil [simp]: "table_ok []"
  by (simp add: table_ok_def)

text \<open>The types do not see the scopes.\<close>

lemma types_wf_scopes [simp]:
  "types_wf (s\<lparr>scope_id_map := m\<rparr>) = types_wf s" "types_wf (s\<lparr>recursive_counter := n\<rparr>) = types_wf s"
  by (simp_all add: types_wf_def all_entries_def)

lemma specials_scopes [simp]:
  "specials (s\<lparr>scope_id_map := m\<rparr>) = specials s" "specials (s\<lparr>recursive_counter := n\<rparr>) = specials s"
  by (simp_all add: specials_def)

lemma GetTypePtrByID_scopes [simp]:
  "GetTypePtrByID (s\<lparr>scope_id_map := m\<rparr>) = GetTypePtrByID s" "GetTypePtrByID (s\<lparr>recursive_counter := n\<rparr>) = GetTypePtrByID s"
  by (simp_all add: fun_eq_iff GetTypePtrByID_def)

lemma named_members_scopes [simp]:
  "named_members (s\<lparr>scope_id_map := m\<rparr>) = named_members s" "named_members (s\<lparr>recursive_counter := n\<rparr>) = named_members s"
  by (simp_all add: named_members_def)

lemma compound_shape: "forget_derived v = forget_derived (CompoundType i ms) \<Longrightarrow> \<exists>i. v = CompoundType i ms"
  by (cases v) (simp_all add: forget_derived_def)

lemma named_members_grow:
  assumes "named_members s"
    and "\<And>j. j \<noteq> k \<Longrightarrow> map_option forget_derived (GetTypePtrByID s' j) = map_option forget_derived (GetTypePtrByID s j)"
    and "\<And>i ms x. GetTypePtrByID s' k = Some (CompoundType i ms) \<Longrightarrow> x \<in> set ms \<Longrightarrow> snd x \<noteq> []"
  shows "named_members s'"
  unfolding named_members_def
proof (intro allI impI)
  fix j i ms
  assume j: "GetTypePtrByID s' j = Some (CompoundType i ms)"
  show "\<forall>x\<in>set ms. snd x \<noteq> []"
  proof (cases "j = k")
    case True
    then show ?thesis using assms(3) j by blast
  next
    case False
    then obtain v where v: "GetTypePtrByID s j = Some v" "forget_derived v = forget_derived (CompoundType i ms)"
      using assms(2) [OF False] j by (cases "GetTypePtrByID s j") simp_all
    then obtain i' where "v = CompoundType i' ms" using compound_shape by blast
    then show ?thesis using assms(1) v(1) unfolding named_members_def by blast
  qed
qed

text \<open>Storing a scope that differs only in its table.\<close>

lemma collecting_store:
  assumes "collecting s" and "GetScopeById s k = Some sc" and "same_scope sc sc'" and "table_ok (sc_table sc')"
  shows "collecting (s\<lparr>scope_id_map := om_put k sc' (scope_id_map s)\<rparr>)" (is "collecting ?s")
    and "grown s (s\<lparr>scope_id_map := om_put k sc' (scope_id_map s)\<rparr>)"
proof -
  have get: "GetScopeById ?s j = (if j = k then Some sc' else GetScopeById s j)" for j
    by (simp add: GetScopeById_def om_get_put)
  have ids: "scope_ids ?s = scope_ids s" using assms(2) by (auto simp: scope_ids_iff get split: if_splits)
  have wf: "scopes_wf s" using assms(1) by (simp add: collecting_def)
  have same: "sc_parent sc' = sc_parent sc" "sc_children sc' = sc_children sc" using assms(3) by (simp_all add: same_scope_def)
  have par: "(\<exists>sj. GetScopeById ?s j = Some sj \<and> sc_parent sj = Some h) \<longleftrightarrow>
      (\<exists>sj. GetScopeById s j = Some sj \<and> sc_parent sj = Some h)" for j h
    using assms(2) same by (auto simp: get)
  have "scopes_wf ?s"
    unfolding scopes_wf_def ids par
  proof (intro conjI allI impI)
    show "om_sorted (scope_id_map ?s)" using scopes_wfD(1) [OF wf] by (simp add: om_sorted_put)
  qed (use scopes_wfD(2-7) [OF wf] assms(2) in \<open>auto simp: get same split: if_splits\<close>)
  moreover have "types_wf ?s \<and> specials ?s"
    using assms(1) by (simp add: collecting_def)
  moreover have "named_members ?s" using assms(1) by (simp add: collecting_def)
  ultimately show "collecting ?s" using assms(1,4) by (auto simp: collecting_def get)
  show "grown s ?s" using assms(2,3) ids by (auto simp: grown_def get kept_def)
qed

lemma collects_AddDefinition [collects_intro]: "collects (AddDefinition sid n t st :: ('z scope_tree_scheme, unit) M)"
proof -
  have "only collection_errors (AddDefinition sid n t st) s (\<lambda>_ s'. collecting s' \<and> grown s s')" if "collecting s" for s :: "'z scope_tree_scheme"
  proof (cases "GetScopeById s sid")
    case None
    then show ?thesis by (simp add: AddDefinition_def modify_scope_def only_def bnd_def m_eval collection_errors_def)
  next
    case (Some sc)
    then have tk: "table_ok (sc_table sc)" using that by (simp add: collecting_def)
    let ?sc = "if t = kNotExist then sc else sc\<lparr>sc_table := table_AddDefinition
              \<lparr>def_name = n, def_type = t, def_statement_id = st\<rparr> (sc_table sc)\<rparr>"
    have "same_scope sc ?sc" "table_ok (sc_table ?sc)"
      using tk table_defs_push [of "sc_table sc"] by (auto simp: same_scope_def table_ok_push) (auto simp: table_ok_def)
    from collecting_store [OF that Some this] show ?thesis
      by (simp add: AddDefinition_def modify_scope_def only_def bnd_def m_eval Some)
  qed
  then show ?thesis by (simp add: collects_def)
qed

text \<open>The steps that create types leave the scopes alone.\<close>

lemma collecting_types:
  assumes "collecting s" and "type_system.more s' = type_system.more s" and "types_wf s'" and "specials s'"
    and "named_members s'" and "kept s' = kept s"
    and "\<And>j v. GetTypePtrByID s j = Some v \<Longrightarrow>
      map_option forget_derived (GetTypePtrByID s' j) = map_option forget_derived (GetTypePtrByID s j)"
  shows "collecting s' \<and> grown s s'"
proof -
  have flds: "g_scope_id_counter s' = g_scope_id_counter s" "g_scope_root s' = g_scope_root s"
    "g_scope_current s' = g_scope_current s" "scope_id_map s' = scope_id_map s"
    "recursive_counter s' = recursive_counter s" "scope_tree.more s' = scope_tree.more s"
    using assms(2) by (cases s; cases s'; simp)+
  then have gs: "GetScopeById s' = GetScopeById s" "scope_ids s' = scope_ids s"
    by (simp_all add: fun_eq_iff GetScopeById_def scope_ids_def)
  have "\<exists>v'. GetTypePtrByID s' j = Some v' \<and> forget_derived v' = forget_derived v" if "GetTypePtrByID s j = Some v" for j v
    using assms(7) [OF that] that by auto
  moreover have "scopes_wf s' = scopes_wf s" by (simp add: scopes_wf_def gs flds)
  ultimately show ?thesis using assms(1,3-6) by (simp add: collecting_def grown_def gs flds kept_def)
qed

lemma FunctionType_lookup: "types_wf s \<Longrightarrow> GetFunctionType s k = Some v \<Longrightarrow> GetTypePtrByID s k = Some v"
  by (rule table_lookup [where m = "if has_key (function_types s) k then function_types s else s_builted_function_types s"])
    (auto simp: GetFunctionType_def all_entries_def split: if_splits)

lemma CompoundType_lookup: "types_wf s \<Longrightarrow> GetCompoundType s k = Some v \<Longrightarrow> GetTypePtrByID s k = Some v"
  by (rule table_lookup [where m = "if has_key (compound_types s) k then compound_types s else s_builted_compound_types s"])
    (auto simp: GetCompoundType_def all_entries_def split: if_splits)

lemma om_get_fold_push: "om_get m t \<noteq> Some [] \<Longrightarrow> om_get (fold (\<lambda>(t, n). om_push t n) xs m) t \<noteq> Some []"
proof (induction xs arbitrary: m)
  case Nil
  then show ?case by simp
next
  case (Cons x xs)
  have "om_get (om_push (fst x) (snd x) m) t \<noteq> Some []" using Cons.prems by (simp add: om_get_push)
  then show ?case using Cons.IH by (simp add: split_beta)
qed

lemma member_map_names:
  assumes "x \<in> set (member_map members names)"
  shows "snd x \<noteq> []"
proof -
  have "om_sorted (member_map members names)" by (simp add: member_map_def om_sorted_fold_push)
  then have "om_get (member_map members names) (fst x) = Some (snd x)" using assms by (simp add: om_get_iff)
  moreover have "om_get (member_map members names) (fst x) \<noteq> Some []"
    unfolding member_map_def by (rule om_get_fold_push) simp
  ultimately show ?thesis by auto
qed

lemma collecting_wf: "collecting s \<Longrightarrow> types_wf s" "collecting s \<Longrightarrow> specials s" "collecting s \<Longrightarrow> named_members s"
  by (simp_all add: collecting_def)

lemma ok_function_created:
  assumes "collecting s"
  shows "ok (CreateFunctionType name ret args names) s (\<lambda>k s'. k = ts_next_id s \<and> collecting s' \<and> grown s s' \<and>
    GetFunctionType s' k =
      Some (FunctionType \<lparr>vt_id = k, vt_name = name, vt_bases = [kAllFunction], vt_derived = []\<rparr> ret args names))"
proof (rule ok_mono [OF ok_CreateFunctionType [OF collecting_wf(1,2) [OF assms]]], elim conjE, goal_cases)
  case (1 k s')
  have old: "j \<noteq> k" if "GetTypePtrByID s j = Some v" for j v
    using fresh_lookup [OF collecting_wf(1) [OF assms] that] 1(1) by simp
  have f: "GetTypePtrByID s' k =
      Some (FunctionType \<lparr>vt_id = k, vt_name = name, vt_bases = [kAllFunction], vt_derived = []\<rparr> ret args names)"
    by (rule FunctionType_lookup) (use 1 in simp_all)
  have nm: "named_members s'"
    by (rule named_members_grow [OF collecting_wf(3) [OF assms], of k]) (use 1 f in simp_all)
  have "collecting s' \<and> grown s s'" using 1 old nm by (intro collecting_types [OF assms]) simp_all
  then show ?case using 1 by simp
qed

lemma collects_CreateFunctionType [collects_intro]:
  "collects (CreateFunctionType name ret args names :: ('z scope_tree_scheme, TypeID) M)"
  unfolding collects_def by (intro allI impI, rule only_ok, rule ok_mono [OF ok_function_created]) simp_all

lemma collects_CreateCompoundType [collects_intro]:
  "collects (CreateCompoundType name members member_names :: ('z scope_tree_scheme, TypeID) M)"
proof -
  have "only collection_errors (CreateCompoundType name members member_names) s (\<lambda>k s'. collecting s' \<and> grown s s')" if "collecting s"
    for s :: "'z scope_tree_scheme"
  proof (cases "length members = length member_names")
    case True
    have "ok (CreateCompoundType name members member_names) s (\<lambda>k s'. collecting s' \<and> grown s s')"
    proof (rule ok_mono [OF ok_CreateCompoundType [OF collecting_wf(1,2) [OF that] True]], elim conjE, goal_cases)
      case (1 k s')
      have old: "j \<noteq> k" if "GetTypePtrByID s j = Some v" for j v
        using fresh_lookup [OF collecting_wf(1) [OF \<open>collecting s\<close>] that] 1(1) by simp
      have f: "GetTypePtrByID s' k =
          Some (CompoundType \<lparr>vt_id = k, vt_name = name, vt_bases = [], vt_derived = []\<rparr> (member_map members member_names))"
        by (rule CompoundType_lookup) (use 1 in simp_all)
      have nm: "named_members s'"
        by (rule named_members_grow [OF collecting_wf(3) [OF that], of k]) (use 1 f member_map_names in auto)
      show ?case using 1 old nm by (intro collecting_types [OF that]) simp_all
    qed
    then show ?thesis by (rule only_ok)
  next
    case False
    then show ?thesis by (simp add: CreateCompoundType_def only_simps collection_errors_def)
  qed
  then show ?thesis by (simp add: collects_def)
qed

text \<open>The bracket of \<open>create_symbol_table\<close>: count up, collect, count down.\<close>

lemma collects_counted:
  assumes "collects m"
  shows "collects (bnd (modify (\<lambda>s. s\<lparr>recursive_counter := recursive_counter s + 1\<rparr>)) (\<lambda>_.
    bnd m (\<lambda>x. bnd (modify (\<lambda>s. s\<lparr>recursive_counter := recursive_counter s - 1\<rparr>)) (\<lambda>_. return (f x)))))"
proof -
  have out: "collecting (s\<lparr>recursive_counter := n\<rparr>) = collecting s" "GetScopeById (s\<lparr>recursive_counter := n\<rparr>) = GetScopeById s"
    "scope_ids (s\<lparr>recursive_counter := n\<rparr>) = scope_ids s" for s :: "'a scope_tree_scheme" and n
    by (simp_all add: collecting_def scopes_wf_def scope_ids_def GetScopeById_def fun_eq_iff)
  have "grown s (s'\<lparr>recursive_counter := recursive_counter s' - 1\<rparr>)"
    if "grown (s\<lparr>recursive_counter := recursive_counter s + 1\<rparr>) s'" for s s' :: "'a scope_tree_scheme"
    using that by (simp add: grown_def out kept_def)
  note down = this
  show ?thesis
    unfolding collects_def only_bnd only_modify only_return
  proof (intro allI impI)
    fix s :: "'a scope_tree_scheme"
    assume "collecting s"
    then have "only collection_errors m (s\<lparr>recursive_counter := recursive_counter s + 1\<rparr>) (\<lambda>_ s'. collecting s' \<and>
        grown (s\<lparr>recursive_counter := recursive_counter s + 1\<rparr>) s')"
      using assms unfolding collects_def by (simp add: out)
    then show "only collection_errors m (s\<lparr>recursive_counter := recursive_counter s + 1\<rparr>) (\<lambda>x s'.
        collecting (s'\<lparr>recursive_counter := recursive_counter s' - 1\<rparr>) \<and>
        grown s (s'\<lparr>recursive_counter := recursive_counter s' - 1\<rparr>))"
      by (rule only_mono) (simp add: out down)
  qed
qed

section \<open>The collectors keep the state good\<close>

lemma collects_CollectSimpleVariableDefinition [collects_intro]:
  "collects (CollectSimpleVariableDefinition c ord fd cur)"
  unfolding CollectSimpleVariableDefinition_def Let_def by (intro collects_intro)

lemma collects_argument [collects_intro]: "collects (collect_argument ord fd arg_ir acc)" "collects (log_argument_type t u)"
  unfolding collect_argument_def log_argument_type_def Let_def by (intro collects_intro)+

lemma collects_entry [collects_intro]: "collects ((case x of (n, t) \<Rightarrow> \<lambda>_. AddDefinition sid n t st) u)"
  by (simp add: split_beta collects_intro)

lemma collects_all:
  "collects (create_symbol_table c ord fd cur :: ('z scope_tree_scheme, bool) M)"
  "collects (collect_definition c ord fd cur :: ('z scope_tree_scheme, bool) M)"
  "collects (CollectStructureDefinition c ord fd cur :: ('z scope_tree_scheme, unit) M)"
  "collects (CollectFunctionDefinition c ord fd cur :: ('z scope_tree_scheme, unit) M)"
proof (induction c ord fd cur and c ord fd cur and c ord fd cur and c ord fd cur
    rule: create_symbol_table_collect_definition_CollectStructureDefinition_CollectFunctionDefinition.induct)
  case (1 c ord fd root)
  have eq: "create_symbol_table c ord fd root =
    bnd (modify (\<lambda>s. s\<lparr>recursive_counter := recursive_counter s + 1\<rparr>)) (\<lambda>_.
    bnd (bnd (gets recursive_counter) (\<lambda>counter.
      if root = NullIR then throw Null_dereference
      else if counter = 1 \<and> (250 < sint (GetChildNum root) \<or> 1500 < sint (GetChildNum root)) \<and> \<not> HasBuiltinType
      then return False
      else bnd (if is_contain_definition root then collect_definition c ord fd root else return False) (\<lambda>_. return True)))
    (\<lambda>x. bnd (modify (\<lambda>s. s\<lparr>recursive_counter := recursive_counter s - 1\<rparr>)) (\<lambda>_. return x)))"
    by (simp only: create_symbol_table.simps [of c ord fd root] bnd_assoc bnd_return bnd_throw bnd_if)
  show ?case unfolding eq
    by (rule collects_counted) (intro collects_intro 1; assumption)
next
  case (2 c ord fd cur)
  show ?case
  proof (cases cur)
    case NullIR
    then show ?thesis by (simp add: collect_definition.simps [of c ord fd NullIR] collects_intro)
  next
    case (Node a i l r)
    show ?thesis
    proof (cases "is_definition_type (ir_data_type i)")
      case True
      then have "find_define_type cur = kClassDefinition \<Longrightarrow> collects (CollectStructureDefinition c ord fd cur :: ('z scope_tree_scheme, unit) M)"
        and "find_define_type cur = kFunctionDefinition \<Longrightarrow> collects (CollectFunctionDefinition c ord fd cur :: ('z scope_tree_scheme, unit) M)"
        using 2(1,2) Node by blast+
      then show ?thesis
        using True unfolding Node collect_definition.simps [of c ord fd "Node a i l r"] IR.case
        by (cases "find_define_type (Node a i l r)") (simp_all del: find_define_type.simps add: collects_intro)
    next
      case False
      then have "l \<noteq> NullIR \<Longrightarrow> collects (collect_definition c ord fd l :: ('z scope_tree_scheme, bool) M)"
        and "r \<noteq> NullIR \<Longrightarrow> collects (collect_definition c ord fd r :: ('z scope_tree_scheme, bool) M)"
        using 2(3,4) Node by blast+
      then show ?thesis
        using False unfolding Node collect_definition.simps [of c ord fd "Node a i l r"] IR.case
        by (simp add: collects_intro)
    qed
  qed
next
  case (3 c ord fd cur)
  show ?case
    unfolding CollectStructureDefinition.simps [of c ord fd cur] Let_def
    by (intro collects_intro 3; (assumption | rule refl)?) (auto split: option.split intro!: collects_intro)
next
  case (4 c ord fd cur)
  show ?case
    unfolding CollectFunctionDefinition.simps [of c ord fd cur] Let_def
    by (intro collects_intro 4; (assumption | rule refl)?)
qed

lemma collects_BuildSymbolTables: "collects (BuildSymbolTables c ord fd root)"
  unfolding BuildSymbolTables_def by (intro collects_intro collects_all)

section \<open>Searches\<close>

lemma contain_loop_spec:
  "contain_loop stk \<longleftrightarrow> (\<exists>t\<in>set stk. \<exists>u\<in>set (subtrees t). is_definition_type (ir_data_type (ir_info u)))"
  by (induction stk rule: contain_loop.induct) auto

lemma collect_root_found: "is_definition_type (ir_data_type (ir_info t)) \<Longrightarrow> t \<noteq> NullIR \<Longrightarrow> is_contain_definition t"
  using subtrees_self by (auto simp: is_contain_definition_def contain_loop_spec)

text \<open>The nodes of a type that lie below no other of the type.\<close>

fun outer_nodes :: "DataType \<Rightarrow> IR \<Rightarrow> IR list" where
  "outer_nodes type NullIR = []"
| "outer_nodes type (Node a i l r) =
     (if ir_data_type i = type then [Node a i l r] else outer_nodes type l @ outer_nodes type r)"

lemma search_all_outer: "search_all_by_data_type t type result kDataDefault False = result @ outer_nodes type t"
  by (induction t arbitrary: result) auto

lemma search_all_inside:
  "search_all_by_data_type t type result kDataDefault True =
     result @ filter (\<lambda>u. ir_data_type (ir_info u) = type) (subtrees t)"
  by (induction t arbitrary: result) auto

lemma find_append: "find P (xs @ ys) = (case find P xs of None \<Rightarrow> find P ys | Some x \<Rightarrow> Some x)"
  by (induction xs) auto

lemma search_first:
  "search_by_data_type t type kDataDefault =
     (case find (\<lambda>u. ir_data_type (ir_info u) = type) (subtrees t) of None \<Rightarrow> NullIR | Some u \<Rightarrow> u)"
proof (induction t)
  case NullIR
  show ?case by simp
next
  case (Node a i l r)
  have "u \<noteq> NullIR" if "find (\<lambda>u. ir_data_type (ir_info u) = type) (subtrees l) = Some u" for u
    using that subtrees_not_Null [of l] by (metis find_Some_iff nth_mem)
  then show ?case using Node by (auto simp: find_append split: option.splits)
qed

text \<open>The searches over a program without a forbidden type visit it in preorder: a definition is
  found exactly when some node is one, the first match of a type is the first in preorder, all
  matches are the nodes of the type, or, without going inside a match, those below no other.\<close>

theorem searches_preorder:
  "(is_contain_definition t \<longleftrightarrow> (\<exists>u\<in>set (subtrees t). is_definition_type (ir_data_type (ir_info u)))) \<and>
   search_by_data_type t type kDataDefault =
     (case find (\<lambda>u. ir_data_type (ir_info u) = type) (subtrees t) of None \<Rightarrow> NullIR | Some u \<Rightarrow> u) \<and>
   search_all_by_data_type t type [] kDataDefault True = filter (\<lambda>u. ir_data_type (ir_info u) = type) (subtrees t) \<and>
   search_all_by_data_type t type [] kDataDefault False = outer_nodes type t"
  by (simp_all add: is_contain_definition_def contain_loop_spec search_first search_all_inside search_all_outer)

section \<open>Results\<close>

text \<open>C38: filling the symbol tables of a program keeps the type tables and the scope tree intact: every
  table stays sorted and files definitions under their own, existing type, no scope, no definition
  and no type is lost or changed, and the static call counter is back at its old value. It ends there
  or at a failed assertion or contract, a null pointer or a name that is no string.\<close>

theorem BuildSymbolTables_keeps:
  fixes s :: "'z scope_tree_scheme"
  assumes "collecting s"
  shows "only {Assert_failed, Contract_failed, Null_dereference, Bad_variant_access} (BuildSymbolTables c ord fd root) s
    (\<lambda>_ s'. collecting s' \<and> grown s s')"
  using collects_BuildSymbolTables [of c ord fd root] assms unfolding collects_def collection_errors_def by blast

text \<open>a program of more than 250 nodes gets no symbol tables: the outermost call changes nothing.\<close>

theorem BuildSymbolTables_large:
  assumes "root \<noteq> NullIR" and "250 < sint (GetChildNum root)" and "recursive_counter s = 0"
  shows "BuildSymbolTables c ord fd root s = Inr ((), s)"
proof -
  have "s\<lparr>recursive_counter := 0\<rparr> = s" using assms(3) by simp
  then show ?thesis
    using assms by (simp add: BuildSymbolTables_def create_symbol_table.simps [of c ord fd root] bnd_def m_eval HasBuiltinType_def)
qed

text \<open>The definitions a variable definition enters, and a scope with them.\<close>

definition variable_definitions :: "(64 word \<Rightarrow> string) \<Rightarrow> TypeID \<Rightarrow> IR \<Rightarrow> Definition list" where
  "variable_definitions fd ty cur =
     map (\<lambda>n. \<lparr>def_name = ToString fd n, def_type = ty, def_statement_id = ir_statement_id (ir_info n)\<rparr>)
       (outer_nodes kVariableName cur)"

definition with_definitions :: "Definition list \<Rightarrow> scope \<Rightarrow> scope" where
  "with_definitions ds sc = sc\<lparr>sc_table := fold table_AddDefinition ds (sc_table sc)\<rparr>"

definition variable_type ::
  "configuration \<Rightarrow> (TypeID list \<Rightarrow> TypeID list) \<Rightarrow> (64 word \<Rightarrow> string) \<Rightarrow> 'z scope_tree_scheme \<Rightarrow> IR \<Rightarrow> TypeID" where
  "variable_type c ord fd s cur =
     (case search_by_data_type cur kVariableType kDataDefault of
        NullIR \<Rightarrow> kAnyType
      | type_node \<Rightarrow>
          let t = GetTypeIDByStr ord s (Trim (ToString fd type_node)) in
          if t = kNotExist \<and> IsWeakType c then kAnyType else t)"

lemma add_all:
  assumes "ty \<noteq> kNotExist" and "GetScopeById s sid = Some sc"
  shows "ok (foldM (\<lambda>n _. AddDefinition sid (f n) ty (g n)) ns ()) s (\<lambda>_ s'.
     (\<forall>k. GetScopeById s' k = (if k = sid then Some (with_definitions
        (map (\<lambda>n. \<lparr>def_name = f n, def_type = ty, def_statement_id = g n\<rparr>) ns) sc) else GetScopeById s k)) \<and>
     s'\<lparr>scope_id_map := []\<rparr> = s\<lparr>scope_id_map := []\<rparr>)"
  using assms(2)
proof (induction ns arbitrary: s sc)
  case Nil
  then show ?case by (simp add: ok_return with_definitions_def)
next
  case (Cons n ns)
  let ?d = "\<lparr>def_name = f n, def_type = ty, def_statement_id = g n\<rparr>"
  let ?sc = "sc\<lparr>sc_table := table_AddDefinition ?d (sc_table sc)\<rparr>"
  let ?s = "s\<lparr>scope_id_map := om_put sid ?sc (scope_id_map s)\<rparr>"
  have step: "AddDefinition sid (f n) ty (g n) s = Inr ((), ?s)"
    using assms(1) Cons.prems by (simp add: AddDefinition_def modify_scope_def bnd_def m_eval)
  have lk: "GetScopeById ?s k = (if k = sid then Some ?sc else GetScopeById s k)" for k
    by (simp add: GetScopeById_def om_get_put)
  then have sid: "GetScopeById ?s sid = Some ?sc" by simp
  have "ok (foldM (\<lambda>n _. AddDefinition sid (f n) ty (g n)) (n # ns) ()) s Q =
      ok (foldM (\<lambda>n _. AddDefinition sid (f n) ty (g n)) ns ()) ?s Q" for Q
    by (simp add: ok_def bnd_def step)
  then show ?case
    by (simp del: foldM.simps) (rule ok_mono [OF Cons.IH [OF sid]], simp add: lk with_definitions_def)
qed

text \<open>C39: a variable definition whose scope exists and whose type is known, or is unknown in a weakly
  typed language, or is not written: it enters each of its outermost name nodes into the table
  of its scope, in program order, with that type and the name node's statement id, and changes
  nothing else; with an unknown type in a strongly typed language the assertion fails.\<close>

theorem CollectSimpleVariableDefinition_enters:
  assumes "GetScopeById s (ir_scope_id (ir_info cur)) = Some sc"
  shows "(variable_type c ord fd s cur \<noteq> kNotExist \<longrightarrow>
      ok (CollectSimpleVariableDefinition c ord fd cur) s (\<lambda>_ s'.
        (\<forall>k. GetScopeById s' k = (if k = ir_scope_id (ir_info cur)
           then Some (with_definitions (variable_definitions fd (variable_type c ord fd s cur) cur) sc)
           else GetScopeById s k)) \<and>
        s'\<lparr>scope_id_map := []\<rparr> = s\<lparr>scope_id_map := []\<rparr>)) \<and>
    (variable_type c ord fd s cur = kNotExist \<longrightarrow>
      CollectSimpleVariableDefinition c ord fd cur s = Inl Assert_failed)"
proof -
  let ?ty = "variable_type c ord fd s cur"
  have split: "CollectSimpleVariableDefinition c ord fd cur s =
      (if ?ty = kNotExist then Inl Assert_failed
       else foldM (\<lambda>n _. AddDefinition (ir_scope_id (ir_info cur)) (ToString fd n) ?ty
              (ir_statement_id (ir_info n))) (outer_nodes kVariableName cur) () s)"
    by (cases "search_by_data_type cur kVariableType kDataDefault")
      (simp_all add: CollectSimpleVariableDefinition_def variable_type_def Let_def bnd_def m_eval search_all_outer)
  show ?thesis
    using add_all [OF _ assms, of ?ty "ToString fd" "\<lambda>n. ir_statement_id (ir_info n)" "outer_nodes kVariableName cur"]
    unfolding variable_definitions_def by (simp add: ok_def split)
qed

section \<open>Function definitions\<close>

definition function_arguments :: "IR \<Rightarrow> IR list" where
  "function_arguments cur = search_all_by_data_type cur kFunctionArgument [] kFunctionBody False"

definition argument_type :: "(TypeID list \<Rightarrow> TypeID list) \<Rightarrow> (64 word \<Rightarrow> string) \<Rightarrow> 'z scope_tree_scheme \<Rightarrow> IR \<Rightarrow> TypeID" where
  "argument_type ord fd s a = GetTypeIDByStr ord s (Trim (ToString fd (search_by_data_type a kVariableType kDataDefault)))"

definition argument_ok :: "(TypeID list \<Rightarrow> TypeID list) \<Rightarrow> (64 word \<Rightarrow> string) \<Rightarrow> 'z scope_tree_scheme \<Rightarrow> IR \<Rightarrow> bool" where
  "argument_ok ord fd s a \<longleftrightarrow> search_by_data_type a kVariableName kDataDefault \<noteq> NullIR \<and>
     search_by_data_type a kVariableType kDataDefault \<noteq> NullIR"

definition argument_name :: "(64 word \<Rightarrow> string) \<Rightarrow> IR \<Rightarrow> string" where
  "argument_name fd a = Trim (ToString fd (search_by_data_type a kVariableName kDataDefault))"

lemma collect_arguments:
  "foldM (collect_argument ord fd) args (ts, ns) s =
     (case find (\<lambda>a. \<not> argument_ok ord fd s a) args of
        None \<Rightarrow> Inr ((ts @ map (argument_type ord fd s) args, ns @ map (argument_name fd) args), s)
      | Some a \<Rightarrow> Inl (if search_by_data_type a kVariableName kDataDefault = NullIR then Assert_failed else Null_dereference))"
proof (induction args arbitrary: ts ns)
  case Nil
  show ?case by (simp add: m_eval)
next
  case (Cons a args)
  have "collect_argument ord fd a (ts, ns) s =
      (if argument_ok ord fd s a then Inr ((ts @ [argument_type ord fd s a], ns @ [argument_name fd a]), s)
       else Inl (if search_by_data_type a kVariableName kDataDefault = NullIR then Assert_failed else Null_dereference))"
    by (simp add: collect_argument_def argument_ok_def argument_type_def argument_name_def bnd_def m_eval Let_def)
  then show ?case by (simp add: bnd_def Cons split: option.split)
qed

lemma log_types:
  "foldM log_argument_type ts () s =
     (if \<forall>t\<in>set ts. GetTypePtrByID s t \<noteq> None then Inr ((), s) else Inl Null_dereference)"
  by (induction ts) (simp_all add: log_argument_type_def bnd_def m_eval)

lemma types_wf_none: "types_wf s \<Longrightarrow> GetTypePtrByID s kNotExist = None"
  using types_wf_entry [of s kNotExist] by (cases "GetTypePtrByID s kNotExist") (auto simp: entry_ok_def)

lemma known_type:
  assumes "types_wf s" and "walks_all ord"
  shows "GetTypePtrByID s (GetTypeIDByStr ord s str) \<noteq> None \<longleftrightarrow> GetTypeIDByStr ord s str \<noteq> kNotExist"
  using GetTypeIDByStr_spec [OF assms, of str] types_wf_none [OF assms(1)] by (auto split: if_splits)

definition function_name :: "(64 word \<Rightarrow> string) \<Rightarrow> IR \<Rightarrow> string" where
  "function_name fd cur = strip_string (ToString fd (search_by_data_type cur kFunctionName kFunctionBody))"

definition return_type :: "(TypeID list \<Rightarrow> TypeID list) \<Rightarrow> (64 word \<Rightarrow> string) \<Rightarrow> 'z scope_tree_scheme \<Rightarrow> IR \<Rightarrow> TypeID" where
  "return_type ord fd s cur =
     (if search_by_data_type cur kFunctionReturnType kFunctionBody = NullIR then kNotExist
      else GetTypeIDByStr ord s (Trim (strip_tag (ToString fd (search_by_data_type cur kFunctionReturnType kFunctionBody)))))"

definition enter_function ::
  "(TypeID list \<Rightarrow> TypeID list) \<Rightarrow> (64 word \<Rightarrow> string) \<Rightarrow> TypeID \<Rightarrow> IR \<Rightarrow> TypeID list \<Rightarrow> string list \<Rightarrow> ('z scope_tree_scheme, unit) M" where
  "enter_function ord fd ret cur ts ns =
     (if ret \<noteq> kNotExist
      then bnd (CreateFunctionType (function_name fd cur) ret ts ns) (\<lambda>fid.
           AddDefinition (ir_scope_id (ir_info cur)) (function_name fd cur) fid
             (ir_statement_id (ir_info (search_by_data_type cur kFunctionName kFunctionBody))))
      else return ())"

text \<open>The error of a list of arguments that is not collected: of the first argument without a name or a
  type node, or else of one whose type is unknown.\<close>

definition argument_error :: "(TypeID list \<Rightarrow> TypeID list) \<Rightarrow> (64 word \<Rightarrow> string) \<Rightarrow> 'z scope_tree_scheme \<Rightarrow> IR list \<Rightarrow> error" where
  "argument_error ord fd s args =
     (case find (\<lambda>a. \<not> argument_ok ord fd s a) args of
        Some a \<Rightarrow> if search_by_data_type a kVariableName kDataDefault = NullIR then Assert_failed else Null_dereference
      | None \<Rightarrow> Null_dereference)"

lemma CollectFunctionDefinition_split:
  assumes "types_wf s" and "walks_all ord"
    and "search_by_data_type cur kFunctionName kFunctionBody \<noteq> NullIR" and "function_name fd cur \<noteq> []"
    and "search_by_data_type cur kFunctionBody kDataDefault = NullIR"
  shows "\<forall>a\<in>set (function_arguments cur). argument_ok ord fd s a \<and> argument_type ord fd s a \<noteq> kNotExist \<Longrightarrow>
      CollectFunctionDefinition c ord fd cur s = enter_function ord fd (return_type ord fd s cur) cur
        (map (argument_type ord fd s) (function_arguments cur)) (map (argument_name fd) (function_arguments cur)) s"
    and "a \<in> set (function_arguments cur) \<Longrightarrow> \<not> (argument_ok ord fd s a \<and> argument_type ord fd s a \<noteq> kNotExist) \<Longrightarrow>
      CollectFunctionDefinition c ord fd cur s = Inl (argument_error ord fd s (function_arguments cur))"
proof -
  have known: "GetTypePtrByID s (argument_type ord fd s a) \<noteq> None \<longleftrightarrow> argument_type ord fd s a \<noteq> kNotExist" for a
    unfolding argument_type_def by (rule known_type [OF assms(1,2)])
  have ret: "(if search_by_data_type cur kFunctionReturnType kFunctionBody \<noteq> NullIR
      then gets (\<lambda>s. GetTypeIDByStr ord s (Trim (strip_tag (ToString fd (search_by_data_type cur kFunctionReturnType kFunctionBody)))))
      else return kNotExist) s = Inr (return_type ord fd s cur, s)"
    by (simp add: return_type_def m_eval)
  have logs: "foldM log_argument_type (map (argument_type ord fd s) as) () s =
      (if \<forall>a\<in>set as. argument_type ord fd s a \<noteq> kNotExist then Inr ((), s) else Inl Null_dereference)" for as
    unfolding log_types by (simp add: known del: not_None_eq)
  note evals = bnd_def ret collect_arguments logs
  have name: "strip_string (ToString fd (search_by_data_type cur kFunctionName kFunctionBody)) = function_name fd cur"
    by (simp add: function_name_def)
  show "CollectFunctionDefinition c ord fd cur s = enter_function ord fd (return_type ord fd s cur) cur
        (map (argument_type ord fd s) (function_arguments cur)) (map (argument_name fd) (function_arguments cur)) s"
    if all: "\<forall>a\<in>set (function_arguments cur). argument_ok ord fd s a \<and> argument_type ord fd s a \<noteq> kNotExist"
  proof -
    have "find (\<lambda>a. \<not> argument_ok ord fd s a) (function_arguments cur) = None"
      using all by (simp add: find_None_iff)
    then show ?thesis using all
      by (simp add: CollectFunctionDefinition.simps [of c ord fd cur] Let_def assms name function_arguments_def [symmetric]
          evals enter_function_def m_eval split: sum.splits prod.splits)
  qed
  show "CollectFunctionDefinition c ord fd cur s = Inl (argument_error ord fd s (function_arguments cur))"
    if a: "a \<in> set (function_arguments cur)" "\<not> (argument_ok ord fd s a \<and> argument_type ord fd s a \<noteq> kNotExist)"
  proof (cases "find (\<lambda>a. \<not> argument_ok ord fd s a) (function_arguments cur)")
    case None
    then have "argument_type ord fd s a = kNotExist" using a by (auto simp: find_None_iff)
    then have "(\<forall>a\<in>set (function_arguments cur). argument_type ord fd s a \<noteq> kNotExist) = False" using a(1) by blast
    then show ?thesis using None
      by (auto simp: argument_error_def CollectFunctionDefinition.simps [of c ord fd cur] Let_def assms name function_arguments_def [symmetric] evals)
  next
    case (Some b)
    then show ?thesis
      by (simp add: argument_error_def CollectFunctionDefinition.simps [of c ord fd cur] Let_def assms name function_arguments_def [symmetric] evals)
  qed
qed

lemma ok_enter_function:
  assumes "collecting s" and "ir_scope_id (ir_info cur) \<in> scope_ids s" and "ret \<noteq> kNotExist"
  shows "ok (enter_function ord fd ret cur ts ns) s (\<lambda>_ s'. \<exists>k v sc'. GetTypePtrByID s k = None \<and>
     GetFunctionType s' k = Some v \<and> vt_name (vt_info v) = function_name fd cur \<and> ft_return v = ret \<and>
     ft_args v = ts \<and> ft_arg_names v = ns \<and> GetScopeById s' (ir_scope_id (ir_info cur)) = Some sc' \<and>
     \<lparr>def_name = function_name fd cur, def_type = k, def_statement_id =
       ir_statement_id (ir_info (search_by_data_type cur kFunctionName kFunctionBody))\<rparr> \<in> table_defs (sc_table sc'))"
  unfolding enter_function_def if_P [OF assms(3)] ok_bnd
proof (rule ok_mono [OF ok_function_created [OF assms(1)]], elim conjE, goal_cases)
  case (1 k s')
  have none: "GetTypePtrByID s k = None"
    using fresh_lookup [OF collecting_wf(1) [OF assms(1)], of k] 1(1) by (cases "GetTypePtrByID s k") auto
  have "k \<noteq> kNotExist" using types_wfD(1) [OF collecting_wf(1) [OF assms(1)]] 1(1) by auto
  obtain sc where sc: "GetScopeById s' (ir_scope_id (ir_info cur)) = Some sc" "om_sorted (sc_table sc)"
    using 1(2,3) assms(2) grownD(1) [of s s'] table_okD(1) unfolding scope_ids_iff collecting_def by meson
  have gf: "GetFunctionType (u\<lparr>scope_id_map := m\<rparr>) = GetFunctionType u" for u :: "'a scope_tree_scheme" and m
    by (simp add: fun_eq_iff GetFunctionType_def)
  show ?case
    using 1(4) none \<open>k \<noteq> kNotExist\<close> sc
    by (simp add: AddDefinition_def modify_scope_def ok_def bnd_def m_eval gf, intro exI [of _ k])
      (simp add: GetScopeById_def om_get_put table_defs_push)
qed

text \<open>C40: a named function definition without a body is collected exactly when every argument has a
  name, a type node and a type the type system knows. Otherwise the collection stops, with a failed
  assertion if the first faulty argument has no name, and by dereferencing a null pointer if it
  has no type node (the null check is a line earlier only) or if all have one but a type is
  unknown (in the log line that prints the name of the type). When the collection succeeds and the
  return type is written and known, a new function type with the return type, arguments and names is
  created and entered into the definition's scope; with an unknown or unwritten return type
  nothing is entered and nothing changes.\<close>

theorem CollectFunctionDefinition_declaration:
  assumes "collecting s" and "walks_all ord" and "ir_scope_id (ir_info cur) \<in> scope_ids s"
    and "search_by_data_type cur kFunctionName kFunctionBody \<noteq> NullIR" and "function_name fd cur \<noteq> []"
    and "search_by_data_type cur kFunctionBody kDataDefault = NullIR"
  shows "if \<forall>a\<in>set (function_arguments cur). argument_ok ord fd s a \<and> argument_type ord fd s a \<noteq> kNotExist
    then ok (CollectFunctionDefinition c ord fd cur) s (\<lambda>_ s'. if return_type ord fd s cur = kNotExist then s' = s
      else \<exists>k v sc'. GetTypePtrByID s k = None \<and> GetFunctionType s' k = Some v \<and>
        vt_name (vt_info v) = function_name fd cur \<and> ft_return v = return_type ord fd s cur \<and>
        ft_args v = map (argument_type ord fd s) (function_arguments cur) \<and>
        ft_arg_names v = map (argument_name fd) (function_arguments cur) \<and>
        GetScopeById s' (ir_scope_id (ir_info cur)) = Some sc' \<and>
        \<lparr>def_name = function_name fd cur, def_type = k, def_statement_id =
          ir_statement_id (ir_info (search_by_data_type cur kFunctionName kFunctionBody))\<rparr> \<in> table_defs (sc_table sc'))
    else CollectFunctionDefinition c ord fd cur s = Inl (argument_error ord fd s (function_arguments cur))"
proof (cases "\<forall>a\<in>set (function_arguments cur). argument_ok ord fd s a \<and> argument_type ord fd s a \<noteq> kNotExist")
  case True
  note eq = CollectFunctionDefinition_split(1) [OF collecting_wf(1) [OF assms(1)] assms(2,4-6) True]
  show ?thesis
  proof (cases "return_type ord fd s cur = kNotExist")
    case True
    then show ?thesis using \<open>\<forall>a\<in>_. _\<close> by (simp add: ok_def eq) (simp add: enter_function_def m_eval)
  next
    case False
    note f = ok_enter_function [OF assms(1,3) False, of ord fd "map (argument_type ord fd s) (function_arguments cur)"
        "map (argument_name fd) (function_arguments cur)", unfolded ok_def]
    show ?thesis unfolding if_P [OF True] ok_def eq if_not_P [OF False] by (rule f)
  qed
next
  case False
  then show ?thesis
    using CollectFunctionDefinition_split(2) [OF collecting_wf(1) [OF assms(1)] assms(2,4-6)] by (simp only: if_False) blast
qed

text \<open>A class definition inside a variable definition: the postcondition of the collector's first
  statement, that the node is a class definition, fails.\<close>

lemma CollectStructureDefinition_in_variable:
  assumes "ir_data_type (ir_info cur) = kVariableDefinition" and "find_define_type cur = kClassDefinition"
  shows "collect_definition c ord fd cur s = Inl Contract_failed"
proof (cases cur)
  case NullIR
  then show ?thesis using assms(2) by simp
next
  case (Node a i l r)
  then have "is_definition_type (ir_data_type i)" using assms(1) by (simp add: is_definition_type_def)
  then show ?thesis
    using assms
    by (simp add: collect_definition.simps [of c ord fd "Node a i l r"] Node CollectStructureDefinition.simps [of c ord fd "Node a i l r"]
        bnd_def m_eval del: find_define_type.simps)
qed

section \<open>Witnesses\<close>

text \<open>A new type system has no compound types, as long as the static table has none.\<close>

lemma compounds_constructed: "compound_types (constructed c s) = []" "kept (constructed c s) = kept s"
proof -
  have "compound_types (with_basics ls u) = compound_types u \<and> kept (with_basics ls u) = kept u"
    for ls and u :: "'a type_system_scheme"
    by (induction ls arbitrary: u) (simp_all add: with_basics_def new_basic_def with_builtin_def kept_def)
  then show "compound_types (constructed c s) = []" "kept (constructed c s) = kept s"
    by (simp_all add: constructed_def with_specials_def Let_def with_builtin_def kept_def)
qed

lemma named_members_constructed:
  assumes "types_wf s" and "s_builted_compound_types s = []"
  shows "named_members (constructed c s)"
  unfolding named_members_def
proof (intro allI impI)
  fix j i ms
  assume "GetTypePtrByID (constructed c s) j = Some (CompoundType i ms)"
  then have v: "(j, CompoundType i ms) \<in> set (all_entries (constructed c s))"
    unfolding GetTypePtrByID_all by (rule map_of_SomeD)
  have "compound_types (constructed c s) = []" "s_builted_compound_types (constructed c s) = []"
    using compounds_constructed [of c s] assms(2) by (simp_all add: kept_def)
  moreover have "\<not> simple_kind (CompoundType i ms)" "\<not> is_function_type (CompoundType i ms)"
    by (simp_all add: simple_kind_def is_compound_type_def is_function_type_def)
  ultimately show "\<forall>x\<in>set ms. snd x \<noteq> []"
    using v types_wfD(5,7) [OF types_wf_constructed [OF assms(1)]] by (fastforce simp: all_entries_def)
qed

text \<open>One global scope over the demo types.\<close>

definition demo_tree :: scope_tree where
  "demo_tree = first_scope kScopeGlobal (constructed demo_configuration demo_scopes)"

lemma demo_tree_wf: "collecting demo_tree" "GetScopeById demo_tree 1 =
    Some \<lparr>sc_type = kScopeGlobal, sc_parent = None, sc_children = [], sc_table = [], sc_defined_names = {}\<rparr>"
proof -
  let ?s = "constructed demo_configuration demo_scopes"
  have "types_wf (first_scope ty s) = types_wf s" "specials (first_scope ty s) = specials s"
      "named_members (first_scope ty s) = named_members s"
      "s_builted_compound_types (first_scope ty s) = s_builted_compound_types s" for ty and s :: scope_tree
    by (simp_all add: types_wf_def specials_def all_entries_def first_scope_def named_members_def GetTypePtrByID_def)
  then have t: "types_wf demo_tree" "specials demo_tree" "named_members demo_tree" "s_builted_compound_types demo_tree = []"
    using types_wf_constructed [OF demo_scopes_wf] named_members_constructed [OF demo_scopes_wf]
      compounds_constructed(2) [of demo_configuration demo_scopes]
    by (simp_all add: demo_tree_def specials_constructed kept_def)
      (simp_all add: demo_scopes_def demo_statics_def type_system.defs)
  show l: "GetScopeById demo_tree 1 =
    Some \<lparr>sc_type = kScopeGlobal, sc_parent = None, sc_children = [], sc_table = [], sc_defined_names = {}\<rparr>"
    by (simp add: demo_tree_def first_scope_def GetScopeById_def om_get_def)
  have "GetScopeById demo_tree k = Some sc \<Longrightarrow> table_ok (sc_table sc)" for k sc
    by (auto simp: demo_tree_def first_scope_def GetScopeById_def om_get_def split: if_splits)
  moreover have "scopes_wf demo_tree" by (simp add: demo_tree_def first_scope_wf)
  ultimately show "collecting demo_tree" using t by (simp add: collecting_def)
qed

definition leaf_node :: "nat \<Rightarrow> DataType \<Rightarrow> string \<Rightarrow> IR" where
  "leaf_node a d str = Node a (node_info d kScopeDefault (StringData str)\<lparr>ir_scope_id := 1\<rparr>) NullIR NullIR"

definition demo_variable :: IR where
  "demo_variable = Node 9 (node_info kVariableDefinition kScopeDefault Monostate\<lparr>ir_scope_id := 1\<rparr>)
     (leaf_node 1 kVariableType ''int'') (leaf_node 2 kVariableName ''x'')"

definition demo_function :: IR where
  "demo_function = Node 9 (node_info kFunctionDefinition kScopeDefault Monostate\<lparr>ir_scope_id := 1\<rparr>)
     (leaf_node 1 kFunctionReturnType ''int'') (leaf_node 2 kFunctionName ''f'')"

definition demo_chain :: "nat \<Rightarrow> IR" where
  "demo_chain n = ((\<lambda>t. Node 0 (node_info kVariableDefinition kScopeDefault Monostate) t NullIR) ^^ n) NullIR"

lemma BuildSymbolTables_keeps_witness:
  "only {Assert_failed, Contract_failed, Null_dereference, Bad_variant_access}
     (BuildSymbolTables demo_configuration (\<lambda>ks. ks) (\<lambda>_. []) demo_function) demo_tree (\<lambda>_ s'. types_wf s' \<and> scopes_wf s')"
  by (rule only_mono [OF BuildSymbolTables_keeps [OF demo_tree_wf(1)]]) (simp add: collecting_def)

lemma BuildSymbolTables_large_witness:
  "BuildSymbolTables demo_configuration (\<lambda>ks. ks) (\<lambda>_. []) (demo_chain 300) demo_tree = Inr ((), demo_tree)"
proof -
  have "ir_size (demo_chain n) = n" for n by (induction n) (simp_all add: demo_chain_def)
  then have "250 < sint (GetChildNum (demo_chain 300))" by (simp add: GetChildNum_size)
  moreover have "demo_chain 300 \<noteq> NullIR" by (simp add: demo_chain_def numeral_eq_Suc)
  moreover have "recursive_counter demo_tree = 0"
    by (simp add: demo_tree_def first_scope_def constructed_def with_specials_def with_basics_def Let_def with_builtin_def
        demo_configuration_def GetBasicTypeStr_def new_basic_def demo_scopes_def type_system.defs)
  ultimately show ?thesis by (intro BuildSymbolTables_large)
qed

lemma CollectSimpleVariableDefinition_enters_witness:
  "ok (CollectSimpleVariableDefinition demo_configuration (\<lambda>ks. ks) (\<lambda>_. []) demo_variable) demo_tree (\<lambda>_ s'.
     \<exists>sc. GetScopeById s' 1 = Some sc \<and> sc_table sc \<noteq> [])"
proof -
  have cur: "ir_scope_id (ir_info demo_variable) = 1" by (simp add: demo_variable_def)
  have ty: "variable_type demo_configuration (\<lambda>ks. ks) (\<lambda>_. []) demo_tree demo_variable \<noteq> kNotExist"
    by (simp add: variable_type_def demo_configuration_def IsWeakType_def Let_def split: IR.split)
  have names: "outer_nodes kVariableName demo_variable = [leaf_node 2 kVariableName ''x'']"
    by (simp add: demo_variable_def leaf_node_def node_info_def)
  note R = CollectSimpleVariableDefinition_enters [of demo_tree demo_variable, unfolded cur, OF demo_tree_wf(2)]
  show ?thesis
    by (rule ok_mono [OF R [THEN conjunct1, THEN mp, OF ty]])
      (simp add: with_definitions_def variable_definitions_def names table_AddDefinition_def om_push_def)
qed

lemma CollectFunctionDefinition_declaration_witness:
  "\<exists>r. CollectFunctionDefinition demo_configuration (\<lambda>ks. ks) (\<lambda>_. []) demo_function demo_tree = Inr r"
proof -
  note S = demo_function_def leaf_node_def node_info_def
  have args: "function_arguments demo_function = []" by (simp add: function_arguments_def S)
  have name: "search_by_data_type demo_function kFunctionName kFunctionBody \<noteq> NullIR"
    "search_by_data_type demo_function kFunctionBody kDataDefault = NullIR" by (simp_all add: S)
  have str: "function_name (\<lambda>_. []) demo_function \<noteq> []"
    unfolding function_name_def S by code_simp
  have w: "walks_all (\<lambda>ks. ks)" by (simp add: walks_all_def)
  have sid: "ir_scope_id (ir_info demo_function) \<in> scope_ids demo_tree"
    using demo_tree_wf(2) by (simp add: scope_ids_iff demo_function_def)
  show ?thesis
    using CollectFunctionDefinition_declaration [OF demo_tree_wf(1) w sid name(1) str name(2), of demo_configuration]
    by (auto simp: args ok_def split: sum.splits)
qed

end
