(* ===== verification/Expression_Generator.thy ===== *)
theory Expression_Generator
  imports Symbol_Collection
begin

text \<open>
  The class \<open>ExpressionGenerator\<close> of \<open>srcs/internal/srcs/typesystem.cpp\<close>, which fills a place marked
  \<open>FIXME\<close> with an expression over the variables, members and functions in scope. The maps of the
  last scope are statics of \<open>generate_expression_by_type_core\<close>; the counters belong to the
  generator object. A handler that generates its arguments gets the generator it calls as an
  argument, and \<open>generate_expression_by_type_core\<close> ties the knot with fuel: the counter of
  generated expressions grows with every nested call and cuts the recursion off after 50. The
  result: which functions can be called with the types at hand.
\<close>

section \<open>State\<close>

record var_maps =
  vm_simple :: "(TypeID, string list) omap"
  vm_compound :: "(TypeID, string list) omap"
  vm_function :: "(TypeID, string list) omap"
  vm_pointer :: "(TypeID, string list) omap"

text \<open>The three sets of types a type can be made from.\<close>

record handler_types =
  simple_var_idx :: "TypeID set"
  structure_idx :: "TypeID set"
  function_call_idx :: "TypeID set"

definition no_handlers :: handler_types where
  "no_handlers = \<lparr>simple_var_idx = {}, structure_idx = {}, function_call_idx = {}\<rparr>"

record expression_generator = scope_tree +
  gen_counter :: nat
  function_gen_counter :: nat
  current_fix_scope :: "32 word"
  static_var_maps :: "var_maps option"
  all_satisfiable_types :: "(TypeID, handler_types) omap"
  builtin_structure_type_cache :: "(TypeID, TypeID set) omap"

definition member_str :: string where
  "member_str = ''.''"

section \<open>What is in scope\<close>

definition filter_element :: "(TypeID, string list) omap \<Rightarrow> TypeID set \<Rightarrow> (TypeID, string list) omap" where
  "filter_element vars satisfiable_types = filter (\<lambda>(t, _). t \<in> satisfiable_types) vars"

text \<open>The scopes from one outwards.\<close>

primrec scope_chain :: "nat \<Rightarrow> 'z scope_tree_scheme \<Rightarrow> ScopeID \<Rightarrow> scope list" where
  "scope_chain 0 s sid = []"
| "scope_chain (Suc n) s sid =
     (case GetScopeById s sid of
        None \<Rightarrow> []
      | Some sc \<Rightarrow> sc # (case sc_parent sc of None \<Rightarrow> [] | Some p \<Rightarrow> scope_chain n s p))"

definition push_visible :: "StatementID \<Rightarrow> TypeID \<Rightarrow> Definition list \<Rightarrow> (TypeID, string list) omap \<Rightarrow> (TypeID, string list) omap" where
  "push_visible ir_id t defs m =
     fold (\<lambda>d m. if def_statement_id d < ir_id then om_push t (def_name d) m else m) defs m"

definition collect_entry ::
  "'z scope_tree_scheme \<Rightarrow> StatementID \<Rightarrow> TypeID \<times> Definition list \<Rightarrow> var_maps \<Rightarrow> var_maps" where
  "collect_entry s ir_id = (\<lambda>(t, defs) vm.
     (case GetTypePtrByID s t of
        None \<Rightarrow> vm
      | Some v \<Rightarrow>
          if is_function_type v then vm\<lparr>vm_function := push_visible ir_id t defs (vm_function vm)\<rparr>
          else if is_compound_type v then vm\<lparr>vm_compound := push_visible ir_id t defs (vm_compound vm)\<rparr>
          else
            let vm = (if is_pointer_type v then vm\<lparr>vm_pointer := push_visible ir_id t defs (vm_pointer vm)\<rparr> else vm)
            in vm\<lparr>vm_simple := push_visible ir_id t defs (vm_simple vm)\<rparr>))"

text \<open>Every builtin name with a chance of one in their number, then up to \<open>n\<close> more at random.\<close>

definition add_builtin_name :: "nat \<Rightarrow> TypeID \<Rightarrow> string \<Rightarrow> (TypeID, string list) omap \<Rightarrow> ('z runtime_scheme, (TypeID, string list) omap) M" where
  "add_builtin_name add_prop t n m =
     bnd (get_rand_int add_prop) (\<lambda>r. return (if r = 0 then om_push t n m else m))"

definition add_builtins ::
  "nat \<Rightarrow> (TypeID, string list) omap \<Rightarrow> (TypeID, string list) omap \<Rightarrow> ('z runtime_scheme, (TypeID, string list) omap) M" where
  "add_builtins n builtin m =
     bnd (foldM (\<lambda>(t, names). foldM (add_builtin_name (length builtin) t) names) builtin m) (\<lambda>m.
     if builtin = [] then return m
     else foldM (\<lambda>_ m. bnd (random_pick builtin) (\<lambda>(t, names).
            if names = [] then return m
            else bnd (random_pick names) (\<lambda>name. return (om_push t name m)))) [0..<n] m)"

definition collect_all_var_definition_by_type :: "IR \<Rightarrow> ('z scope_tree_scheme, var_maps) M" where
  "collect_all_var_definition_by_type cur =
     bnd (gets (\<lambda>s. fold (\<lambda>sc. fold (collect_entry s (ir_statement_id (ir_info cur))) (sc_table sc))
            (scope_chain (length (scope_id_map s)) s (ir_scope_id (ir_info cur)))
            \<lparr>vm_simple = [], vm_compound = [], vm_function = [], vm_pointer = []\<rparr>)) (\<lambda>vm.
     bnd (add_builtins 2 GetBuiltinFunctionTypes (vm_function vm)) (\<lambda>functions.
     bnd (add_builtins 2 GetBuiltinCompoundTypes (vm_compound vm)) (\<lambda>compounds.
     bnd (add_builtins 1 GetBuiltinSimpleVarTypes (vm_simple vm)) (\<lambda>simple.
     return (vm\<lparr>vm_simple := simple, vm_compound := compounds, vm_function := functions\<rparr>)))))"

section \<open>Which types can be made\<close>

text \<open>One pass over the functions not satisfied yet: a function all of whose argument types are
  available is taken out and its return type becomes available.\<close>

fun satisfy_pass ::
  "'z type_system_scheme \<Rightarrow> (TypeID \<times> TypeID set) list \<Rightarrow> TypeID set
     \<Rightarrow> error + ((TypeID \<times> TypeID set) list \<times> TypeID set \<times> bool)" where
  "satisfy_pass s [] current_types = Inr ([], current_types, False)"
| "satisfy_pass s ((f, args) # func_map) current_types =
     (case GetFunctionType s f of
        None \<Rightarrow> Inl Null_dereference
      | Some func \<Rightarrow>
          if args - current_types = {} then
            (case satisfy_pass s func_map (insert (ft_return func) current_types) of
               Inl e \<Rightarrow> Inl e
             | Inr (rest, current_types, _) \<Rightarrow> Inr (rest, current_types, True))
          else
            (case satisfy_pass s func_map current_types of
               Inl e \<Rightarrow> Inl e
             | Inr (rest, current_types, is_change) \<Rightarrow> Inr ((f, args) # rest, current_types, is_change)))"

lemma satisfy_pass_shrinks:
  "satisfy_pass s fm cur = Inr (rest, cur', ch) \<Longrightarrow>
     length rest \<le> length fm \<and> (ch \<longleftrightarrow> length rest < length fm) \<and> (\<not> ch \<longrightarrow> rest = fm \<and> cur' = cur)"
proof (induction fm arbitrary: cur rest cur' ch)
  case Nil
  then show ?case by simp
next
  case (Cons fa fm)
  obtain f args where fa: "fa = (f, args)" by (cases fa)
  obtain func where func: "GetFunctionType s f = Some func"
    using Cons.prems fa by (cases "GetFunctionType s f") simp_all
  show ?case
  proof (cases "args - cur = {}")
    case True
    then obtain ch' where "satisfy_pass s fm (insert (ft_return func) cur) = Inr (rest, cur', ch')" and "ch"
      using Cons.prems fa func by (auto split: sum.splits)
    then show ?thesis using Cons.IH by fastforce
  next
    case False
    then obtain rest' where "satisfy_pass s fm cur = Inr (rest', cur', ch)" and "rest = (f, args) # rest'"
      using Cons.prems fa func by (auto split: sum.splits)
    then show ?thesis using Cons.IH fa by fastforce
  qed
qed

function satisfy_loop ::
  "'z type_system_scheme \<Rightarrow> (TypeID \<times> TypeID set) list \<Rightarrow> TypeID set \<Rightarrow> error + (TypeID \<times> TypeID set) list" where
  "satisfy_loop s func_map current_types =
     (case satisfy_pass s func_map current_types of
        Inl e \<Rightarrow> Inl e
      | Inr (rest, current_types, is_change) \<Rightarrow>
          if is_change then satisfy_loop s rest current_types else Inr rest)"
  by pat_completeness auto
termination
  by (relation "measure (\<lambda>(_, fm, _). length fm)") (auto dest: satisfy_pass_shrinks)

declare satisfy_loop.simps [simp del]

fun function_graph :: "'z type_system_scheme \<Rightarrow> TypeID list \<Rightarrow> error + (TypeID \<times> TypeID set) list" where
  "function_graph s [] = Inr []"
| "function_graph s (f # fs) =
     (case GetFunctionType s f of
        None \<Rightarrow> Inl Null_dereference
      | Some func \<Rightarrow>
          (case function_graph s fs of Inl e \<Rightarrow> Inl e | Inr fm \<Rightarrow> Inr ((f, set (ft_args func)) # fm)))"

definition calc_satisfiable_functions :: "'z type_system_scheme \<Rightarrow> TypeID list \<Rightarrow> TypeID set \<Rightarrow> error + TypeID list" where
  "calc_satisfiable_functions s function_type_set available_types =
     (case function_graph s function_type_set of
        Inl e \<Rightarrow> Inl e
      | Inr func_map \<Rightarrow>
          (case satisfy_loop s func_map available_types of
             Inl e \<Rightarrow> Inl e
           | Inr left_over \<Rightarrow> Inr (filter (\<lambda>f. f \<notin> fst ` set left_over) function_type_set)))"

definition calc_possible_types_from_structure ::
  "configuration \<Rightarrow> TypeID \<Rightarrow> ('z expression_generator_scheme, TypeID set) M" where
  "calc_possible_types_from_structure c structure_type =
     bnd (gets (\<lambda>s. om_get (builtin_structure_type_cache s) structure_type)) (\<lambda>known.
     case known of
       Some res \<Rightarrow> return res
     | None \<Rightarrow>
         bnd (gets (\<lambda>s. get_all_types_from_compound_type c s structure_type {})) (\<lambda>r.
         bnd (lift_result r) (\<lambda>(res, _).
         bnd (gets (\<lambda>s. IsBuiltinType s structure_type)) (\<lambda>builtin.
         bnd (if builtin
              then modify (\<lambda>s. s\<lparr>builtin_structure_type_cache :=
                     om_put structure_type res (builtin_structure_type_cache s)\<rparr>)
              else return ()) (\<lambda>_. return res)))))"

text \<open>\<open>res[type][idx].insert(\<dots>)\<close>, the entry created when it is missing.\<close>

definition add_handler ::
  "TypeID \<Rightarrow> (handler_types \<Rightarrow> handler_types) \<Rightarrow> (TypeID, handler_types) omap \<Rightarrow> (TypeID, handler_types) omap" where
  "add_handler t f res = om_put t (f (om_at no_handlers res t)) res"

definition satisfy_simple ::
  "TypeID \<times> string list \<Rightarrow> (TypeID, handler_types) omap \<times> TypeID set \<Rightarrow> (TypeID, handler_types) omap \<times> TypeID set" where
  "satisfy_simple = (\<lambda>(type, _) (res, current_types).
     (add_handler type (\<lambda>h. h\<lparr>simple_var_idx := insert type (simple_var_idx h)\<rparr>) res, insert type current_types))"

definition satisfy_compound ::
  "configuration \<Rightarrow> TypeID \<times> string list \<Rightarrow> (TypeID, handler_types) omap \<times> TypeID set
     \<Rightarrow> ('z expression_generator_scheme, (TypeID, handler_types) omap \<times> TypeID set) M" where
  "satisfy_compound c = (\<lambda>(type, _) (res, current_types).
     let by_structure = (\<lambda>h. h\<lparr>structure_idx := insert type (structure_idx h)\<rparr>) in
     bnd (calc_possible_types_from_structure c type) (\<lambda>member_types.
     return (fold (\<lambda>m. add_handler m by_structure) (sorted_list_of_set member_types) (add_handler type by_structure res),
             current_types \<union> member_types)))"

definition satisfy_function ::
  "TypeID \<Rightarrow> (TypeID, handler_types) omap \<Rightarrow> ('z expression_generator_scheme, (TypeID, handler_types) omap) M" where
  "satisfy_function type res =
     bnd (gets (\<lambda>s. GetFunctionType s type)) (\<lambda>func.
     case func of
       None \<Rightarrow> throw Null_dereference
     | Some func \<Rightarrow>
         return (add_handler (ft_return func) (\<lambda>h. h\<lparr>function_call_idx := insert type (function_call_idx h)\<rparr>) res))"

definition collect_satisfiable_types ::
  "configuration \<Rightarrow> var_maps \<Rightarrow> ('z expression_generator_scheme, (TypeID, handler_types) omap) M" where
  "collect_satisfiable_types c vm =
     bnd (foldM (satisfy_compound c) (vm_compound vm) (fold satisfy_simple (vm_simple vm) ([], {}))) (\<lambda>(res, current_types).
     bnd (gets (\<lambda>s. calc_satisfiable_functions s (map fst (vm_function vm)) current_types)) (\<lambda>r.
     bnd (lift_result r) (\<lambda>satisfiable_functions.
     foldM satisfy_function satisfiable_functions res)))"

section \<open>Members and calls\<close>

definition function_call_gen_handler ::
  "(TypeID \<Rightarrow> ('z expression_generator_scheme, string) M) \<Rightarrow> (TypeID, string list) omap
     \<Rightarrow> ('z expression_generator_scheme, string) M" where
  "function_call_gen_handler gen function_map =
     bnd (require Assert_failed (function_map \<noteq> [])) (\<lambda>_.
     bnd (random_pick function_map) (\<lambda>pick_func.
     bnd (gets (\<lambda>s. GetFunctionType s (fst pick_func))) (\<lambda>choice_ptr.
     case choice_ptr of
       None \<Rightarrow> throw Assert_failed
     | Some func \<Rightarrow>
         bnd (modify (\<lambda>s. s\<lparr>function_gen_counter := function_gen_counter s + length (ft_args func)\<rparr>)) (\<lambda>_.
         bnd (foldM (\<lambda>k res. bnd (gen k) (\<lambda>arg. return (res @ arg @ '',''))) (ft_args func)
                (vt_name (vt_info func) @ ''('')) (\<lambda>res.
         return (if last res = CHR '','' then butlast res @ '')'' else res @ '')''))))))"

text \<open>The search through a compound type: solutions that are members and functions that return the
  target. \<open>visit\<close> is passed by reference.\<close>

definition member_solution ::
  "TypeID \<Rightarrow> TypeID \<times> string list \<Rightarrow> string list \<Rightarrow> ('z runtime_scheme, string list) M" where
  "member_solution target = (\<lambda>(t, names) all_sol.
     if t = target then bnd (random_pick names) (\<lambda>n. return (all_sol @ [member_str @ n])) else return all_sol)"

definition deeper_solution ::
  "(TypeID \<Rightarrow> TypeID set \<Rightarrow> ('z type_system_scheme, string \<times> TypeID set) M) \<Rightarrow> TypeID \<Rightarrow> TypeID \<times> string list
     \<Rightarrow> string list \<times> VarType list \<times> TypeID set \<Rightarrow> ('z type_system_scheme, string list \<times> VarType list \<times> TypeID set) M" where
  "deeper_solution search target = (\<lambda>(t, names) (all_sol, func_sol, visit).
     bnd (gets (\<lambda>s. IsCompoundType s t)) (\<lambda>compound.
     bnd (gets (\<lambda>s. if IsFunctionType s t then GetFunctionType s t else None)) (\<lambda>pfunc.
     if compound then
       (if t \<in> visit then return (all_sol, func_sol, visit)
        else bnd (search t visit) (\<lambda>(tmp_res, visit).
             if tmp_res \<noteq> []
             then bnd (random_pick names) (\<lambda>n. return (all_sol @ [member_str @ n @ tmp_res], func_sol, visit))
             else return (all_sol, func_sol, visit)))
     else
       (case pfunc of
          None \<Rightarrow> return (all_sol, func_sol, visit)
        | Some func \<Rightarrow>
            if t = target
            then bnd (random_pick names) (\<lambda>n. return (all_sol @ [member_str @ n], func_sol, visit))
            else if ft_return func \<noteq> target then return (all_sol, func_sol, visit)
            else return (all_sol, func_sol @ [func], visit)))))"

definition call_member ::
  "(TypeID \<Rightarrow> ('z expression_generator_scheme, string) M) \<Rightarrow> VarType list \<Rightarrow> ('z expression_generator_scheme, string) M" where
  "call_member gen func_sol =
     bnd (random_pick func_sol) (\<lambda>pfunc.
     bnd (function_call_gen_handler gen [(vt_id (vt_info pfunc), [vt_name (vt_info pfunc)])]) (\<lambda>call.
     return (member_str @ call)))"

definition pick_solution ::
  "(TypeID \<Rightarrow> ('z expression_generator_scheme, string) M) \<Rightarrow> string list \<Rightarrow> VarType list
     \<Rightarrow> ('z expression_generator_scheme, string) M" where
  "pick_solution gen all_sol func_sol =
     (if all_sol \<noteq> [] \<and> func_sol = [] then random_pick all_sol
      else if all_sol = [] \<and> func_sol \<noteq> [] then call_member gen func_sol
      else if all_sol \<noteq> [] \<and> func_sol \<noteq> [] then
        bnd (get_rand_int 2) (\<lambda>r. if r \<noteq> 0 then call_member gen func_sol else random_pick all_sol)
      else return [])"

primrec get_class_member_by_type_no_duplicate ::
  "nat \<Rightarrow> (TypeID \<Rightarrow> ('z expression_generator_scheme, string) M) \<Rightarrow> TypeID \<Rightarrow> TypeID \<Rightarrow> TypeID set
     \<Rightarrow> ('z expression_generator_scheme, string \<times> TypeID set) M" where
  "get_class_member_by_type_no_duplicate 0 gen target_type type visit = throw Out_of_fuel"
| "get_class_member_by_type_no_duplicate (Suc n) gen target_type type visit =
     bnd (gets (\<lambda>s. GetCompoundType s type)) (\<lambda>type_ptr.
     case type_ptr of
       None \<Rightarrow> throw Null_dereference
     | Some compound \<Rightarrow>
         bnd (foldM (member_solution target_type) (ct_members compound) []) (\<lambda>all_sol.
         bnd (foldM (deeper_solution (get_class_member_by_type_no_duplicate n gen target_type) target_type)
                (ct_members compound) (all_sol, [], insert type visit)) (\<lambda>(all_sol, func_sol, visit).
         bnd (pick_solution gen all_sol func_sol) (\<lambda>res. return (res, visit)))))"

definition get_class_member_by_type ::
  "(TypeID \<Rightarrow> ('z expression_generator_scheme, string) M) \<Rightarrow> TypeID \<Rightarrow> TypeID \<Rightarrow> ('z expression_generator_scheme, string) M" where
  "get_class_member_by_type gen type target_type =
     bnd (gets num_compound_types) (\<lambda>n.
     bnd (get_class_member_by_type_no_duplicate (Suc n) gen target_type type {}) (\<lambda>r. return (fst r)))"

definition structure_member_gen_handler ::
  "configuration \<Rightarrow> (TypeID \<Rightarrow> ('z expression_generator_scheme, string) M) \<Rightarrow> (TypeID, string list) omap \<Rightarrow> TypeID
     \<Rightarrow> ('z expression_generator_scheme, string) M" where
  "structure_member_gen_handler c gen compound_var_map member_type =
     bnd (random_pick compound_var_map) (\<lambda>(compound_type, names).
     bnd (require Assert_failed (names \<noteq> [])) (\<lambda>_.
     bnd (random_pick names) (\<lambda>compound_var.
     bnd (get_class_member_by_type gen compound_type member_type) (\<lambda>res.
     if res = [] then
       bnd (require Assert_failed (member_type = compound_type)) (\<lambda>_.
       bnd (gets (\<lambda>s. IsBuiltinType s compound_type)) (\<lambda>builtin.
       if IsWeakType c \<and> builtin then
         bnd (get_rand_int 4) (\<lambda>r.
         bnd (gets (\<lambda>s. GetTypePtrByID s compound_type)) (\<lambda>compound_ptr.
         case compound_ptr of
           None \<Rightarrow> return compound_var
         | Some v \<Rightarrow> return (if r \<noteq> 0 \<and> compound_var = vt_name (vt_info v)
                             then ''(new '' @ vt_name (vt_info v) @ ''())'' else compound_var)))
       else return compound_var))
     else return (compound_var @ res)))))"

text \<open>\<open>break\<close> leaves the loop at the first pointer type without variables.\<close>

fun update_pointer_var ::
  "'z type_system_scheme \<Rightarrow> (TypeID, string list) omap \<Rightarrow> (TypeID, string list) omap \<Rightarrow> (TypeID, string list) omap
     \<Rightarrow> error + ((TypeID, string list) omap \<times> (TypeID, string list) omap)" where
  "update_pointer_var s [] simple compound = Inr (simple, compound)"
| "update_pointer_var s ((pointer_id, names) # pointers) simple compound =
     (if names = [] then Inr (simple, compound)
      else (case GetPointerType s pointer_id of
              None \<Rightarrow> Inl Null_dereference
            | Some p \<Rightarrow>
                let push_all = fold (\<lambda>n. om_push (pt_basic p) (replicate (pt_level p) (CHR ''*'') @ n)) names in
                if IsBasicType s (pt_basic p) then update_pointer_var s pointers (push_all simple) compound
                else if IsCompoundType s (pt_basic p) then update_pointer_var s pointers simple (push_all compound)
                else update_pointer_var s pointers simple compound))"

section \<open>The generator\<close>

text \<open>The maps are refreshed by the first call of a generator that sees a new scope.\<close>

definition refresh_maps :: "configuration \<Rightarrow> IR \<Rightarrow> ('z expression_generator_scheme, unit) M" where
  "refresh_maps c ir =
     bnd (require Null_dereference (ir \<noteq> NullIR)) (\<lambda>_.
     bnd (gets (\<lambda>s. scast (current_fix_scope s) \<noteq> ir_scope_id (ir_info ir))) (\<lambda>other_scope.
     if other_scope then
       bnd (modify (\<lambda>s. s\<lparr>current_fix_scope := ucast (ir_scope_id (ir_info ir)), static_var_maps := None,
                         all_satisfiable_types := []\<rparr>)) (\<lambda>_.
       bnd (collect_all_var_definition_by_type ir) (\<lambda>vm.
       bnd (modify (\<lambda>s. s\<lparr>static_var_maps := Some vm\<rparr>)) (\<lambda>_.
       bnd (collect_satisfiable_types c vm) (\<lambda>sat.
       modify (\<lambda>s. s\<lparr>all_satisfiable_types := sat\<rparr>)))))
     else return ()))"

text \<open>\<open>kAllTypes\<close> stands for a random type that can be made; of a function mostly its result.\<close>

definition choose_type :: "TypeID \<Rightarrow> ('z expression_generator_scheme, TypeID) M" where
  "choose_type type =
     bnd (gets all_satisfiable_types) (\<lambda>sat.
     if type = kAllTypes \<and> sat \<noteq> [] then
       bnd (random_pick sat) (\<lambda>(t, _).
       bnd (gets (\<lambda>s. IsFunctionType s t)) (\<lambda>is_function.
       if is_function then
         bnd (get_rand_int 3) (\<lambda>r.
         bnd (gets (\<lambda>s. GetFunctionType s t)) (\<lambda>func.
         if r \<noteq> 0 then (case func of None \<Rightarrow> throw Null_dereference | Some f \<Rightarrow> return (ft_return f))
         else return t))
       else return t))
     else return type)"

text \<open>
  The weights of the four kinds of expression: operator expression, call, member, variable. The
  sizes are \<open>unsigned long\<close>; they count types in scope, so no shift loses a bit. The one shift to
  the right by a variable amount is undefined in C++ from 64 on (256 arguments generated), where
  the model gives 0.
\<close>

definition weights :: "bool \<Rightarrow> nat \<Rightarrow> nat \<Rightarrow> nat \<Rightarrow> nat \<Rightarrow> nat \<Rightarrow> nat \<times> nat \<times> nat \<times> nat" where
  "weights no_operands gc fgc function_size compound_var_size simple_var_size =
     (let expression_size = (function_size + compound_var_size + simple_var_size) div 2;
          expression_size = (if expression_size = 0 then 1 else expression_size);
          expression_size = (if no_operands then 0 else expression_size);
          expression_size = expression_size * 2 ^ 1;
          function_size = function_size * 2 ^ 3;
          compound_var_size = compound_var_size * 2 ^ 3;
          simple_var_size = simple_var_size * 2 ^ 6;
          expression_size = (if 3 < gc then expression_size div 2 ^ 2 else expression_size);
          simple_var_size = (if 15 < gc then simple_var_size * 2 ^ 16 else simple_var_size);
          expression_size = (if 15 < gc then 0 else expression_size);
          function_size = (if 2 < fgc then function_size div 2 ^ (fgc div 2 ^ 2) else function_size)
      in (expression_size, function_size, compound_var_size, simple_var_size))"

definition make_choice ::
  "configuration \<Rightarrow> (TypeID \<Rightarrow> ('z expression_generator_scheme, string) M) \<Rightarrow> TypeID \<Rightarrow> nat \<times> nat \<times> nat \<times> nat
     \<Rightarrow> (TypeID, string list) omap \<Rightarrow> (TypeID, string list) omap \<Rightarrow> (TypeID, string list) omap
     \<Rightarrow> ('z expression_generator_scheme, string) M" where
  "make_choice c gen type = (\<lambda>(expression_size, function_size, compound_var_size, simple_var_size)
       simple_var_map compound_var_map function_map.
     let total_size = simple_var_size + function_size + compound_var_size in
     if total_size = 0 then gen_random_num_string
     else
       bnd (get_rand_int total_size) (\<lambda>choice.
       if choice < expression_size then throw Assert_failed
       else
         let choice = choice - expression_size in
         if choice < function_size then function_call_gen_handler gen function_map
         else
           let choice = choice - function_size in
           if choice < compound_var_size then structure_member_gen_handler c gen compound_var_map type
           else
             bnd (require Assert_failed (om_at [] simple_var_map type \<noteq> [])) (\<lambda>_.
             random_pick (om_at [] simple_var_map type))))"

definition generate_of_type ::
  "configuration \<Rightarrow> (TypeID \<Rightarrow> ('z expression_generator_scheme, string) M) \<Rightarrow> TypeID
     \<Rightarrow> (TypeID, string list) omap \<Rightarrow> (TypeID, string list) omap \<Rightarrow> (TypeID, string list) omap
     \<Rightarrow> ('z expression_generator_scheme, string) M" where
  "generate_of_type c gen type simple_var_map compound_var_map function_map =
     bnd (gets (\<lambda>s. om_get (all_satisfiable_types s) type)) (\<lambda>handlers.
     case handlers of
       None \<Rightarrow> gen_random_num_string
     | Some h \<Rightarrow>
         let simple_var_map = filter_element simple_var_map (simple_var_idx h);
             compound_var_map = filter_element compound_var_map (structure_idx h);
             function_map = filter_element function_map (function_call_idx h) in
         if length function_map + length compound_var_map + length simple_var_map = 0 then gen_random_num_string
         else
           bnd (gets (\<lambda>s. weights (IsFunctionType s type \<or> IsCompoundType s type) (gen_counter s) (function_gen_counter s)
                  (length function_map) (length compound_var_map) (length simple_var_map))) (\<lambda>prob.
           make_choice c gen type prob simple_var_map compound_var_map function_map))"

definition generate_step ::
  "configuration \<Rightarrow> (TypeID \<Rightarrow> ('z expression_generator_scheme, string) M) \<Rightarrow> TypeID \<Rightarrow> IR
     \<Rightarrow> ('z expression_generator_scheme, string) M" where
  "generate_step c gen type ir =
     bnd (gets (\<lambda>s. gen_counter s = 0)) (\<lambda>first.
     bnd (if first then refresh_maps c ir else return ()) (\<lambda>_.
     bnd (gets (\<lambda>s. 50 < gen_counter s)) (\<lambda>enough.
     if enough then gen_random_num_string
     else
       bnd (modify (\<lambda>s. s\<lparr>gen_counter := gen_counter s + 1\<rparr>)) (\<lambda>_.
       bnd (gets static_var_maps) (\<lambda>maps.
       case maps of
         None \<Rightarrow> throw Index_out_of_range
       | Some vm \<Rightarrow>
           bnd (if IsWeakType c then return (vm_simple vm, vm_compound vm)
                else bnd (gets (\<lambda>s. update_pointer_var s (vm_pointer vm) (vm_simple vm) (vm_compound vm))) lift_result)
             (\<lambda>(simple_var_map, compound_var_map).
           bnd (choose_type type) (\<lambda>type.
           generate_of_type c gen type simple_var_map compound_var_map (vm_function vm))))))))"

primrec generate_expression_by_type_core ::
  "nat \<Rightarrow> configuration \<Rightarrow> IR \<Rightarrow> TypeID \<Rightarrow> ('z expression_generator_scheme, string) M" where
  "generate_expression_by_type_core 0 c ir type = throw Out_of_fuel"
| "generate_expression_by_type_core (Suc n) c ir type =
     generate_step c (generate_expression_by_type_core n c ir) type ir"

definition new_ExpressionGenerator :: "('z expression_generator_scheme, unit) M" where
  "new_ExpressionGenerator =
     modify (\<lambda>s. s\<lparr>gen_counter := 0, function_gen_counter := 0, current_fix_scope := - 1\<rparr>)"

definition generate_expression_by_type :: "configuration \<Rightarrow> TypeID \<Rightarrow> IR \<Rightarrow> ('z expression_generator_scheme, string) M" where
  "generate_expression_by_type c type ir =
     bnd (modify (\<lambda>s. s\<lparr>gen_counter := 0, function_gen_counter := 0\<rparr>)) (\<lambda>_.
     bnd (generate_expression_by_type_core 52 c ir type) (\<lambda>res.
     bnd (require Assert_failed (res \<noteq> [])) (\<lambda>_. return res)))"

definition GenerateExpression :: "configuration \<Rightarrow> IR \<Rightarrow> TypeID \<Rightarrow> ('z expression_generator_scheme, string) M" where
  "GenerateExpression c ir type = generate_expression_by_type c type ir"

section \<open>The functions that can be called\<close>

text \<open>
  The specification: a type is available when it is in scope or the result of a function in scope
  whose argument types are available.
\<close>

inductive available :: "'z type_system_scheme \<Rightarrow> TypeID set \<Rightarrow> TypeID set \<Rightarrow> TypeID \<Rightarrow> bool"
  for s :: "'z type_system_scheme" and funs types :: "TypeID set" where
  in_scope: "t \<in> types \<Longrightarrow> available s funs types t"
| by_call: "f \<in> funs \<Longrightarrow> GetFunctionType s f = Some func \<Longrightarrow>
    (\<And>a. a \<in> set (ft_args func) \<Longrightarrow> available s funs types a) \<Longrightarrow> available s funs types (ft_return func)"

definition callable :: "'z type_system_scheme \<Rightarrow> TypeID set \<Rightarrow> TypeID set \<Rightarrow> TypeID \<Rightarrow> bool" where
  "callable s funs types f \<longleftrightarrow>
     (\<exists>func. GetFunctionType s f = Some func \<and> (\<forall>a\<in>set (ft_args func). available s funs types a))"

text \<open>The invariant of the passes over a graph \<open>fm\<close> of what is left.\<close>

definition graph_of :: "'z type_system_scheme \<Rightarrow> (TypeID \<times> TypeID set) list \<Rightarrow> bool" where
  "graph_of s fm \<longleftrightarrow> (\<forall>(f, args)\<in>set fm. \<exists>func. GetFunctionType s f = Some func \<and> args = set (ft_args func))"

definition returns_in :: "'z type_system_scheme \<Rightarrow> TypeID set \<Rightarrow> TypeID set \<Rightarrow> bool" where
  "returns_in s fs cur \<longleftrightarrow> (\<forall>f\<in>fs. \<forall>func. GetFunctionType s f = Some func \<longrightarrow> ft_return func \<in> cur)"

definition passed ::
  "TypeID set \<Rightarrow> TypeID set \<Rightarrow> 'z type_system_scheme \<Rightarrow> (TypeID \<times> TypeID set) list \<Rightarrow> TypeID set
     \<Rightarrow> (TypeID \<times> TypeID set) list \<Rightarrow> TypeID set \<Rightarrow> bool \<Rightarrow> bool" where
  "passed F T s fm cur rest cur' ch \<longleftrightarrow> set rest \<subseteq> set fm \<and> cur \<subseteq> cur' \<and>
     returns_in s (fst ` (set fm - set rest)) cur' \<and> (\<forall>t\<in>cur'. available s F T t) \<and>
     (\<forall>f\<in>fst ` (set fm - set rest). callable s F T f) \<and> (\<not> ch \<longrightarrow> (\<forall>fa\<in>set fm. \<not> snd fa \<subseteq> cur))"

lemma passed_Cons:
  assumes "passed F T s fm cur1 rest cur' ch" and "cur \<subseteq> cur1" and "set rest' \<subseteq> insert fa (set rest)" and "set rest \<subseteq> set rest'"
    and "fa \<notin> set rest' \<Longrightarrow> returns_in s {fst fa} cur' \<and> callable s F T (fst fa)"
    and "\<not> ch' \<Longrightarrow> \<not> ch \<and> \<not> snd fa \<subseteq> cur"
  shows "passed F T s (fa # fm) cur rest' cur' ch'"
proof -
  have old: "\<forall>x\<in>set fm - set rest. returns_in s {fst x} cur' \<and> callable s F T (fst x)"
    using assms(1) by (simp add: passed_def returns_in_def)
  have "\<forall>x\<in>set (fa # fm) - set rest'. returns_in s {fst x} cur' \<and> callable s F T (fst x)"
  proof
    fix x
    assume "x \<in> set (fa # fm) - set rest'"
    then consider "x = fa" "fa \<notin> set rest'" | "x \<in> set fm - set rest" using assms(4) by auto
    then show "returns_in s {fst x} cur' \<and> callable s F T (fst x)" by cases (use assms(5) old in blast)+
  qed
  then have "returns_in s (fst ` (set (fa # fm) - set rest')) cur'" "\<forall>f\<in>fst ` (set (fa # fm) - set rest'). callable s F T f"
    unfolding returns_in_def by blast+
  moreover have "set rest' \<subseteq> set (fa # fm)" "cur \<subseteq> cur'" "\<forall>t\<in>cur'. available s F T t"
    using assms(1-3) by (auto simp: passed_def)
  moreover have "\<not> ch' \<longrightarrow> (\<forall>fa\<in>set (fa # fm). \<not> snd fa \<subseteq> cur)"
  proof (intro impI ballI)
    fix x
    assume "\<not> ch'" and "x \<in> set (fa # fm)"
    then show "\<not> snd x \<subseteq> cur" using assms(1,2,6) unfolding passed_def set_simps by blast
  qed
  ultimately show ?thesis by (simp only: passed_def)
qed

lemma satisfy_pass_spec:
  assumes "graph_of s fm" and "fst ` set fm \<subseteq> F" and "\<forall>t\<in>cur. available s F T t"
  shows "\<exists>rest cur' ch. satisfy_pass s fm cur = Inr (rest, cur', ch) \<and> passed F T s fm cur rest cur' ch"
  using assms
proof (induction fm arbitrary: cur)
  case Nil
  then show ?case by (auto simp: passed_def returns_in_def)
next
  case (Cons fa fm)
  obtain f args where fa: "fa = (f, args)" by (cases fa)
  obtain func where func: "GetFunctionType s f = Some func" "args = set (ft_args func)"
    using Cons.prems(1) fa by (auto simp: graph_of_def)
  have g: "graph_of s fm" "fst ` set fm \<subseteq> F" "f \<in> F" using Cons.prems(1,2) fa by (simp_all add: graph_of_def)
  show ?case
  proof (cases "args \<subseteq> cur")
    case True
    then have args: "\<forall>a\<in>set (ft_args func). available s F T a" using Cons.prems(3) func(2) by blast
    then have "available s F T (ft_return func)" using by_call [OF g(3) func(1)] by blast
    then have "\<forall>t\<in>insert (ft_return func) cur. available s F T t" using Cons.prems(3) by simp
    from Cons.IH [OF g(1,2) this] obtain rest cur' ch
      where IH: "satisfy_pass s fm (insert (ft_return func) cur) = Inr (rest, cur', ch)"
        "passed F T s fm (insert (ft_return func) cur) rest cur' ch" by auto
    have "satisfy_pass s (fa # fm) cur = Inr (rest, cur', True)" using fa func True IH(1) by simp
    moreover have "returns_in s {f} cur'" using IH(2) func(1) by (auto simp: passed_def returns_in_def)
    then have "passed F T s (fa # fm) cur rest cur' True"
      by (intro passed_Cons [OF IH(2)]) (use args func(1) fa in \<open>auto simp: callable_def\<close>)
    ultimately show ?thesis by blast
  next
    case False
    from Cons.IH [OF g(1,2) Cons.prems(3)] obtain rest cur' ch
      where IH: "satisfy_pass s fm cur = Inr (rest, cur', ch)" "passed F T s fm cur rest cur' ch" by auto
    have "satisfy_pass s (fa # fm) cur = Inr (fa # rest, cur', ch)" using fa func False IH(1) by simp
    moreover have "passed F T s (fa # fm) cur (fa # rest) cur' ch"
      by (intro passed_Cons [OF IH(2)]) (use False fa in auto)
    ultimately show ?thesis by blast
  qed
qed

lemma satisfy_loop_spec:
  assumes "graph_of s fm" and "fst ` set fm \<subseteq> F" and "T \<subseteq> cur" and "\<forall>t\<in>cur. available s F T t"
    and "returns_in s (F - fst ` set fm) cur" and "\<forall>f\<in>F - fst ` set fm. callable s F T f"
  shows "\<exists>left. satisfy_loop s fm cur = Inr left \<and> (\<forall>f\<in>F. f \<notin> fst ` set left \<longleftrightarrow> callable s F T f)"
  using assms
proof (induction s fm cur rule: satisfy_loop.induct)
  case (1 s fm cur)
  obtain rest cur' ch where P1: "satisfy_pass s fm cur = Inr (rest, cur', ch)" "passed F T s fm cur rest cur' ch"
    using satisfy_pass_spec [OF "1.prems"(1,2,4)] by auto
  then have P: "set rest \<subseteq> set fm" "cur \<subseteq> cur'" "returns_in s (fst ` (set fm - set rest)) cur'"
      "\<forall>t\<in>cur'. available s F T t" "\<forall>f\<in>fst ` (set fm - set rest). callable s F T f"
      "\<not> ch \<Longrightarrow> \<forall>fa\<in>set fm. \<not> snd fa \<subseteq> cur"
    by (simp_all add: passed_def)
  show ?case
  proof (cases ch)
    case True
    have out: "F - fst ` set rest \<subseteq> (F - fst ` set fm) \<union> fst ` (set fm - set rest)" by auto
    have "graph_of s rest" using "1.prems"(1) P(1) by (auto simp: graph_of_def)
    moreover have "fst ` set rest \<subseteq> F" using "1.prems"(2) P(1) by blast
    moreover have "returns_in s (F - fst ` set rest) cur'"
      using "1.prems"(5) P(2,3) out unfolding returns_in_def by blast
    moreover have "\<forall>f\<in>F - fst ` set rest. callable s F T f" using "1.prems"(6) P(5) out by blast
    ultimately show ?thesis
      using "1.IH" [OF P1(1) refl refl True] "1.prems"(3) P1(1) P(2,4) True
      by (simp add: satisfy_loop.simps [of s fm cur] subset_trans)
  next
    case False
    have left: "satisfy_loop s fm cur = Inr fm"
      using False P1(1) satisfy_pass_shrinks [OF P1(1)] by (simp add: satisfy_loop.simps [of s fm cur])
    have av: "t \<in> cur" if "available s F T t" for t
      using that
    proof (induction rule: available.induct)
      case (in_scope t)
      then show ?case using "1.prems"(3) by blast
    next
      case (by_call f func)
      have "f \<notin> fst ` set fm"
      proof
        assume "f \<in> fst ` set fm"
        then have "(f, set (ft_args func)) \<in> set fm" using "1.prems"(1) by_call(2) by (force simp: graph_of_def)
        then show False using P(6) [OF False] by_call(4) by fastforce
      qed
      then show ?case using "1.prems"(5) by_call(1,2) by (simp add: returns_in_def)
    qed
    have "\<not> callable s F T f" if f: "f \<in> fst ` set fm" for f
    proof
      assume "callable s F T f"
      then obtain func where "GetFunctionType s f = Some func" "\<forall>a\<in>set (ft_args func). a \<in> cur"
        using av by (auto simp: callable_def)
      moreover from this have "(f, set (ft_args func)) \<in> set fm"
        using f "1.prems"(1) by (force simp: graph_of_def)
      ultimately show False using P(6) [OF False] by fastforce
    qed
    then show ?thesis using left "1.prems"(6) by blast
  qed
qed

lemma function_graph_spec:
  "\<forall>f\<in>set fs. GetFunctionType s f \<noteq> None \<Longrightarrow>
     \<exists>fm. function_graph s fs = Inr fm \<and> graph_of s fm \<and> fst ` set fm = set fs"
  by (induction fs) (auto simp: graph_of_def)

lemma calc_satisfiable_functions_spec_aux:
  assumes "\<forall>f\<in>set fs. GetFunctionType s f \<noteq> None"
  shows "calc_satisfiable_functions s fs T = Inr (filter (callable s (set fs) T) fs)"
proof -
  obtain fm where fm: "function_graph s fs = Inr fm" "graph_of s fm" "fst ` set fm = set fs"
    using function_graph_spec [OF assms] by blast
  obtain left where left: "satisfy_loop s fm T = Inr left"
      "\<forall>f\<in>set fs. f \<notin> fst ` set left \<longleftrightarrow> callable s (set fs) T f"
    using satisfy_loop_spec [OF fm(2), of "set fs" T T] fm(3) by (auto simp: returns_in_def in_scope)
  have "filter (\<lambda>f. f \<notin> fst ` set left) fs = filter (callable s (set fs) T) fs"
    using left(2) by (intro filter_cong) auto
  then show ?thesis by (simp add: calc_satisfiable_functions_def fm(1) left(1))
qed

text \<open>C16: of a set of functions, those that can be called are the ones whose argument types are
  available, in the least set of types that contains the types in scope and the results of
  callable functions: recursive functions do not make their own arguments, chains of functions
  are found in any order.\<close>

theorem calc_satisfiable_functions_spec:
  assumes "\<forall>f\<in>set fs. GetFunctionType s f \<noteq> None"
  shows "calc_satisfiable_functions s fs T = Inr (filter (callable s (set fs) T) fs)"
  using assms by (rule calc_satisfiable_functions_spec_aux)


section \<open>Witnesses\<close>

text \<open>Two functions, of which the second needs a type nothing makes.\<close>

definition demo_functions :: type_system where
  "demo_functions = demo_types\<lparr>function_types :=
     [(20, FunctionType \<lparr>vt_id = 20, vt_name = ''f'', vt_bases = [kAllFunction], vt_derived = []\<rparr> 21 [10] [''a'']),
      (22, FunctionType \<lparr>vt_id = 22, vt_name = ''g'', vt_bases = [kAllFunction], vt_derived = []\<rparr> 23 [21, 24] [''a'', ''b''])]\<rparr>"

lemma calc_satisfiable_functions_spec_witness:
  "calc_satisfiable_functions demo_functions [20, 22] {10} = Inr (filter (callable demo_functions {20, 22} {10}) [20, 22])"
proof -
  have "\<forall>f\<in>set [20, 22]. GetFunctionType demo_functions f \<noteq> None"
    by (simp add: demo_functions_def GetFunctionType_def has_key_def)
  from calc_satisfiable_functions_spec [OF this, of "{10}"] show ?thesis by simp
qed

end
