(* ===== verification/Variables_In_Scope.thy ===== *)
theory Variables_In_Scope
  imports Expression_Generator
begin

text \<open>
  The names an expression may use: what \<open>collect_all_var_definition_by_type\<close> of
  \<open>srcs/internal/srcs/typesystem.cpp\<close> puts into the maps, against what is in scope at a place. A name
  is in scope if a scope on the chain from the place outwards defines it in an earlier statement.
\<close>

section \<open>The maps of a scope\<close>

lemma add_builtins_Nil: "add_builtins n [] m s = Inr (m, s)"
  by (simp add: add_builtins_def bnd_def m_eval)

definition vars_in_scope :: "'z scope_tree_scheme \<Rightarrow> IR \<Rightarrow> var_maps" where
  "vars_in_scope s ir = fold (\<lambda>sc. fold (collect_entry s (ir_statement_id (ir_info ir))) (sc_table sc))
     (scope_chain (length (scope_id_map s)) s (ir_scope_id (ir_info ir)))
     \<lparr>vm_simple = [], vm_compound = [], vm_function = [], vm_pointer = []\<rparr>"

lemma collect_all_apply: "collect_all_var_definition_by_type ir s = Inr (vars_in_scope s ir, s)"
  by (simp add: collect_all_var_definition_by_type_def vars_in_scope_def bnd_def m_eval add_builtins_Nil
      GetBuiltinFunctionTypes_def GetBuiltinCompoundTypes_def GetBuiltinSimpleVarTypes_def)

text \<open>A type object's kind decides its table.\<close>

lemma two_tables:
  assumes "distinct (map fst (xs @ ys))" and "(t, v) \<in> set xs \<union> set ys"
  shows "(if has_key ys t then map_of ys t else if has_key xs t then map_of xs t else None) = Some v"
proof (cases "(t, v) \<in> set ys")
  case True
  then show ?thesis using assms(1) by (simp add: has_key_def)
next
  case False
  then have "(t, v) \<in> set xs" using assms(2) by blast
  moreover from this have "t \<notin> fst ` set ys" using assms(1) by force
  ultimately show ?thesis using assms(1) by (simp add: has_key_def map_of_eq_None_iff [symmetric])
qed

lemma kind_lookup:
  assumes "types_wf s" and "GetTypePtrByID s t = Some v"
  shows "is_function_type v \<Longrightarrow> GetFunctionType s t = Some v" and "is_compound_type v \<Longrightarrow> GetCompoundType s t = Some v"
proof -
  note K = types_wfD(5,6,7) [OF assms(1)]
  note D = types_wfD(2) [OF assms(1)]
  have v: "(t, v) \<in> set (all_entries s)"
    using assms(2) unfolding GetTypePtrByID_all by (rule map_of_SomeD)
  show "GetFunctionType s t = Some v" if "is_function_type v"
  proof -
    have "\<not> simple_kind v" "\<not> is_compound_type v" using that kind_cases [of v] by metis+
    then have "(t, v) \<in> set (s_builted_function_types s) \<union> set (function_types s)"
      using v K(1,2) [of t v] by (auto simp: all_entries_def)
    moreover have "distinct (map fst (s_builted_function_types s @ function_types s))"
      using D by (auto simp: all_entries_def)
    ultimately show ?thesis unfolding GetFunctionType_def by (intro two_tables)
  qed
  show "GetCompoundType s t = Some v" if "is_compound_type v"
  proof -
    have "\<not> simple_kind v" "\<not> is_function_type v" using that kind_cases [of v] by metis+
    then have "(t, v) \<in> set (s_builted_compound_types s) \<union> set (compound_types s)"
      using v K(1,3) [of t v] by (auto simp: all_entries_def)
    moreover have "distinct (map fst (s_builted_compound_types s @ compound_types s))"
      using D by (auto simp: all_entries_def)
    ultimately show ?thesis unfolding GetCompoundType_def by (intro two_tables)
  qed
qed

text \<open>The scopes that enclose a node, as the parent links say.\<close>

inductive encloses :: "'z scope_tree_scheme \<Rightarrow> ScopeID \<Rightarrow> scope \<Rightarrow> bool" for s :: "'z scope_tree_scheme" where
  own: "GetScopeById s sid = Some sc \<Longrightarrow> encloses s sid sc"
| outer: "GetScopeById s sid = Some sc0 \<Longrightarrow> sc_parent sc0 = Some p \<Longrightarrow> encloses s p sc \<Longrightarrow> encloses s sid sc"

definition below :: "'z scope_tree_scheme \<Rightarrow> ScopeID \<Rightarrow> ScopeID set" where
  "below s sid = {j \<in> scope_ids s. j \<le> sid}"

lemma below_card: "card (below s sid) \<le> length (scope_id_map s)"
proof -
  have "card (below s sid) \<le> card (fst ` set (scope_id_map s))"
    by (intro card_mono) (auto simp: below_def scope_ids_def)
  also have "\<dots> \<le> card (set (scope_id_map s))" by (rule card_image_le) simp
  also have "\<dots> \<le> length (scope_id_map s)" by (rule card_length)
  finally show ?thesis .
qed

lemma scope_chain_encloses:
  assumes "scopes_wf s" and "card (below s sid) \<le> n"
  shows "sc \<in> set (scope_chain n s sid) \<longleftrightarrow> encloses s sid sc"
  using assms(2)
proof (induction n arbitrary: sid)
  case 0
  have "finite (below s sid)" by (simp add: below_def scope_ids_def)
  then have "sid \<notin> below s sid" using 0 by auto
  then have "GetScopeById s sid = None" by (cases "GetScopeById s sid") (auto simp: below_def scope_ids_iff)
  then have "\<not> encloses s sid sc" by (auto elim: encloses.cases)
  then show ?case by simp
next
  case (Suc n)
  show ?case
  proof (cases "GetScopeById s sid")
    case None
    then show ?thesis by (auto elim: encloses.cases)
  next
    case (Some sc0)
    have IH: "sc \<in> set (scope_chain n s p) \<longleftrightarrow> encloses s p sc" if p: "sc_parent sc0 = Some p" for p
    proof (rule Suc.IH)
      have "p \<in> scope_ids s" "p < sid" using scopes_wfD(5) [OF assms(1) Some p] by auto
      then have "below s p \<subseteq> below s sid" "sid \<in> below s sid" "sid \<notin> below s p"
        using Some by (auto simp: below_def scope_ids_iff)
      then have "below s p \<subset> below s sid" by blast
      moreover have "finite (below s sid)" by (simp add: below_def scope_ids_def)
      ultimately have "card (below s p) < card (below s sid)" by (simp add: psubset_card_mono)
      then show "card (below s p) \<le> n" using Suc.prems by simp
    qed
    have "encloses s sid sc \<longleftrightarrow> sc = sc0 \<or> (\<exists>p. sc_parent sc0 = Some p \<and> encloses s p sc)"
      using Some by (auto intro: encloses.intros elim: encloses.cases)
    then show ?thesis using Some IH by (auto split: option.split)
  qed
qed

text \<open>What a map of names by type holds.\<close>

definition holds :: "(TypeID \<Rightarrow> string \<Rightarrow> bool) \<Rightarrow> (TypeID, string list) omap \<Rightarrow> bool" where
  "holds P m \<longleftrightarrow> om_sorted m \<and> (\<forall>x\<in>set m. snd x \<noteq> []) \<and> (\<forall>t n. n \<in> set (om_at [] m t) \<longleftrightarrow> P t n)"

lemma om_push_nonempty:
  fixes m :: "(TypeID, string list) omap"
  shows "(\<forall>x\<in>set m. snd x \<noteq> []) \<Longrightarrow> \<forall>x\<in>set (om_push t n m). snd x \<noteq> []"
proof -
  have put: "set (om_put k v m) \<subseteq> insert (k, v) (set m)" for k :: TypeID and v :: "string list" and m
    by (induction k v m rule: om_put.induct) auto
  show "(\<forall>x\<in>set m. snd x \<noteq> []) \<Longrightarrow> \<forall>x\<in>set (om_push t n m). snd x \<noteq> []"
    using put unfolding om_push_def by fastforce
qed

lemma holds_cong: "holds P m \<Longrightarrow> (\<And>t n. P t n \<longleftrightarrow> Q t n) \<Longrightarrow> holds Q m"
  by (simp add: holds_def)

lemma holds_push: "holds P m \<Longrightarrow> holds (\<lambda>t' n'. t' = t \<and> n' = n \<or> P t' n') (om_push t n m)"
  using om_push_nonempty [of m t n] by (auto simp: holds_def om_sorted_push om_at_push)

lemma holds_push_visible:
  "holds P m \<Longrightarrow> holds (\<lambda>t' n. P t' n \<or> t' = t \<and> (\<exists>d\<in>set defs. def_statement_id d < ir_id \<and> def_name d = n))
     (push_visible ir_id t defs m)"
proof (induction defs arbitrary: P m)
  case Nil
  then show ?case by (simp add: push_visible_def)
next
  case (Cons d defs)
  show ?case
  proof (cases "def_statement_id d < ir_id")
    case True
    then have eq: "push_visible ir_id t (d # defs) m = push_visible ir_id t defs (om_push t (def_name d) m)"
      by (simp add: push_visible_def)
    show ?thesis unfolding eq
      by (rule holds_cong [OF Cons.IH [OF holds_push [OF Cons.prems, of t "def_name d"]]]) (use True in auto)
  next
    case False
    then have eq: "push_visible ir_id t (d # defs) m = push_visible ir_id t defs m" by (simp add: push_visible_def)
    show ?thesis unfolding eq by (rule holds_cong [OF Cons.IH [OF Cons.prems]]) (use False in auto)
  qed
qed

definition of_kind :: "'z type_system_scheme \<Rightarrow> (VarType \<Rightarrow> bool) \<Rightarrow> TypeID \<Rightarrow> bool" where
  "of_kind s K t \<longleftrightarrow> (\<exists>v. GetTypePtrByID s t = Some v \<and> K v)"

definition is_variable_type :: "VarType \<Rightarrow> bool" where
  "is_variable_type v \<longleftrightarrow> \<not> is_function_type v \<and> \<not> is_compound_type v"

definition maps_hold :: "'z type_system_scheme \<Rightarrow> (TypeID \<Rightarrow> string \<Rightarrow> bool) \<Rightarrow> var_maps \<Rightarrow> bool" where
  "maps_hold s P vm \<longleftrightarrow>
     holds (\<lambda>t n. of_kind s is_variable_type t \<and> P t n) (vm_simple vm) \<and>
     holds (\<lambda>t n. of_kind s is_compound_type t \<and> P t n) (vm_compound vm) \<and>
     holds (\<lambda>t n. of_kind s is_function_type t \<and> P t n) (vm_function vm) \<and>
     holds (\<lambda>t n. of_kind s is_pointer_type t \<and> P t n) (vm_pointer vm)"

lemma maps_hold_cong: "maps_hold s P vm \<Longrightarrow> (\<And>t n. P t n \<longleftrightarrow> Q t n) \<Longrightarrow> maps_hold s Q vm"
  by (simp add: maps_hold_def)

lemma collect_entry_holds:
  assumes "maps_hold s P vm"
  shows "maps_hold s (\<lambda>t n. P t n \<or> t = fst e \<and> (\<exists>d\<in>set (snd e). def_statement_id d < ir_id \<and> def_name d = n))
    (collect_entry s ir_id e vm)"
proof -
  obtain t ds where e: "e = (t, ds)" by (cases e)
  let ?V = "\<lambda>n. \<exists>d\<in>set ds. def_statement_id d < ir_id \<and> def_name d = n"
  have pushed: "holds (\<lambda>t' n. of_kind s K t' \<and> (P t' n \<or> t' = t \<and> ?V n)) (push_visible ir_id t ds m)"
    if "holds (\<lambda>t' n. of_kind s K t' \<and> P t' n) m" "of_kind s K t" for K m
    by (rule holds_cong [OF holds_push_visible [OF that(1)]]) (use that(2) in auto)
  have kept: "holds (\<lambda>t' n. of_kind s K t' \<and> (P t' n \<or> t' = t \<and> ?V n)) m"
    if "holds (\<lambda>t' n. of_kind s K t' \<and> P t' n) m" "\<not> of_kind s K t" for K m
    by (rule holds_cong [OF that(1)]) (use that(2) in auto)
  have excl: "is_pointer_type v \<Longrightarrow> \<not> is_function_type v \<and> \<not> is_compound_type v"
    "is_function_type v \<Longrightarrow> \<not> is_compound_type v" for v
    by (cases v; simp add: is_pointer_type_def is_function_type_def is_compound_type_def)+
  note H = assms [unfolded maps_hold_def]
  show ?thesis
  proof (cases "GetTypePtrByID s t")
    case None
    then have "\<not> of_kind s K t" for K by (simp add: of_kind_def)
    then show ?thesis using H kept by (simp add: collect_entry_def e None maps_hold_def)
  next
    case (Some v)
    then have k: "of_kind s K t \<longleftrightarrow> K v" for K by (simp add: of_kind_def)
    consider (f) "is_function_type v" | (c) "is_compound_type v" | (p) "is_pointer_type v"
      | (v) "is_variable_type v" "\<not> is_pointer_type v" by (auto simp: is_variable_type_def)
    then show ?thesis
    proof cases
      case f
      then have "\<not> is_pointer_type v" "\<not> is_compound_type v" using excl [of v] by auto
      then show ?thesis using H kept pushed f
        by (simp add: collect_entry_def e Some maps_hold_def k is_variable_type_def)
    next
      case c
      then have "\<not> is_pointer_type v" "\<not> is_function_type v" using excl [of v] by auto
      then show ?thesis using H kept pushed c
        by (simp add: collect_entry_def e Some maps_hold_def k is_variable_type_def)
    next
      case p
      then have "\<not> is_compound_type v" "\<not> is_function_type v" using excl [of v] by auto
      then show ?thesis using H kept pushed p
        by (simp add: collect_entry_def e Some maps_hold_def k is_variable_type_def Let_def)
    next
      case v
      then show ?thesis using H kept pushed
        by (simp add: collect_entry_def e Some maps_hold_def k is_variable_type_def Let_def)
    qed
  qed
qed

lemma collect_table_holds:
  "maps_hold s P vm \<Longrightarrow> maps_hold s (\<lambda>t n. P t n \<or> (\<exists>e\<in>set table. t = fst e \<and>
     (\<exists>d\<in>set (snd e). def_statement_id d < ir_id \<and> def_name d = n))) (fold (collect_entry s ir_id) table vm)"
proof (induction table arbitrary: P vm)
  case Nil
  then show ?case by simp
next
  case (Cons e table)
  show ?case
    unfolding fold_simps o_apply by (rule maps_hold_cong [OF Cons.IH [OF collect_entry_holds [OF Cons.prems]]]) auto
qed

lemma collect_scopes_holds:
  "maps_hold s P vm \<Longrightarrow> maps_hold s (\<lambda>t n. P t n \<or> (\<exists>sc\<in>set scs. \<exists>e\<in>set (sc_table sc). t = fst e \<and>
     (\<exists>d\<in>set (snd e). def_statement_id d < ir_id \<and> def_name d = n)))
     (fold (\<lambda>sc. fold (collect_entry s ir_id) (sc_table sc)) scs vm)"
proof (induction scs arbitrary: P vm)
  case Nil
  then show ?case by simp
next
  case (Cons sc scs)
  show ?case
    unfolding fold_simps o_apply by (rule maps_hold_cong [OF Cons.IH [OF collect_table_holds [OF Cons.prems]]]) auto
qed

text \<open>A name is in scope at a node when an enclosing scope defines it before the node's statement.\<close>

definition in_scope_at :: "'z scope_tree_scheme \<Rightarrow> IR \<Rightarrow> TypeID \<Rightarrow> string \<Rightarrow> bool" where
  "in_scope_at s ir t n \<longleftrightarrow> (\<exists>sc. encloses s (ir_scope_id (ir_info ir)) sc \<and> (\<exists>e\<in>set (sc_table sc). t = fst e \<and>
     (\<exists>d\<in>set (snd e). def_statement_id d < ir_statement_id (ir_info ir) \<and> def_name d = n)))"

lemma vars_in_scope_holds:
  assumes "scopes_wf s"
  shows "maps_hold s (in_scope_at s ir) (vars_in_scope s ir)"
proof -
  have "maps_hold s (\<lambda>t n. False) \<lparr>vm_simple = [], vm_compound = [], vm_function = [], vm_pointer = []\<rparr>"
    by (simp add: maps_hold_def holds_def om_at_def)
  from collect_scopes_holds [OF this] show ?thesis
    unfolding vars_in_scope_def
    by (rule maps_hold_cong) (simp only: in_scope_at_def Bex_def scope_chain_encloses [OF assms below_card] simp_thms)
qed

text \<open>C19: the candidates for a place are exactly what is in scope there: by type and kind (variables,
  pointers among them, compound objects, functions), the names that an enclosing scope defines
  with an earlier statement; collecting them changes nothing.\<close>

theorem collect_all_var_definition_in_scope:
  assumes "scopes_wf s"
  shows "\<exists>vm. collect_all_var_definition_by_type ir s = Inr (vm, s) \<and> (\<forall>t n.
     (n \<in> set (om_at [] (vm_simple vm) t) \<longleftrightarrow> of_kind s is_variable_type t \<and> in_scope_at s ir t n) \<and>
     (n \<in> set (om_at [] (vm_compound vm) t) \<longleftrightarrow> of_kind s is_compound_type t \<and> in_scope_at s ir t n) \<and>
     (n \<in> set (om_at [] (vm_function vm) t) \<longleftrightarrow> of_kind s is_function_type t \<and> in_scope_at s ir t n) \<and>
     (n \<in> set (om_at [] (vm_pointer vm) t) \<longleftrightarrow> of_kind s is_pointer_type t \<and> in_scope_at s ir t n))"
  using vars_in_scope_holds [OF assms, of ir] by (simp add: collect_all_apply maps_hold_def holds_def)

section \<open>Witnesses\<close>

text \<open>A generator over a scope with one variable, and a place after its definition.\<close>

definition demo_generator :: expression_generator where
  "demo_generator = scope_tree.extend
     (demo_tree\<lparr>scope_id_map := [(1, \<lparr>sc_type = kScopeGlobal, sc_parent = None, sc_children = [],
        sc_table = [(10, [\<lparr>def_name = ''x'', def_type = 10, def_statement_id = 3\<rparr>])], sc_defined_names = {}\<rparr>)]\<rparr>)
     \<lparr>gen_counter = 0, function_gen_counter = 0, current_fix_scope = 0, static_var_maps = None,
      all_satisfiable_types = [], builtin_structure_type_cache = []\<rparr>"

definition demo_place :: IR where
  "demo_place = Node 7 (node_info kDataDefault kScopeDefault (StringData ''FIXME'')\<lparr>ir_scope_id := 1, ir_statement_id := 5\<rparr>) NullIR NullIR"

lemma demo_generator_wf: "types_wf demo_generator" "scopes_wf demo_generator"
proof -
  have "types_wf demo_tree" using demo_tree_wf(1) by (simp add: collecting_def)
  then show "types_wf demo_generator" by (simp add: types_wf_def demo_generator_def all_entries_def scope_tree.defs)
  show "scopes_wf demo_generator"
    by (auto simp: scopes_wf_def demo_generator_def scope_tree.defs scope_ids_def GetScopeById_def om_get_def om_sorted_def
        os_sorted_def demo_tree_def first_scope_def split: if_splits)
qed

lemma demo_generator_int: "GetTypePtrByID demo_generator 10 = Some (make_basic_type 10 ''int'')"
  by (simp add: demo_generator_def scope_tree.defs GetTypePtrByID_def demo_tree_def first_scope_def
      constructed_def with_specials_def with_basics_def Let_def with_builtin_def demo_configuration_def GetBasicTypeStr_def
      new_basic_def demo_scopes_def type_system.defs demo_statics_def has_key_def special_name_def)

lemma demo_vars: "vars_in_scope demo_generator demo_place =
    \<lparr>vm_simple = [(10, [''x''])], vm_compound = [], vm_function = [], vm_pointer = []\<rparr>"
proof -
  have "GetScopeById demo_generator 1 = Some \<lparr>sc_type = kScopeGlobal, sc_parent = None, sc_children = [],
        sc_table = [(10, [\<lparr>def_name = ''x'', def_type = 10, def_statement_id = 3\<rparr>])], sc_defined_names = {}\<rparr>"
    "length (scope_id_map demo_generator) = Suc 0"
    by (simp_all add: demo_generator_def scope_tree.defs GetScopeById_def om_get_def)
  then show ?thesis
    by (simp add: vars_in_scope_def demo_place_def collect_entry_def demo_generator_int make_basic_type_def
        is_function_type_def is_compound_type_def is_pointer_type_def push_visible_def om_push_def om_at_def)
qed

lemma collect_all_var_definition_in_scope_witness:
  "\<exists>vm. collect_all_var_definition_by_type demo_place demo_generator = Inr (vm, demo_generator) \<and>
     (''x'' \<in> set (om_at [] (vm_simple vm) 10) \<longleftrightarrow>
        of_kind demo_generator is_variable_type 10 \<and> in_scope_at demo_generator demo_place 10 ''x'')"
  using collect_all_var_definition_in_scope [OF demo_generator_wf(2), of demo_place] by blast

end
