(* ===== verification/Generation_Ends.thy ===== *)
theory Generation_Ends
  imports Variables_In_Scope
begin

text \<open>
  The life of \<open>ExpressionGenerator::GenerateExpression\<close> in a weakly typed language: every handler keeps
  the counters below the bound and the types and scopes as they are, so that a generation ends
  with a text or at one of the generator's assertions; and one case in which it does abort.
\<close>

section \<open>What generation may do\<close>

text \<open>Generation moves along the random stream and counts.\<close>

definition quiet :: "'z expression_generator_scheme \<Rightarrow> 'z expression_generator_scheme \<Rightarrow> bool" where
  "quiet s s' \<longleftrightarrow> s'\<lparr>rt_pos := 0, gen_counter := 0, function_gen_counter := 0\<rparr> =
     s\<lparr>rt_pos := 0, gen_counter := 0, function_gen_counter := 0\<rparr> \<and> gen_counter s \<le> gen_counter s' \<and>
     (gen_counter s \<le> 51 \<longrightarrow> gen_counter s' \<le> 51)"

lemma quiet_refl [simp]: "quiet s s"
  by (simp add: quiet_def)

lemma quiet_trans [trans]: "quiet s s' \<Longrightarrow> quiet s' s'' \<Longrightarrow> quiet s s''"
  by (simp add: quiet_def)

lemma quiet_rand [simp]: "quiet s (s\<lparr>rt_pos := n\<rparr>)" "quiet s (s\<lparr>function_gen_counter := n\<rparr>)"
  by (simp_all add: quiet_def)

lemma quiet_same:
  assumes "quiet s s'"
  shows "GetTypePtrByID s' = GetTypePtrByID s" "GetCompoundType s' = GetCompoundType s" "GetFunctionType s' = GetFunctionType s"
    "IsCompoundType s' = IsCompoundType s" "IsFunctionType s' = IsFunctionType s" "num_compound_types s' = num_compound_types s"
    "compound_types s' = compound_types s" "s_builted_compound_types s' = s_builted_compound_types s"
    "static_var_maps s' = static_var_maps s" "all_satisfiable_types s' = all_satisfiable_types s"
proof -
  let ?z = "\<lambda>s. s\<lparr>rt_pos := 0, gen_counter := 0, function_gen_counter := 0\<rparr>"
  have z: "?z s' = ?z s" using assms by (simp add: quiet_def)
  have "GetTypePtrByID (?z t) = GetTypePtrByID t" "GetCompoundType (?z t) = GetCompoundType t"
    "GetFunctionType (?z t) = GetFunctionType t" "IsCompoundType (?z t) = IsCompoundType t"
    "IsFunctionType (?z t) = IsFunctionType t" "num_compound_types (?z t) = num_compound_types t"
    "compound_types (?z t) = compound_types t" "s_builted_compound_types (?z t) = s_builted_compound_types t"
    "static_var_maps (?z t) = static_var_maps t" "all_satisfiable_types (?z t) = all_satisfiable_types t" for t
    by (simp_all add: fun_eq_iff GetTypePtrByID_def GetCompoundType_def GetFunctionType_def IsCompoundType_def
        IsFunctionType_def num_compound_types_def)
  then show "GetTypePtrByID s' = GetTypePtrByID s" "GetCompoundType s' = GetCompoundType s" "GetFunctionType s' = GetFunctionType s"
    "IsCompoundType s' = IsCompoundType s" "IsFunctionType s' = IsFunctionType s" "num_compound_types s' = num_compound_types s"
    "compound_types s' = compound_types s" "s_builted_compound_types s' = s_builted_compound_types s"
    "static_var_maps s' = static_var_maps s" "all_satisfiable_types s' = all_satisfiable_types s"
    using z by metis+
qed

lemma only_rand:
  "0 < n \<Longrightarrow> (\<And>i s'. i < n \<Longrightarrow> quiet s s' \<Longrightarrow> Q i s') \<Longrightarrow> only E (get_rand_int n) s Q"
  by (auto intro!: only_mono [OF only_ok [OF ok_get_rand_int]])

lemma only_pick:
  "xs \<noteq> [] \<Longrightarrow> (\<And>x s'. x \<in> set xs \<Longrightarrow> quiet s s' \<Longrightarrow> Q x s') \<Longrightarrow> only E (random_pick xs) s Q"
  by (auto intro!: only_mono [OF only_ok [OF ok_random_pick]])

lemma only_number:
  "(\<And>r s'. r \<noteq> [] \<Longrightarrow> quiet s s' \<Longrightarrow> Q r s') \<Longrightarrow> only E gen_random_num_string s Q"
  by (auto simp: to_string_ne intro!: only_mono [OF only_ok [OF ok_gen_random_num_string]])

section \<open>Generation only aborts at assertions\<close>

definition compound_ids :: "'z type_system_scheme \<Rightarrow> TypeID set" where
  "compound_ids s = fst ` set (compound_types s) \<union> fst ` set (s_builted_compound_types s)"

lemma IsCompoundType_ids: "IsCompoundType s t \<longleftrightarrow> t \<in> compound_ids s"
  by (auto simp: IsCompoundType_def has_key_iff compound_ids_def)

lemma IsCompoundType_lookup: "IsCompoundType s t \<longleftrightarrow> (\<exists>v. GetCompoundType s t = Some v)"
  by (auto simp: IsCompoundType_def GetCompoundType_def has_key_def)

lemma IsFunctionType_lookup: "IsFunctionType s t \<longleftrightarrow> (\<exists>v. GetFunctionType s t = Some v)"
  by (auto simp: IsFunctionType_def GetFunctionType_def has_key_def)

lemma compound_ids_finite [simp]: "finite (compound_ids s)"
  by (simp add: compound_ids_def)

lemma card_compound_ids: "card (compound_ids s) \<le> num_compound_types s"
proof -
  have "card (fst ` set m) \<le> length m" for m :: umap
    using card_image_le [of "set m" fst] card_length [of m] by (simp add: le_trans)
  then show ?thesis
    using card_Un_le [of "fst ` set (compound_types s)" "fst ` set (s_builted_compound_types s)"]
    unfolding compound_ids_def num_compound_types_def by (meson add_mono le_trans)
qed

text \<open>Every member type of a compound type comes with a name.\<close>

definition members_ok :: "'z type_system_scheme \<Rightarrow> bool" where
  "members_ok s \<longleftrightarrow> (\<forall>t v. GetCompoundType s t = Some v \<longrightarrow> (\<forall>x\<in>set (ct_members v). snd x \<noteq> []))"

text \<open>The generator's maps hold compound types only where they should.\<close>

definition gen_ok :: "'z expression_generator_scheme \<Rightarrow> bool" where
  "gen_ok s \<longleftrightarrow> members_ok s \<and>
     (\<exists>vm. static_var_maps s = Some vm \<and> (\<forall>x\<in>set (vm_compound vm). IsCompoundType s (fst x)))"

lemma quiet_ok: "quiet s s' \<Longrightarrow> gen_ok s \<Longrightarrow> gen_ok s'" "quiet s s' \<Longrightarrow> members_ok s \<Longrightarrow> members_ok s'"
  "quiet s s' \<Longrightarrow> compound_ids s' = compound_ids s"
  by (simp_all add: gen_ok_def members_ok_def compound_ids_def quiet_same)

text \<open>What a generator of arguments is allowed to do, and the handlers that use one.\<close>

definition counted :: "nat \<Rightarrow> 'z expression_generator_scheme \<Rightarrow> bool" where
  "counted n s \<longleftrightarrow> 0 < gen_counter s \<and> gen_counter s \<le> 51 \<and> 51 < n + gen_counter s"

definition good_gen :: "(TypeID \<Rightarrow> ('z expression_generator_scheme, string) M) \<Rightarrow> nat \<Rightarrow> bool" where
  "good_gen gen n \<longleftrightarrow> (\<forall>k s. gen_ok s \<and> counted n s \<longrightarrow>
     only {Assert_failed} (gen k) s (\<lambda>_ s'. quiet s s'))"

lemma good_genD:
  "good_gen gen n \<Longrightarrow> gen_ok s \<Longrightarrow> counted n s \<Longrightarrow> (\<And>r s'. quiet s s' \<Longrightarrow> Q r s') \<Longrightarrow>
   only {Assert_failed} (gen k) s Q"
  unfolding good_gen_def by (rule only_mono) blast+

lemma quiet_counter: "quiet s s' \<Longrightarrow> counted n s \<Longrightarrow> counted n s'"
  by (simp add: quiet_def counted_def)

lemma only_call:
  assumes gen: "good_gen gen n" and s: "gen_ok s" "counted n s"
    and Q: "\<And>r s'. quiet s s' \<Longrightarrow> Q r s'"
  shows "only {Assert_failed} (function_call_gen_handler gen fm) s Q"
proof (cases "fm = []")
  case True
  then show ?thesis by (simp add: function_call_gen_handler_def only_simps)
next
  case False
  have args: "only {Assert_failed} (foldM (\<lambda>k res. bnd (gen k) (\<lambda>arg. return (res @ arg @ '',''))) ks r0) s1
      (\<lambda>_ s2. quiet s s2)" if "quiet s s1" for ks r0 s1
  proof (rule only_foldM)
    show "quiet s s1" using that by simp
  next
    fix k s2 and res :: string
    assume I: "quiet s s2"
    show "only {Assert_failed} (bnd (gen k) (\<lambda>arg. return (res @ arg @ '',''))) s2 (\<lambda>_ s2. quiet s s2)"
      unfolding only_simps
      by (rule good_genD [OF gen]) (use I s in \<open>auto intro: quiet_ok quiet_counter quiet_trans\<close>)
  qed
  show ?thesis
    unfolding function_call_gen_handler_def only_simps if_P [OF False]
  proof (rule only_pick [OF False], goal_cases)
    case (1 x s1)
    show ?case
    proof (cases "GetFunctionType s1 (fst x)")
      case None
      then show ?thesis by (simp add: only_simps)
    next
      case (Some func)
      have "quiet s (s1\<lparr>function_gen_counter := function_gen_counter s1 + length (ft_args func)\<rparr>)"
        using quiet_trans [OF 1(2)] by simp
      then show ?thesis
        unfolding Some option.case only_simps
        by (intro only_mono [OF args]) (auto intro!: Q)
    qed
  qed
qed

lemma only_pick_solution:
  assumes "good_gen gen n" and "gen_ok s" "counted n s"
    and Q: "\<And>r s'. quiet s s' \<Longrightarrow> Q r s'"
  shows "only {Assert_failed} (pick_solution gen sols funs) s Q"
proof -
  have call: "only {Assert_failed} (call_member gen funs) s1 Q" if "funs \<noteq> []" "quiet s s1" for s1
    unfolding call_member_def only_simps
  proof (rule only_pick [OF that(1)], rule only_call [OF assms(1)], goal_cases)
    case (1 x s2)
    then show ?case using that assms(2) by (blast intro: quiet_ok quiet_trans)
  next
    case (2 x s2)
    then show ?case using that assms(3) by (blast intro: quiet_counter quiet_trans)
  next
    case (3 x s2 r s3)
    then show ?case using that by (blast intro: Q quiet_trans)
  qed
  have "only {Assert_failed} (random_pick sols) s1 Q" if "sols \<noteq> []" "quiet s s1" for s1
    by (rule only_pick [OF that(1)]) (use that(2) in \<open>blast intro: Q quiet_trans\<close>)
  then show ?thesis
    using call by (auto simp: pick_solution_def only_simps Q intro!: only_rand)
qed

lemma only_member_solution:
  assumes "members_ok s" and "GetCompoundType s type = Some compound"
  shows "only {Assert_failed} (foldM (member_solution target) (ct_members compound) []) s (\<lambda>_ s'. quiet s s')"
proof (rule only_foldM)
  fix x :: "TypeID \<times> string list" and b :: "string list" and s1
  assume x: "x \<in> set (ct_members compound)" and "quiet s s1"
  then have "snd x \<noteq> []" using assms by (auto simp: members_ok_def)
  then show "only {Assert_failed} (member_solution target x b) s1 (\<lambda>_ s'. quiet s s')"
    using \<open>quiet s s1\<close>
    by (cases x) (auto simp: member_solution_def only_simps intro!: only_pick elim: quiet_trans)
qed simp

text \<open>The step of the second loop over the members, given the search below.\<close>

lemma only_deeper_solution:
  assumes names: "snd x \<noteq> []" and visit: "v0 \<subseteq> visit" "quiet s0 s"
    and search: "\<And>s1. IsCompoundType s1 (fst x) \<Longrightarrow> fst x \<notin> visit \<Longrightarrow> quiet s0 s1 \<Longrightarrow>
      only {Assert_failed} (search (fst x) visit) s1 (\<lambda>r s2. quiet s1 s2 \<and> visit \<subseteq> snd r)"
  shows "only {Assert_failed} (deeper_solution search target x (sols, funs, visit)) s
    (\<lambda>r s'. v0 \<subseteq> snd (snd r) \<and> quiet s0 s')"
proof -
  obtain t ns where x: "x = (t, ns)" by (cases x)
  have pick: "only {Assert_failed} (bnd (random_pick ns) (\<lambda>n. return (f n, funs, w))) s1
      (\<lambda>r s'. v0 \<subseteq> snd (snd r) \<and> quiet s0 s')" if "v0 \<subseteq> w" "quiet s0 s1" for f w s1
    using names that x by (auto simp: only_simps intro!: only_pick elim: quiet_trans)
  have below: "only {Assert_failed} (bnd (search t visit) (\<lambda>(tmp_res, visit).
      if tmp_res \<noteq> [] then bnd (random_pick ns) (\<lambda>n. return (sols @ [member_str @ n @ tmp_res], funs, visit))
      else return (sols, funs, visit))) s (\<lambda>r s'. v0 \<subseteq> snd (snd r) \<and> quiet s0 s')"
    if "IsCompoundType s t" "t \<notin> visit"
    unfolding only_bnd
  proof (rule only_mono [OF search [unfolded x fst_conv, OF that visit(2)]], goal_cases)
    case (1 r s2)
    then have "v0 \<subseteq> snd r" "quiet s0 s2" using visit by (auto elim: quiet_trans)
    then show ?case by (cases r) (auto simp: only_return pick)
  qed
  show ?thesis
    unfolding deeper_solution_def x prod.case only_bnd only_gets
    using below visit pick by (auto simp: only_return split: option.split)
qed

lemma only_class_member:
  assumes gen: "good_gen gen n" and "gen_ok s" "counted n s"
    and "IsCompoundType s type" and "type \<notin> visit" and "card (compound_ids s - visit) < m"
  shows "only {Assert_failed} (get_class_member_by_type_no_duplicate m gen target type visit) s
    (\<lambda>r s'. quiet s s' \<and> visit \<subseteq> snd r)"
  using assms(2-)
proof (induction m arbitrary: s type visit)
  case 0
  then show ?case by simp
next
  case (Suc m)
  obtain compound where compound: "GetCompoundType s type = Some compound"
    using Suc.prems(3) by (auto simp: IsCompoundType_lookup)
  have mo: "members_ok s" using Suc.prems(1) by (simp add: gen_ok_def)
  have card: "card (compound_ids s - w) < m" if "insert type visit \<subseteq> w" for w
  proof -
    have "card (compound_ids s - w) \<le> card ((compound_ids s - visit) - {type})" using that by (intro card_mono) auto
    also have "\<dots> < card (compound_ids s - visit)"
      using Suc.prems(3,4) by (intro psubset_card_mono) (auto simp: IsCompoundType_ids)
    finally show ?thesis using Suc.prems(5) by simp
  qed
  show ?case
    unfolding get_class_member_by_type_no_duplicate.simps only_bnd only_gets compound option.case
  proof (rule only_mono [OF only_member_solution [OF mo compound]], goal_cases)
    case (1 sols s1)
    have deeper: "only {Assert_failed} (foldM (deeper_solution (get_class_member_by_type_no_duplicate m gen target) target)
        (ct_members compound) (sols, [], insert type visit)) s1 (\<lambda>r s'. insert type visit \<subseteq> snd (snd r) \<and> quiet s s')"
    proof (rule only_foldM)
      show "insert type visit \<subseteq> snd (snd (sols, [] :: VarType list, insert type visit)) \<and> quiet s s1"
        using 1 by simp
    next
      fix x :: "TypeID \<times> string list" and b :: "string list \<times> VarType list \<times> TypeID set" and s2
      assume x: "x \<in> set (ct_members compound)" and b: "insert type visit \<subseteq> snd (snd b) \<and> quiet s s2"
      obtain sols1 funs1 visit1 where b1: "b = (sols1, funs1, visit1)" by (cases b)
      have names: "snd x \<noteq> []" using mo compound x by (auto simp: members_ok_def)
      have v: "insert type visit \<subseteq> visit1" "quiet s s2" using b b1 by auto
      show "only {Assert_failed} (deeper_solution (get_class_member_by_type_no_duplicate m gen target) target x b) s2
          (\<lambda>r s'. insert type visit \<subseteq> snd (snd r) \<and> quiet s s')"
        unfolding b1
      proof (rule only_deeper_solution [OF names v], goal_cases)
        case (1 s3)
        note q = quiet_ok [OF 1(3)] quiet_counter [OF 1(3) Suc.prems(2)]
        show ?case
          by (rule only_mono [OF Suc.IH [OF q(1) [OF Suc.prems(1)] q(4) 1(1,2)]])
            (use card [OF v(1)] q(3) in auto)
      qed
    qed
    show ?case
    proof (rule only_mono [OF deeper], goal_cases)
      case (1 r s2)
      obtain sols1 funs1 visit1 where r: "r = (sols1, funs1, visit1)" by (cases r)
      then have v: "insert type visit \<subseteq> visit1" "quiet s s2" using 1 by auto
      show ?case
        unfolding r prod.case only_bnd only_return
        by (rule only_pick_solution [OF gen quiet_ok(1) [OF v(2) Suc.prems(1)] quiet_counter [OF v(2) Suc.prems(2)]])
          (use v in \<open>auto elim: quiet_trans\<close>)
    qed
  qed
qed

lemma only_structure:
  assumes gen: "good_gen gen n" and s: "gen_ok s" "counted n s"
    and cm: "cm \<noteq> []" "\<forall>x\<in>set cm. IsCompoundType s (fst x)"
  shows "only {Assert_failed} (structure_member_gen_handler c gen cm target) s (\<lambda>_ s'. quiet s s')"
proof -
  have fin: "only {Assert_failed} (bnd (gets (\<lambda>s. IsBuiltinType s t)) (\<lambda>builtin.
       if IsWeakType c \<and> builtin then
         bnd (get_rand_int 4) (\<lambda>r.
         bnd (gets (\<lambda>s. GetTypePtrByID s t)) (\<lambda>compound_ptr.
         case compound_ptr of
           None \<Rightarrow> return nm
         | Some v \<Rightarrow> return (if r \<noteq> 0 \<and> nm = vt_name (vt_info v)
                             then ''(new '' @ vt_name (vt_info v) @ ''())'' else nm)))
       else return nm)) s1 (\<lambda>_ s'. quiet s s')" if "quiet s s1" for t nm s1
    using that by (auto simp: only_simps intro!: only_rand split: option.split elim: quiet_trans)
  show ?thesis
    unfolding structure_member_gen_handler_def only_bnd
  proof (rule only_pick [OF cm(1)], goal_cases)
    case (1 x s1)
    obtain t ns where x: "x = (t, ns)" by (cases x)
    have t: "IsCompoundType s t" using cm(2) 1(1) x by auto
    show ?case
    proof (cases "ns = []")
      case True
      then show ?thesis by (simp add: x only_simps)
    next
      case False
      have member: "only {Assert_failed} (get_class_member_by_type gen t target) s2 (\<lambda>_ s'. quiet s s')" if q: "quiet s s2" for s2
        unfolding get_class_member_by_type_def only_bnd only_gets only_return
      proof (rule only_mono [OF only_class_member [OF gen]], goal_cases)
        case 3
        then show ?case using t quiet_same(4) [OF q] by simp
      next
        case 5
        then show ?case using card_compound_ids [of s2] by simp
      next
        case (6 r s3)
        then show ?case using q by (auto elim: quiet_trans)
      qed (use s q in \<open>auto intro: quiet_ok quiet_counter\<close>)
      show ?thesis
        unfolding x prod.case only_bnd only_require if_P [OF False]
      proof (rule only_pick [OF False], rule only_mono [OF member], goal_cases)
        case (1 nm s2)
        then show ?case using \<open>quiet s s1\<close> by (auto elim: quiet_trans)
      next
        case (2 nm s2 r s3)
        then show ?case using fin by (auto simp: only_require only_return only_bnd [of _ "require e b" for e b])
      qed
    qed
  qed
qed

lemma filter_element_subset: "set (filter_element vars T) \<subseteq> set vars"
  by (auto simp: filter_element_def)

lemma only_make_choice:
  assumes gen: "good_gen gen n" and s: "gen_ok s" "counted n s"
    and cm: "0 < cw \<longrightarrow> cm \<noteq> []" "\<forall>x\<in>set cm. IsCompoundType s (fst x)"
  shows "only {Assert_failed} (make_choice c gen type (ew, fw, cw, sw) sm cm fm) s (\<lambda>_ s'. quiet s s')"
proof (cases "sw + fw + cw = 0")
  case True
  then show ?thesis by (simp add: make_choice_def only_number)
next
  case False
  have simple: "only {Assert_failed} (bnd (require Assert_failed (ns \<noteq> [])) (\<lambda>_. random_pick ns)) s1 (\<lambda>_ s'. quiet s s')"
    if "quiet s s1" for ns :: "string list" and s1
    using that by (auto simp: only_simps intro!: only_pick elim: quiet_trans)
  show ?thesis
    unfolding make_choice_def prod.case Let_def if_not_P [OF False] only_bnd
  proof (rule only_rand, use False in simp, goal_cases)
    case (1 i s1)
    note g = quiet_ok(1) [OF 1(2) s(1)] quiet_counter [OF 1(2) s(2)]
    have call: "only {Assert_failed} (function_call_gen_handler gen fm) s1 (\<lambda>_ s'. quiet s s')"
      by (rule only_call [OF gen g]) (use 1(2) in \<open>blast intro: quiet_trans\<close>)
    have struct: "only {Assert_failed} (structure_member_gen_handler c gen cm type) s1 (\<lambda>_ s'. quiet s s')" if "0 < cw"
      by (rule only_mono [OF only_structure [OF gen g]])
        (use cm that 1(2) in \<open>auto simp: quiet_same elim: quiet_trans\<close>)
    show ?case
      using call struct simple [OF 1(2), unfolded only_bnd] by (auto simp: only_throw only_bnd)
  qed
qed

lemma weights_compound: "weights b gc fgc fs cs ss = (ew, fw, cw, sw) \<Longrightarrow> cw = cs * 8"
  by (simp add: weights_def Let_def)

lemma only_generate_of_type:
  assumes gen: "good_gen gen n" and s: "gen_ok s" "counted n s"
    and cm: "\<forall>x\<in>set cm. IsCompoundType s (fst x)"
  shows "only {Assert_failed} (generate_of_type c gen type sm cm fm) s (\<lambda>_ s'. quiet s s')"
proof -
  have cm': "\<forall>x\<in>set (filter_element cm T). IsCompoundType s (fst x)" for T
    using cm filter_element_subset by blast
  have pick: "only {Assert_failed} (make_choice c gen type (weights b gc fgc l (length cm') l') sm' cm' fm') s (\<lambda>_ s'. quiet s s')"
    if "\<forall>x\<in>set cm'. IsCompoundType s (fst x)" for b gc fgc l l' sm' cm' fm'
  proof -
    obtain ew fw cw sw where w: "weights b gc fgc l (length cm') l' = (ew, fw, cw, sw)"
      by (cases "weights b gc fgc l (length cm') l'")
    show ?thesis unfolding w by (rule only_make_choice [OF gen s _ that]) (use weights_compound [OF w] in auto)
  qed
  show ?thesis
    unfolding generate_of_type_def only_bnd only_gets
    by (cases "om_get (all_satisfiable_types s) type") (auto simp: Let_def only_number only_simps pick cm')
qed

lemma only_choose_type:
  assumes "\<And>t s'. quiet s s' \<Longrightarrow> Q t s'"
  shows "only {Assert_failed} (choose_type type) s Q"
proof -
  have pick: "only {Assert_failed} (bnd (gets (\<lambda>s. IsFunctionType s t)) (\<lambda>is_function.
       if is_function then
         bnd (get_rand_int 3) (\<lambda>r.
         bnd (gets (\<lambda>s. GetFunctionType s t)) (\<lambda>func.
         if r \<noteq> 0 then (case func of None \<Rightarrow> throw Null_dereference | Some f \<Rightarrow> return (ft_return f))
         else return t))
       else return t)) s1 Q" if q: "quiet s s1" for t s1
  proof (cases "GetFunctionType s1 t")
    case None
    then show ?thesis using q by (simp add: only_simps IsFunctionType_lookup assms)
  next
    case (Some f)
    have branch: "only {Assert_failed} (if r \<noteq> (0 :: nat) then (case GetFunctionType s2 t of None \<Rightarrow> throw Null_dereference
        | Some f \<Rightarrow> return (ft_return f)) else return t) s2 Q" if "quiet s1 s2" for r s2
      using that Some assms [OF quiet_trans [OF q that]] by (simp add: quiet_same only_return)
    have "IsFunctionType s1 t" using Some by (simp add: IsFunctionType_lookup)
    then show ?thesis
      by (simp only: only_bnd only_gets if_True) (rule only_rand, simp, rule branch)
  qed
  show ?thesis
  proof (cases "type = kAllTypes \<and> all_satisfiable_types s \<noteq> []")
    case True
    show ?thesis
      unfolding choose_type_def only_bnd only_gets if_P [OF True]
    proof (rule only_pick, use True in simp, goal_cases)
      case (1 x s1)
      obtain t h where x: "x = (t, h)" by (cases x)
      show ?case unfolding x prod.case by (rule pick [OF 1(2)])
    qed
  next
    case False
    then show ?thesis by (auto simp: choose_type_def only_simps assms)
  qed
qed

text \<open>The step after the maps are there.\<close>

definition generate_rest ::
  "configuration \<Rightarrow> (TypeID \<Rightarrow> ('z expression_generator_scheme, string) M) \<Rightarrow> TypeID
     \<Rightarrow> ('z expression_generator_scheme, string) M" where
  "generate_rest c gen type =
     bnd (modify (\<lambda>s. s\<lparr>gen_counter := gen_counter s + 1\<rparr>)) (\<lambda>_.
     bnd (gets static_var_maps) (\<lambda>maps.
     case maps of
       None \<Rightarrow> throw Index_out_of_range
     | Some vm \<Rightarrow>
         bnd (choose_type type) (\<lambda>type.
         generate_of_type c gen type (vm_simple vm) (vm_compound vm) (vm_function vm))))"

lemma generate_step_weak:
  assumes "IsWeakType c"
  shows "generate_step c gen type ir = bnd (gets (\<lambda>s. gen_counter s = 0)) (\<lambda>first.
     bnd (if first then refresh_maps c ir else return ()) (\<lambda>_.
     bnd (gets (\<lambda>s. 50 < gen_counter s)) (\<lambda>enough.
     if enough then gen_random_num_string else generate_rest c gen type)))"
proof -
  have pair: "bnd (return (a, b)) (\<lambda>(x, y). f x y) = f a b" for a b and f :: "'b \<Rightarrow> 'c \<Rightarrow> ('s, 'd) M"
    by (simp add: bnd_return)
  show ?thesis using assms by (simp only: generate_step_def generate_rest_def if_True pair)
qed

lemma only_generate_rest:
  assumes gen: "good_gen gen n" and s: "gen_ok s" "gen_counter s \<le> 50" "51 \<le> n + gen_counter s"
  shows "only {Assert_failed} (generate_rest c gen type) s (\<lambda>_ s'. quiet s s')"
proof -
  let ?s = "s\<lparr>gen_counter := gen_counter s + 1\<rparr>"
  have q: "quiet s ?s" using s(2) by (simp add: quiet_def)
  then have g: "gen_ok ?s" "counted n ?s" using s by (auto intro: quiet_ok simp: counted_def)
  obtain vm where vm: "static_var_maps s = Some vm" "\<forall>x\<in>set (vm_compound vm). IsCompoundType s (fst x)"
    using s(1) by (auto simp: gen_ok_def)
  have body: "only {Assert_failed} (bnd (choose_type type) (\<lambda>type.
      generate_of_type c gen type (vm_simple vm) (vm_compound vm) (vm_function vm))) ?s (\<lambda>_ s'. quiet s s')"
    unfolding only_bnd
  proof (rule only_choose_type, rule only_mono [OF only_generate_of_type [OF gen]], goal_cases)
    case (3 t s1)
    then show ?case using vm(2) quiet_same(4) [OF quiet_trans [OF q 3]] by simp
  qed (use g q in \<open>auto intro: quiet_ok quiet_counter quiet_trans\<close>)
  then show ?thesis using vm(1) by (simp add: generate_rest_def only_simps)
qed

lemma only_generate_step:
  assumes "IsWeakType c" and "good_gen gen n" and "gen_ok s" and "counted (Suc n) s"
  shows "only {Assert_failed} (generate_step c gen type ir) s (\<lambda>_ s'. quiet s s')"
  using assms(4) only_generate_rest [OF assms(2,3)]
  by (simp add: generate_step_weak [OF assms(1)] only_simps counted_def only_number)

lemma good_core:
  assumes "IsWeakType c"
  shows "good_gen (generate_expression_by_type_core n c ir) n"
proof (induction n)
  case 0
  show ?case by (auto simp: good_gen_def counted_def)
next
  case (Suc n)
  then show ?case using only_generate_step [OF assms Suc] by (simp add: good_gen_def)
qed

section \<open>Generation ends\<close>

lemma all_types_of_returns:
  "IsCompoundType s t \<Longrightarrow> card (compound_ids s - visit) < n \<Longrightarrow>
     \<exists>r. all_types_of n c s t visit = Inr r \<and> visit \<subseteq> snd r"
proof (induction n arbitrary: t visit)
  case 0
  then show ?case by simp
next
  case (Suc n)
  have loop: "\<exists>r. member_loop n c s ms res w = Inr r \<and> w \<subseteq> snd r" if "card (compound_ids s - w) < n" for ms res w
    using that
  proof (induction ms arbitrary: res w)
    case Nil
    then show ?case by simp
  next
    case (Cons m ms)
    show ?case
    proof (cases "IsCompoundType s m")
      case True
      obtain sub w' where sub: "all_types_of n c s m w = Inr (sub, w')" "w \<subseteq> w'"
        using Suc.IH [OF True Cons.prems] by fastforce
      have "card (compound_ids s - w') \<le> card (compound_ids s - w)" using sub(2) by (intro card_mono) auto
      then have "card (compound_ids s - w') < n" using Cons.prems by simp
      from Cons.IH [OF this, of "insert m (res \<union> sub)"] show ?thesis using True sub by fastforce
    next
      case False
      then show ?thesis using Cons.IH [OF Cons.prems] by (auto simp: IsFunctionType_lookup)
    qed
  qed
  obtain compound where compound: "GetCompoundType s t = Some compound"
    using Suc.prems(1) by (auto simp: IsCompoundType_lookup)
  show ?case
  proof (cases "t \<in> visit")
    case True
    then show ?thesis by simp
  next
    case False
    have "card (compound_ids s - insert t visit) < card (compound_ids s - visit)"
      using Suc.prems(1) False by (intro psubset_card_mono) (auto simp: IsCompoundType_ids)
    then have "card (compound_ids s - insert t visit) < n" using Suc.prems(2) by simp
    from loop [OF this, of "map fst (ct_members compound)" "{}"] show ?thesis using False compound by auto
  qed
qed

lemma get_all_types_returns:
  "IsCompoundType s t \<Longrightarrow> \<exists>r. get_all_types_from_compound_type c s t {} = Inr r"
  using all_types_of_returns [of s t "{}" "Suc (num_compound_types s)" c] card_compound_ids [of s]
  by (auto simp: get_all_types_from_compound_type_def)

text \<open>What collecting the satisfiable types may change.\<close>

definition cached :: "'z expression_generator_scheme \<Rightarrow> 'z expression_generator_scheme \<Rightarrow> bool" where
  "cached s s' \<longleftrightarrow> s'\<lparr>builtin_structure_type_cache := []\<rparr> = s\<lparr>builtin_structure_type_cache := []\<rparr>"

lemma cached_refl [simp]: "cached s s"
  by (simp add: cached_def)

lemma cached_trans [trans]: "cached s s' \<Longrightarrow> cached s' s'' \<Longrightarrow> cached s s''"
  by (simp add: cached_def)

lemma cached_upd [simp]: "cached s (s\<lparr>builtin_structure_type_cache := m\<rparr>)"
  by (simp add: cached_def)

lemma cached_same:
  assumes "cached s s'"
  shows "IsCompoundType s' = IsCompoundType s" "GetFunctionType s' = GetFunctionType s"
    "GetCompoundType s' = GetCompoundType s" "static_var_maps s' = static_var_maps s"
    "gen_counter s' = gen_counter s" "function_gen_counter s' = function_gen_counter s"
proof -
  let ?z = "\<lambda>s. s\<lparr>builtin_structure_type_cache := []\<rparr>"
  have z: "?z s' = ?z s" using assms by (simp add: cached_def)
  have "IsCompoundType (?z t) = IsCompoundType t" "GetFunctionType (?z t) = GetFunctionType t"
    "GetCompoundType (?z t) = GetCompoundType t" "static_var_maps (?z t) = static_var_maps t"
    "gen_counter (?z t) = gen_counter t" "function_gen_counter (?z t) = function_gen_counter t" for t
    by (simp_all add: fun_eq_iff IsCompoundType_def GetFunctionType_def GetCompoundType_def)
  then show "IsCompoundType s' = IsCompoundType s" "GetFunctionType s' = GetFunctionType s"
    "GetCompoundType s' = GetCompoundType s" "static_var_maps s' = static_var_maps s"
    "gen_counter s' = gen_counter s" "function_gen_counter s' = function_gen_counter s"
    using z by metis+
qed

lemma only_satisfy_compound:
  assumes "IsCompoundType s (fst x)"
  shows "only {} (satisfy_compound c x acc) s (\<lambda>_ s'. cached s s')"
proof -
  obtain r where r: "get_all_types_from_compound_type c s (fst x) {} = Inr r"
    using get_all_types_returns [OF assms] by blast
  have "only {} (calc_possible_types_from_structure c (fst x)) s (\<lambda>_ s'. cached s s')"
    unfolding calc_possible_types_from_structure_def only_bnd only_gets r
    by (cases "om_get (builtin_structure_type_cache s) (fst x)"; cases r)
      (simp_all add: r lift_result_def only_simps)
  then show ?thesis by (cases x; cases acc) (simp add: satisfy_compound_def Let_def only_simps)
qed

lemma only_collect_satisfiable:
  assumes cm: "\<forall>x\<in>set (vm_compound vm). IsCompoundType s (fst x)"
    and fm: "\<forall>x\<in>set (vm_function vm). GetFunctionType s (fst x) \<noteq> None"
  shows "only {} (collect_satisfiable_types c vm) s (\<lambda>_ s'. cached s s')"
proof -
  have "only {} (foldM (satisfy_compound c) (vm_compound vm) (fold satisfy_simple (vm_simple vm) ([], {}))) s (\<lambda>_ s'. cached s s')"
  proof (rule only_foldM)
    fix x b s1
    assume "x \<in> set (vm_compound vm)" and c: "cached s s1"
    then have "IsCompoundType s1 (fst x)" using cm by (simp add: cached_same)
    from only_satisfy_compound [OF this] show "only {} (satisfy_compound c x b) s1 (\<lambda>_ s'. cached s s')"
      by (rule only_mono) (use c in \<open>blast intro: cached_trans\<close>)
  qed simp
  then show ?thesis
    unfolding collect_satisfiable_types_def only_bnd
  proof (rule only_mono, goal_cases)
    case (1 r s1)
    obtain res types where r: "r = (res, types)" by (cases r)
    have fs: "\<forall>f\<in>set (map fst (vm_function vm)). GetFunctionType s1 f \<noteq> None" using fm by (simp add: cached_same [OF 1])
    note sat = calc_satisfiable_functions_spec_aux [OF fs, of types]
    show ?case
      unfolding r prod.case only_bnd only_gets sat
    proof (simp add: lift_result_def only_return, rule only_foldM)
      show "cached s s1" by (rule 1)
    next
      fix f b s2
      assume f: "f \<in> set (filter (callable s1 (fst ` set (vm_function vm)) types) (map fst (vm_function vm)))" and c: "cached s s2"
      then obtain func where "GetFunctionType s f = Some func" using fm by fastforce
      then show "only {} (satisfy_function f b) s2 (\<lambda>_. cached s)"
        using c by (simp add: satisfy_function_def only_simps cached_same [OF c])
    qed
  qed
qed

text \<open>The generator's own fields do not matter to the types and the scopes.\<close>

lemma generator_fields [simp]:
  "types_wf (s\<lparr>gen_counter := n\<rparr>) = types_wf s" "types_wf (s\<lparr>function_gen_counter := n\<rparr>) = types_wf s"
  "types_wf (s\<lparr>current_fix_scope := w\<rparr>) = types_wf s" "types_wf (s\<lparr>static_var_maps := vm\<rparr>) = types_wf s"
  "types_wf (s\<lparr>all_satisfiable_types := sat\<rparr>) = types_wf s"
  by (simp_all add: types_wf_def all_entries_def)

lemma generator_scopes [simp]:
  "scopes_wf (s\<lparr>gen_counter := n\<rparr>) = scopes_wf s" "scopes_wf (s\<lparr>function_gen_counter := n\<rparr>) = scopes_wf s"
  "scopes_wf (s\<lparr>current_fix_scope := w\<rparr>) = scopes_wf s" "scopes_wf (s\<lparr>static_var_maps := vm\<rparr>) = scopes_wf s"
  "scopes_wf (s\<lparr>all_satisfiable_types := sat\<rparr>) = scopes_wf s"
  by (simp_all add: scopes_wf_def scope_ids_def GetScopeById_def)

lemma generator_lookups [simp]:
  "GetCompoundType (s\<lparr>gen_counter := n\<rparr>) = GetCompoundType s" "GetCompoundType (s\<lparr>function_gen_counter := n\<rparr>) = GetCompoundType s"
  "GetCompoundType (s\<lparr>current_fix_scope := w\<rparr>) = GetCompoundType s" "GetCompoundType (s\<lparr>static_var_maps := vm\<rparr>) = GetCompoundType s"
  "GetCompoundType (s\<lparr>all_satisfiable_types := sat\<rparr>) = GetCompoundType s"
  "GetFunctionType (s\<lparr>static_var_maps := vm\<rparr>) = GetFunctionType s"
  by (simp_all add: fun_eq_iff GetCompoundType_def GetFunctionType_def)

text \<open>What generation needs of the types and scopes, and leaves as it was.\<close>

definition settled :: "umap \<times> nat \<Rightarrow> 'z scope_tree_scheme \<Rightarrow> bool" where
  "settled bs s \<longleftrightarrow> types_wf s \<and> members_ok s \<and> scopes_wf s \<and> kept s = bs"

lemma settled_fields:
  "settled bs (s\<lparr>rt_pos := 0, gen_counter := 0, function_gen_counter := 0\<rparr>) = settled bs s"
  "settled bs (s\<lparr>builtin_structure_type_cache := m\<rparr>) = settled bs s" "settled bs (s\<lparr>all_satisfiable_types := sat\<rparr>) = settled bs s"
  "settled bs (s\<lparr>static_var_maps := vm\<rparr>) = settled bs s"
  by (simp_all add: settled_def types_wf_def all_entries_def scopes_wf_def scope_ids_def GetScopeById_def
      members_ok_def GetCompoundType_def kept_def)

lemma quiet_settled: "quiet s s' \<Longrightarrow> settled bs s \<Longrightarrow> settled bs s'"
  unfolding quiet_def by (metis settled_fields(1))

lemma cached_settled: "cached s s' \<Longrightarrow> settled bs s \<Longrightarrow> settled bs s'"
  unfolding cached_def by (metis settled_fields(2))

text \<open>The first call of a new generator.\<close>

definition started :: "IR \<Rightarrow> 'z expression_generator_scheme \<Rightarrow> 'z expression_generator_scheme" where
  "started ir s = s\<lparr>gen_counter := 0, function_gen_counter := 0, current_fix_scope := ucast (ir_scope_id (ir_info ir)),
     static_var_maps := None, all_satisfiable_types := []\<rparr>"

lemma only_refresh_maps:
  assumes wf: "types_wf s" "members_ok s" "scopes_wf s" and ir: "ir \<noteq> NullIR" "ir_scope_id (ir_info ir) \<noteq> - 1"
  shows "only {} (bnd new_ExpressionGenerator (\<lambda>_. bnd (modify (\<lambda>s. s\<lparr>gen_counter := 0, function_gen_counter := 0\<rparr>))
      (\<lambda>_. refresh_maps c ir))) s (\<lambda>_ s'. gen_ok s' \<and> gen_counter s' = 0 \<and> settled (kept s) s')"
proof -
  let ?s = "started ir s" and ?bs = "kept s"
  let ?vm = "vars_in_scope ?s ir"
  let ?s1 = "?s\<lparr>static_var_maps := Some ?vm\<rparr>"
  have s: "types_wf ?s" "scopes_wf ?s" "GetCompoundType ?s = GetCompoundType s" using wf by (simp_all add: started_def)
  have H: "maps_hold ?s (in_scope_at ?s ir) ?vm" by (rule vars_in_scope_holds [OF s(2)])
  have kind: "of_kind ?s K (fst x)" if h: "holds (\<lambda>t n. of_kind ?s K t \<and> P t n) m" and x: "x \<in> set m" for K P m x
  proof -
    obtain n where "n \<in> set (snd x)" using h x unfolding holds_def by (cases "snd x") auto
    moreover have "om_get m (fst x) = Some (snd x)" using h x by (simp add: holds_def om_get_iff)
    ultimately have "n \<in> set (om_at [] m (fst x))" by (simp add: om_at_def)
    then show ?thesis using h by (simp add: holds_def)
  qed
  have cm: "\<forall>x\<in>set (vm_compound ?vm). IsCompoundType ?s (fst x)"
    using kind [of is_compound_type] H kind_lookup(2) [OF s(1)]
    unfolding maps_hold_def of_kind_def IsCompoundType_lookup by blast
  have fm: "\<forall>x\<in>set (vm_function ?vm). GetFunctionType ?s (fst x) \<noteq> None"
    using kind [of is_function_type] H kind_lookup(1) [OF s(1)]
    unfolding maps_hold_def of_kind_def by blast
  have other: "(scast (- 1 :: 32 word) :: 64 word) \<noteq> ir_scope_id (ir_info ir)"
    using ir(2) by simp
  have sat: "only {} (collect_satisfiable_types c ?vm) ?s1 (\<lambda>_ s'. cached ?s1 s')"
    by (rule only_collect_satisfiable) (use cm fm in \<open>simp_all add: IsCompoundType_lookup\<close>)
  have step: "bnd new_ExpressionGenerator (\<lambda>_. bnd (modify (\<lambda>s. s\<lparr>gen_counter := 0, function_gen_counter := 0\<rparr>))
      (\<lambda>_. refresh_maps c ir)) s =
      bnd (collect_satisfiable_types c ?vm) (\<lambda>sat. modify (\<lambda>s. s\<lparr>all_satisfiable_types := sat\<rparr>)) ?s1"
    using ir(1) other
    by (simp add: new_ExpressionGenerator_def refresh_maps_def bnd_def m_eval collect_all_apply started_def)
  have "only {} (bnd (collect_satisfiable_types c ?vm) (\<lambda>sat. modify (\<lambda>s. s\<lparr>all_satisfiable_types := sat\<rparr>))) ?s1
      (\<lambda>_ s'. gen_ok s' \<and> gen_counter s' = 0 \<and> settled (kept s) s')"
    unfolding only_bnd only_modify
  proof (rule only_mono [OF sat], goal_cases)
    case (1 r s')
    have "settled ?bs ?s1" using s wf(2) by (simp add: settled_fields) (simp add: settled_def members_ok_def started_def kept_def)
    then have "settled ?bs s'" by (rule cached_settled [OF 1])
    then have "settled ?bs (s'\<lparr>all_satisfiable_types := r\<rparr>)" by (simp add: settled_fields)
    then show ?case using cm wf(2)
      by (simp add: gen_ok_def members_ok_def cached_same [OF 1] s(3) IsCompoundType_lookup) (simp add: started_def)
  qed
  then show ?thesis by (simp only: only_def step)
qed

lemma only_GenerateExpression:
  fixes s :: "'z expression_generator_scheme"
  assumes "IsWeakType c" and "types_wf s" and "members_ok s" and "scopes_wf s"
    and "ir \<noteq> NullIR" and "ir_scope_id (ir_info ir) \<noteq> - 1"
  shows "only {Assert_failed} (bnd new_ExpressionGenerator (\<lambda>_. GenerateExpression c ir type)) s (\<lambda>r s'. r \<noteq> [] \<and> settled (kept s) s')"
proof -
  let ?bs = "kept s"
  let ?s = "s\<lparr>current_fix_scope := - 1, gen_counter := 0, function_gen_counter := 0\<rparr>"
  note good = good_core [OF assms(1), of 51 ir]
  have refreshed: "only {Assert_failed} (refresh_maps c ir) ?s (\<lambda>_ s'. gen_ok s' \<and> gen_counter s' = 0 \<and> settled (kept s) s')"
    using only_refresh_maps [OF assms(2-6), of c]
    by (simp add: only_simps new_ExpressionGenerator_def) (auto simp: only_def split: sum.splits)
  have rest: "only {Assert_failed} (generate_rest c (generate_expression_by_type_core 51 c ir) type) s1 (\<lambda>_. settled ?bs)"
    if "gen_ok s1" "gen_counter s1 = 0" "settled ?bs s1" for s1
    by (rule only_mono [OF only_generate_rest [OF good that(1)]]) (use that in \<open>auto intro: quiet_settled\<close>)
  have first: "generate_expression_by_type_core 52 c ir type = (generate_step c (generate_expression_by_type_core 51 c ir) type ir
      :: ('z expression_generator_scheme, string) M)"
    using generate_expression_by_type_core.simps(2) [of 51] by simp
  show ?thesis
    using refreshed
    by (simp add: first GenerateExpression_def generate_expression_by_type_def new_ExpressionGenerator_def only_simps
        generate_step_weak [OF assms(1)])
      (erule only_mono, auto simp: only_simps intro!: only_mono [OF rest])
qed

text \<open>C17: in a weakly typed language, generating an expression for any node of a well-formed program
  ends within the nesting the counter allows, returns a non-empty text or stops at one of the
  generator's own assertions; no lookup fails, no list to pick from is empty, and no search
  through compound types runs forever, cyclic ones included.\<close>

theorem GenerateExpression_ends:
  fixes s :: "'z expression_generator_scheme"
  assumes "IsWeakType c" and "types_wf s" and "members_ok s" and "scopes_wf s"
    and "ir \<noteq> NullIR" and "ir_scope_id (ir_info ir) \<noteq> - 1"
  shows "only {Assert_failed} (bnd new_ExpressionGenerator (\<lambda>_. GenerateExpression c ir type)) s (\<lambda>r s'. r \<noteq> [])"
  by (rule only_mono [OF only_GenerateExpression [OF assms]]) simp

section \<open>Where generation aborts\<close>

lemma vars_in_scope_started: "vars_in_scope (started ir s) ir = vars_in_scope s ir"
proof -
  have l: "GetTypePtrByID (started ir s) = GetTypePtrByID s" "GetScopeById (started ir s) = GetScopeById s"
    "scope_id_map (started ir s) = scope_id_map s"
    by (simp_all add: fun_eq_iff GetTypePtrByID_def GetScopeById_def started_def)
  then have "collect_entry (started ir s) = collect_entry s" by (simp add: collect_entry_def fun_eq_iff)
  moreover have "scope_chain n (started ir s) = scope_chain n s" for n
    by (induction n) (simp_all add: fun_eq_iff l split: option.split)
  ultimately show ?thesis by (simp add: vars_in_scope_def l)
qed

lemma variable_not_callable:
  assumes "types_wf s" and "of_kind s is_variable_type t"
  shows "\<not> IsFunctionType s t" and "\<not> IsCompoundType s t"
proof -
  obtain v where v: "GetTypePtrByID s t = Some v" "is_variable_type v" using assms(2) by (auto simp: of_kind_def)
  have False if "map_of m t = Some w" "set m \<subseteq> set (all_entries s)" "\<not> is_variable_type w" for m w
    using table_lookup [OF assms(1) that(1,2)] v that(3) by simp
  note no = this
  show "\<not> IsFunctionType s t"
  proof
    assume "IsFunctionType s t"
    then obtain m w where m: "m \<in> {s_builted_function_types s, function_types s}" "map_of m t = Some w"
      by (auto simp: IsFunctionType_def has_key_def)
    then have "is_function_type w" using types_wfD(7) [OF assms(1), of t w] map_of_SomeD by fastforce
    then show False using no [OF m(2)] m(1) by (auto simp: all_entries_def is_variable_type_def)
  qed
  show "\<not> IsCompoundType s t"
  proof
    assume "IsCompoundType s t"
    then obtain m w where m: "m \<in> {s_builted_compound_types s, compound_types s}" "map_of m t = Some w"
      by (auto simp: IsCompoundType_def has_key_def)
    then have "is_compound_type w" using types_wfD(6) [OF assms(1), of t w] map_of_SomeD by fastforce
    then show False using no [OF m(2)] m(1) by (auto simp: all_entries_def is_variable_type_def)
  qed
qed

text \<open>The only variable in scope: the maps and the satisfiable types of the first call, and the pick of it.\<close>

definition one_variable :: "TypeID \<Rightarrow> string \<Rightarrow> var_maps" where
  "one_variable t v = \<lparr>vm_simple = [(t, [v])], vm_compound = [], vm_function = [], vm_pointer = []\<rparr>"

definition with_one_variable :: "IR \<Rightarrow> TypeID \<Rightarrow> string \<Rightarrow> 'z expression_generator_scheme \<Rightarrow> 'z expression_generator_scheme" where
  "with_one_variable ir t v s = started ir s\<lparr>static_var_maps := Some (one_variable t v), all_satisfiable_types :=
     [(t, \<lparr>simple_var_idx = {t}, structure_idx = {}, function_call_idx = {}\<rparr>)]\<rparr>"

lemma with_one_variable_fields [simp]:
  "static_var_maps (with_one_variable ir t v s) = Some (one_variable t v)"
  "all_satisfiable_types (with_one_variable ir t v s) = [(t, \<lparr>simple_var_idx = {t}, structure_idx = {}, function_call_idx = {}\<rparr>)]"
  "gen_counter (with_one_variable ir t v s) = 0" "function_gen_counter (with_one_variable ir t v s) = 0"
  "rt_pos (with_one_variable ir t v s) = rt_pos s" "rt_rand (with_one_variable ir t v s) = rt_rand s"
  "IsFunctionType (with_one_variable ir t v s) = IsFunctionType s" "IsCompoundType (with_one_variable ir t v s) = IsCompoundType s"
  by (simp_all add: fun_eq_iff with_one_variable_def started_def IsFunctionType_def IsCompoundType_def)

lemma refresh_one_variable:
  assumes "ir \<noteq> NullIR" and "ir_scope_id (ir_info ir) \<noteq> - 1" and "vars_in_scope s ir = one_variable t v"
  shows "refresh_maps c ir (s\<lparr>current_fix_scope := - 1, gen_counter := 0, function_gen_counter := 0\<rparr>) =
    Inr ((), with_one_variable ir t v s)"
proof -
  have other: "(scast (- 1 :: 32 word) :: 64 word) \<noteq> ir_scope_id (ir_info ir)" using assms(2) by simp
  have sat: "collect_satisfiable_types c (one_variable t v) s1 =
      Inr ([(t, \<lparr>simple_var_idx = {t}, structure_idx = {}, function_call_idx = {}\<rparr>)], s1)"
    for s1 :: "'a expression_generator_scheme"
    by (simp add: one_variable_def collect_satisfiable_types_def bnd_def m_eval satisfy_simple_def add_handler_def om_at_def
        no_handlers_def calc_satisfiable_functions_def satisfy_loop.simps [of s1 "[]"])
  show ?thesis
    using assms(1) other vars_in_scope_started [of ir s]
    by (simp add: refresh_maps_def bnd_def m_eval collect_all_apply sat assms(3) started_def with_one_variable_def)
qed

lemma random_pick_one: "random_pick [x] s = Inr (x, s\<lparr>rt_pos := Suc (rt_pos s)\<rparr>)"
  by (simp add: random_pick_def get_rand_int_apply bnd_def m_eval)

lemma generate_one_variable:
  fixes s :: "'z expression_generator_scheme" and go :: "TypeID \<Rightarrow> ('z expression_generator_scheme, string) M"
  assumes "\<not> IsFunctionType s t" and "\<not> IsCompoundType s t"
    and "refresh_maps c ir (s\<lparr>current_fix_scope := - 1, gen_counter := 0, function_gen_counter := 0\<rparr>) = Inr ((), with_one_variable ir t v s)"
  shows "generate_step c go kAllTypes ir (s\<lparr>current_fix_scope := - 1, gen_counter := 0, function_gen_counter := 0\<rparr>) =
    (if rt_rand s (Suc (rt_pos s)) mod 2 ^ 31 mod 64 < 2 then Inl Assert_failed
     else Inr (v, with_one_variable ir t v s\<lparr>gen_counter := 1, rt_pos := rt_pos s + 3\<rparr>))"
proof -
  let ?s = "with_one_variable ir t v s"
  let ?s1 = "?s\<lparr>gen_counter := 1, rt_pos := Suc (rt_pos s)\<rparr>"
  have t: "\<not> IsFunctionType ?s1 t" "\<not> IsCompoundType ?s1 t"
    using assms(1,2) by (simp_all add: IsFunctionType_def IsCompoundType_def with_one_variable_def started_def)
  have choose: "choose_type kAllTypes (?s\<lparr>gen_counter := 1\<rparr>) = Inr (t, ?s1)"
    using t by (simp add: choose_type_def bnd_def m_eval random_pick_one)
  have w: "weights False (Suc 0) 0 0 0 (Suc 0) = (2, 0, 0, 64)" by (simp add: weights_def Let_def)
  have draw: "get_rand_int 64 ?s1 = Inr (rt_rand s (Suc (rt_pos s)) mod 2 ^ 31 mod 64, ?s1\<lparr>rt_pos := Suc (Suc (rt_pos s))\<rparr>)"
    by (simp add: get_rand_int_apply)
  have "generate_of_type c go t [(t, [v])] [] [] ?s1 =
      (if rt_rand s (Suc (rt_pos s)) mod 2 ^ 31 mod 64 < 2 then Inl Assert_failed else Inr (v, ?s1\<lparr>rt_pos := rt_pos s + 3\<rparr>))"
    using t draw
    by (simp add: generate_of_type_def bnd_def m_eval om_get_def filter_element_def w make_choice_def om_at_def random_pick_one
        numeral_3_eq_3)
  then show ?thesis
    using choose assms(3) by (simp add: generate_step_def bnd_def m_eval one_variable_def)
qed

text \<open>C20: with one variable in scope, the expression for it is its name, except when one of the first
  two of 64 random choices falls on the operator expressions that the code no longer generates:
  there \<open>assert(false)\<close> stops the program.\<close>

theorem GenerateExpression_one_variable:
  fixes s :: "'z expression_generator_scheme"
  assumes "types_wf s" and "ir \<noteq> NullIR" and "ir_scope_id (ir_info ir) \<noteq> - 1" and "v \<noteq> []"
    and "vars_in_scope s ir = \<lparr>vm_simple = [(t, [v])], vm_compound = [], vm_function = [], vm_pointer = []\<rparr>"
    and "of_kind s is_variable_type t"
  shows "if rt_rand s (Suc (rt_pos s)) mod 2 ^ 31 mod 64 < 2
    then bnd new_ExpressionGenerator (\<lambda>_. GenerateExpression c ir kAllTypes) s = Inl Assert_failed
    else \<exists>s'. bnd new_ExpressionGenerator (\<lambda>_. GenerateExpression c ir kAllTypes) s = Inr (v, s')"
proof -
  let ?s = "s\<lparr>current_fix_scope := - 1, gen_counter := 0, function_gen_counter := 0\<rparr>"
  let ?go = "generate_expression_by_type_core 51 c ir :: TypeID \<Rightarrow> ('z expression_generator_scheme, string) M"
  note refresh = refresh_one_variable [OF assms(2,3) assms(5) [folded one_variable_def], of c]
  note made = generate_one_variable [OF variable_not_callable [OF assms(1,6)] refresh, of ?go]
  have first: "generate_expression_by_type_core 52 c ir kAllTypes = generate_step c ?go kAllTypes ir"
    using generate_expression_by_type_core.simps(2) [of 51] by simp
  have "bnd new_ExpressionGenerator (\<lambda>_. GenerateExpression c ir kAllTypes) s =
      (case generate_step c ?go kAllTypes ir ?s of
         Inl e \<Rightarrow> Inl e | Inr (res, s') \<Rightarrow> if res \<noteq> [] then Inr (res, s') else Inl Assert_failed)"
    by (simp add: new_ExpressionGenerator_def GenerateExpression_def generate_expression_by_type_def first bnd_def m_eval
        split: sum.split prod.split)
  then show ?thesis using assms(4) unfolding made by simp
qed

section \<open>Witnesses\<close>

lemma demo_generator_members: "members_ok demo_generator"
  by (simp add: members_ok_def demo_generator_def scope_tree.defs GetCompoundType_def demo_tree_def first_scope_def
      constructed_def with_specials_def with_basics_def Let_def with_builtin_def demo_configuration_def GetBasicTypeStr_def
      new_basic_def demo_scopes_def type_system.defs demo_statics_def has_key_def)

lemma GenerateExpression_ends_witness:
  "only {Assert_failed} (bnd new_ExpressionGenerator (\<lambda>_. GenerateExpression demo_configuration demo_place kAllTypes))
     demo_generator (\<lambda>r s'. r \<noteq> [])"
  by (rule GenerateExpression_ends [OF _ demo_generator_wf(1) demo_generator_members demo_generator_wf(2)])
    (simp_all add: demo_configuration_def IsWeakType_def demo_place_def node_info_def)

lemma GenerateExpression_one_variable_witness:
  "bnd new_ExpressionGenerator (\<lambda>_. GenerateExpression demo_configuration demo_place kAllTypes) demo_generator = Inl Assert_failed"
proof -
  have "of_kind demo_generator is_variable_type 10"
    by (simp add: of_kind_def demo_generator_int make_basic_type_def is_variable_type_def is_function_type_def is_compound_type_def)
  moreover have "rt_rand demo_generator (Suc (rt_pos demo_generator)) = 1"
    by (simp add: demo_generator_def scope_tree.defs demo_tree_def first_scope_def constructed_def with_specials_def
        with_basics_def Let_def with_builtin_def demo_configuration_def GetBasicTypeStr_def new_basic_def demo_scopes_def
        type_system.defs demo_statics_def)
  ultimately show ?thesis
    using GenerateExpression_one_variable [OF demo_generator_wf(1) _ _ _ demo_vars, of demo_configuration]
    by (simp add: demo_place_def node_info_def)
qed

end
