(* ===== verification/Semantic_Validator.thy ===== *)
theory Semantic_Validator
  imports Frontend Mutator Generation_Ends
begin

text \<open>
  The class \<open>SemanticValidator\<close> of \<open>srcs/internal/srcs/typesystem.cpp\<close>: it marks the places of a
  program that need an expression, builds the scopes and symbol tables, and fills every place. A
  pointer to a node is the node it was taken from; \<open>pointee\<close> reads it in the program as it is
  now, \<open>update_at\<close> stores through it. The scope tree object that \<open>BuildTree\<close> makes is part of the
  state. The results: what marking does, that the selection lists the marked places in preorder,
  that a validation which returns has filled exactly these places, and where it can stop instead.
\<close>

section \<open>The validator\<close>

datatype ValidationError = kSuccess | kUnparseable | kNoSymbolToUse

record fix_decision =
  fix_ir :: IR
  fix_type :: IRTYPE

definition pointee :: "IR \<Rightarrow> IR \<Rightarrow> IR" where
  "pointee p program = (case find (\<lambda>u. ir_addr u = ir_addr p) (subtrees program) of None \<Rightarrow> NullIR | Some u \<Rightarrow> u)"

text \<open>A fix unit is replaced by a \<open>FIXME\<close> leaf with its scope and statement.\<close>

definition mark_fix_unit :: "IR \<Rightarrow> ('z runtime_scheme, IR) M" where
  "mark_fix_unit ir =
     bnd (new_data_IR GetUnknownType (StringData ''FIXME'')) (\<lambda>n.
     return (SetStatementID (ir_statement_id (ir_info ir)) (SetScopeID (ir_scope_id (ir_info ir)) n)))"

fun MarkFixMe :: "IR \<Rightarrow> ('z runtime_scheme, IR) M" where
  "MarkFixMe NullIR = throw Null_dereference"
| "MarkFixMe (Node a i l r) =
     bnd (if l = NullIR then return NullIR
          else if ir_data_type (ir_info l) = kFixUnit then (if NeedFixing l then mark_fix_unit l else return l)
          else MarkFixMe l) (\<lambda>l'.
     bnd (if r = NullIR then return NullIR
          else if ir_data_type (ir_info r) = kFixUnit then (if NeedFixing r then mark_fix_unit r else return r)
          else MarkFixMe r) (\<lambda>r'.
     return (Node a i l' r')))"

text \<open>The loop over the stack, top first.\<close>

function select_loop :: "IR list \<Rightarrow> fix_decision list \<Rightarrow> error + fix_decision list" where
  "select_loop [] res = Inr res"
| "select_loop (NullIR # stk) res = Inl Null_dereference"
| "select_loop (Node a i l r # stk) res =
     (if is_fixme i
      then select_loop stk (res @ [\<lparr>fix_ir = Node a i l r, fix_type = word_of_int kAllTypes\<rparr>])
      else
        let stk = (if r \<noteq> NullIR then r # stk else stk);
            stk = (if l \<noteq> NullIR then l # stk else stk)
        in select_loop stk res)"
  by pat_completeness auto
termination
  by (relation "measure (\<lambda>(stk, _). sum_list (map ir_size stk))") auto

definition SelectFixStrategy :: "IR \<Rightarrow> error + fix_decision list" where
  "SelectFixStrategy root = select_loop [root] []"

definition BuildScopeTreeWithSymbolTable ::
  "configuration \<Rightarrow> (TypeID list \<Rightarrow> TypeID list) \<Rightarrow> (64 word \<Rightarrow> string) \<Rightarrow> IR \<Rightarrow> ('z scope_tree_scheme, IR) M" where
  "BuildScopeTreeWithSymbolTable c ord fd root =
     bnd (BuildTree c root) (\<lambda>root. bnd (BuildSymbolTables c ord fd root) (\<lambda>_. return root))"

definition ApplyFix :: "configuration \<Rightarrow> IR \<Rightarrow> TypeID \<Rightarrow> IR \<Rightarrow> ('z expression_generator_scheme, bool \<times> IR) M" where
  "ApplyFix c p type program =
     (case pointee p program of
        NullIR \<Rightarrow> throw Null_dereference
      | Node a i l r \<Rightarrow>
          bnd (require Assert_failed (is_fixme i)) (\<lambda>_.
          bnd new_ExpressionGenerator (\<lambda>_.
          bnd (GenerateExpression c (Node a i l r) type) (\<lambda>e.
          return (True, update_at a (SetString e) program)))))"

primrec apply_fixes ::
  "configuration \<Rightarrow> fix_decision list \<Rightarrow> IR \<Rightarrow> ('z expression_generator_scheme, ValidationError \<times> IR) M" where
  "apply_fixes c [] root = return (kSuccess, root)"
| "apply_fixes c (d # ds) root =
     bnd (ApplyFix c (fix_ir d) (sint (fix_type d)) root) (\<lambda>(applied, root).
     if \<not> applied then return (kNoSymbolToUse, root) else apply_fixes c ds root)"

definition Validate ::
  "configuration \<Rightarrow> (TypeID list \<Rightarrow> TypeID list) \<Rightarrow> (64 word \<Rightarrow> string) \<Rightarrow> IR
     \<Rightarrow> ('z expression_generator_scheme, ValidationError \<times> IR) M" where
  "Validate c ord fd root =
     bnd (MarkFixMe root) (\<lambda>root.
     bnd (BuildScopeTreeWithSymbolTable c ord fd root) (\<lambda>root.
     bnd (lift_result (SelectFixStrategy root)) (\<lambda>fix_decisions.
     apply_fixes c fix_decisions root)))"

section \<open>Marking\<close>

definition is_fix_unit :: "IR \<Rightarrow> bool" where
  "is_fix_unit t \<longleftrightarrow> t \<noteq> NullIR \<and> ir_data_type (ir_info t) = kFixUnit"

definition fixme_info :: "IRInfo \<Rightarrow> IRInfo" where
  "fixme_info i = \<lparr>ir_type = GetUnknownType, ir_op = None, ir_scope_type = kScopeDefault, ir_scope_id = ir_scope_id i,
     ir_data_type = kDataDefault, ir_statement_id = ir_statement_id i, ir_data = StringData ''FIXME''\<rparr>"

text \<open>\<open>marked t t'\<close>: the outermost fix units below the root that need fixing are \<open>FIXME\<close> leaves in
  \<open>t'\<close>, everything else is as it was.\<close>

fun marked :: "IR \<Rightarrow> IR \<Rightarrow> bool" where
  "marked NullIR t = (t = NullIR)"
| "marked (Node a i l r) t =
     (case t of
        NullIR \<Rightarrow> False
      | Node b j l' r' \<Rightarrow> b = a \<and> j = i \<and>
          (if is_fix_unit l
           then (if NeedFixing l then l' = Node (ir_addr l') (fixme_info (ir_info l)) NullIR NullIR else l' = l)
           else marked l l') \<and>
          (if is_fix_unit r
           then (if NeedFixing r then r' = Node (ir_addr r') (fixme_info (ir_info r)) NullIR NullIR else r' = r)
           else marked r r'))"

lemma mark_fix_unit_apply:
  "mark_fix_unit ir s = Inr (Node (rt_next s) (fixme_info (ir_info ir)) NullIR NullIR,
     s\<lparr>rt_next := Suc (rt_next s), rt_id_counter := rt_id_counter s + 1\<rparr>)"
  by (simp add: mark_fix_unit_def new_data_IR_def new_addr_def GEN_NAME_def bnd_def m_eval SetStatementID_def
      SetScopeID_def fixme_info_def)

text \<open>Old nodes are kept or dropped, new ones are fresh.\<close>

definition refreshed :: "'z runtime_scheme \<Rightarrow> IR \<Rightarrow> 'z runtime_scheme \<Rightarrow> IR \<Rightarrow> bool" where
  "refreshed s t s' t' \<longleftrightarrow> alloc_only s s' \<and>
     set (addrs t') \<subseteq> set (addrs t) \<union> {rt_next s ..< rt_next s'} \<and>
     (unshared t \<and> (\<forall>a\<in>set (addrs t). a < rt_next s) \<longrightarrow> unshared t')"

lemma refreshed_refl [simp]: "refreshed s t s t"
  by (simp add: refreshed_def)

lemma refreshed_mark:
  "refreshed s t (s\<lparr>rt_next := Suc (rt_next s), rt_id_counter := rt_id_counter s + 1\<rparr>) (Node (rt_next s) i NullIR NullIR)"
  by (simp add: refreshed_def alloc_only_def unshared_def)

lemma refreshed_Node:
  assumes "refreshed s l s1 l'" and "refreshed s1 r s' r'"
  shows "refreshed s (Node a i l r) s' (Node a i l' r')"
proof -
  have n: "rt_next s \<le> rt_next s1" "rt_next s1 \<le> rt_next s'" and alloc: "alloc_only s s'"
    using assms by (auto simp: refreshed_def alloc_only_def)
  have L: "x \<in> set (addrs l) \<or> rt_next s \<le> x \<and> x < rt_next s1" if "x \<in> set (addrs l')" for x
    using assms(1) that by (auto simp: refreshed_def)
  have R: "x \<in> set (addrs r) \<or> rt_next s1 \<le> x \<and> x < rt_next s'" if "x \<in> set (addrs r')" for x
    using assms(2) that by (auto simp: refreshed_def)
  have "unshared (Node a i l' r')"
    if u: "unshared (Node a i l r)" and old: "\<forall>b\<in>set (addrs (Node a i l r)). b < rt_next s"
  proof -
    have o: "b < rt_next s" if "b = a \<or> b \<in> set (addrs l) \<or> b \<in> set (addrs r)" for b using old that by auto
    have "\<forall>b\<in>set (addrs r). b < rt_next s1" using o n(1) by (auto intro: less_le_trans)
    then have "unshared l'" "unshared r'"
      using assms u o unfolding refreshed_def unshared_Node by simp_all
    moreover have "x \<notin> set (addrs r')" if "x \<in> set (addrs l')" for x
    proof
      assume "x \<in> set (addrs r')"
      moreover have "x \<notin> set (addrs l) \<or> x \<notin> set (addrs r)" using u by (auto simp: unshared_Node)
      ultimately show False using L [OF that] R [of x] o [of x] n(1) by auto
    qed
    moreover have "a \<notin> set (addrs l')" "a \<notin> set (addrs r')"
      using L [of a] R [of a] o [of a] n(1) u by (auto simp: unshared_Node)
    ultimately show ?thesis by (auto simp: unshared_Node)
  qed
  moreover have "set (addrs (Node a i l' r')) \<subseteq> set (addrs (Node a i l r)) \<union> {rt_next s ..< rt_next s'}"
    using L R n by fastforce
  ultimately show ?thesis using alloc unfolding refreshed_def by blast
qed

lemma ok_MarkFixMe:
  "t \<noteq> NullIR \<Longrightarrow> ok (MarkFixMe t) s (\<lambda>t' s'. marked t t' \<and> refreshed s t s' t')"
proof (induction t arbitrary: s)
  case NullIR
  then show ?case by simp
next
  case (Node a i l r)
  let ?child = "\<lambda>c. if c = NullIR then return NullIR
      else if ir_data_type (ir_info c) = kFixUnit then (if NeedFixing c then mark_fix_unit c else return c) else MarkFixMe c"
  let ?good = "\<lambda>c c'. if is_fix_unit c
      then (if NeedFixing c then c' = Node (ir_addr c') (fixme_info (ir_info c)) NullIR NullIR else c' = c) else marked c c'"
  have child: "ok (?child c) s (\<lambda>c' s'. ?good c c' \<and> refreshed s c s' c')"
    if "c \<noteq> NullIR \<Longrightarrow> ok (MarkFixMe c) s (\<lambda>c' s'. marked c c' \<and> refreshed s c s' c')" for c and s :: "'a runtime_scheme"
  proof (cases "c = NullIR")
    case True
    then show ?thesis by (simp add: ok_return is_fix_unit_def)
  next
    case False
    then show ?thesis
      using that by (auto simp: is_fix_unit_def ok_def [of "mark_fix_unit c"] mark_fix_unit_apply refreshed_mark ok_return)
  qed
  show ?case
    unfolding MarkFixMe.simps ok_bnd
  proof (rule ok_mono [OF child [OF Node.IH(1)]], assumption, rule ok_mono [OF child [OF Node.IH(2)]], assumption, goal_cases)
    case (1 l' s1 r' s2)
    then show ?case using refreshed_Node [of s l s1 l' r s2 r' a i] by (simp add: ok_return)
  qed
qed

lemma marked_Null [simp]: "marked t NullIR \<longleftrightarrow> t = NullIR"
  by (cases t) auto

lemma marked_root: "marked (Node a i l r) t \<Longrightarrow> \<exists>l' r'. t = Node a i l' r'"
  by (cases t) auto

lemma marked_NeedFixing: "marked t t' \<Longrightarrow> NeedFixing t' = NeedFixing t"
proof (induction t arbitrary: t')
  case NullIR
  then show ?case by simp
next
  case (Node a i l r)
  obtain l' r' where t': "t' = Node a i l' r'" using marked_root [OF Node.prems] by blast
  have leaf: "NeedFixing (Node b (fixme_info j) NullIR NullIR)" for b j by (simp add: is_fixme_def fixme_info_def)
  have L: "NeedFixing l' = NeedFixing l \<and> (l' = NullIR \<longleftrightarrow> l = NullIR)"
    using Node.prems Node.IH(1) leaf unfolding t' is_fix_unit_def
    by (cases "is_fix_unit l") (auto simp: is_fix_unit_def split: if_splits, (metis IR.distinct(1) leaf)+)
  have R: "NeedFixing r' = NeedFixing r \<and> (r' = NullIR \<longleftrightarrow> r = NullIR)"
    using Node.prems Node.IH(2) leaf unfolding t' is_fix_unit_def
    by (cases "is_fix_unit r") (auto simp: is_fix_unit_def split: if_splits, (metis IR.distinct(1) leaf)+)
  show ?case using L R unfolding t' by simp
qed


lemma NeedFixing_subtree: "u \<in> set (subtrees t) \<Longrightarrow> NeedFixing u \<Longrightarrow> NeedFixing t"
  unfolding NeedFixing_iff using subtree_trans by blast

lemma marked_fix_units:
  "marked t t' \<Longrightarrow> u \<in> set (subtrees (LeftChild t')) \<union> set (subtrees (RightChild t')) \<Longrightarrow> is_fix_unit u \<Longrightarrow> \<not> NeedFixing u"
proof (induction t arbitrary: t' u)
  case NullIR
  then show ?case by simp
next
  case (Node a i l r)
  obtain l' r' where t': "t' = Node a i l' r'" using marked_root [OF Node.prems(1)] by blast
  have child: "\<not> NeedFixing u"
    if c: "if is_fix_unit c then (if NeedFixing c then c' = Node (ir_addr c') (fixme_info (ir_info c)) NullIR NullIR else c' = c)
        else marked c c'"
      and IH: "marked c c' \<Longrightarrow> u \<in> set (subtrees (LeftChild c')) \<union> set (subtrees (RightChild c')) \<Longrightarrow> is_fix_unit u \<Longrightarrow> \<not> NeedFixing u"
      and u: "u \<in> set (subtrees c')" for c c'
  proof (cases "is_fix_unit c")
    case True
    show ?thesis
    proof (cases "NeedFixing c")
      case True
      then obtain b where "c' = Node b (fixme_info (ir_info c)) NullIR NullIR" using c \<open>is_fix_unit c\<close> by (metis (full_types))
      then show ?thesis using u Node.prems(3) by (auto simp: is_fix_unit_def fixme_info_def)
    next
      case False
      then show ?thesis using c \<open>is_fix_unit c\<close> u NeedFixing_subtree by auto
    qed
  next
    case False
    then have m: "marked c c'" using c by simp
    have "u \<noteq> c'"
    proof
      assume "u = c'"
      moreover have "c' = NullIR \<or> ir_info c' = ir_info c \<and> c \<noteq> NullIR" using m by (cases c; cases c') auto
      ultimately show False using Node.prems(3) False by (auto simp: is_fix_unit_def)
    qed
    then have "u \<in> set (subtrees (LeftChild c')) \<union> set (subtrees (RightChild c'))" using u by (cases c') auto
    then show ?thesis using IH m Node.prems(3) by blast
  qed
  have "u \<in> set (subtrees l') \<or> u \<in> set (subtrees r')" using Node.prems(2) t' by simp
  then show ?case
    using child [of l l'] child [of r r'] Node.IH Node.prems(1) unfolding t' marked.simps IR.case by blast
qed

section \<open>Selection\<close>

text \<open>The places to fix, in preorder; none lies below another.\<close>

fun fix_places :: "IR \<Rightarrow> IR list" where
  "fix_places NullIR = []"
| "fix_places (Node a i l r) = (if is_fixme i then [Node a i l r] else fix_places l @ fix_places r)"

definition decide_all_types :: "IR \<Rightarrow> fix_decision" where
  "decide_all_types u = \<lparr>fix_ir = u, fix_type = word_of_int kAllTypes\<rparr>"

lemma select_loop_spec:
  "NullIR \<notin> set stk \<Longrightarrow> select_loop stk res = Inr (res @ map decide_all_types (concat (map fix_places stk)))"
  by (induction stk res rule: select_loop.induct) (auto simp: decide_all_types_def Let_def)

lemma fix_places_subtrees: "set (fix_places t) \<subseteq> {u \<in> set (subtrees t). is_fixme (ir_info u)}"
  by (induction t) auto

section \<open>Scopes and texts\<close>

definition same_but_scope :: "IRInfo \<Rightarrow> IRInfo \<Rightarrow> bool" where
  "same_but_scope i j \<longleftrightarrow> j = i\<lparr>ir_scope_id := ir_scope_id j\<rparr>"

fun scoped :: "IR \<Rightarrow> IR \<Rightarrow> bool" where
  "scoped NullIR t = (t = NullIR)"
| "scoped (Node a i l r) t =
     (case t of NullIR \<Rightarrow> False | Node b j l' r' \<Rightarrow> b = a \<and> same_but_scope i j \<and> scoped l l' \<and> scoped r r')"

lemma post_BuildScopeTreeImpl: "post (BuildScopeTreeImpl t) s (\<lambda>t' _. scoped t t')"
proof (induction t arbitrary: s)
  case NullIR
  then show ?case by (simp add: post_return)
next
  case (Node a i l r)
  have i: "same_but_scope i (case cur of None \<Rightarrow> i | Some sid \<Rightarrow> i\<lparr>ir_scope_id := sid\<rparr>)" for cur
    by (cases cur) (simp_all add: same_but_scope_def)
  show ?case
    unfolding BuildScopeTreeImpl.simps post_bnd post_gets post_return
    by (rule post_mono [of _ _ "\<lambda>_ _. True"], simp add: post_def split: sum.split,
        rule post_mono [OF Node.IH(1)], rule post_mono [OF Node.IH(2)],
        rule post_mono [of _ _ "\<lambda>_ _. True"], simp add: post_def split: sum.split, simp add: i)
qed

lemma post_BuildTree: "post (BuildTree c t) s (\<lambda>t' _. scoped t t')"
  unfolding BuildTree_def post_bnd
  by (rule post_mono [of _ _ "\<lambda>_ _. True"], simp add: post_def split: sum.split, rule post_BuildScopeTreeImpl)

text \<open>Texts stored at some addresses.\<close>

fun fill_in :: "(nat \<Rightarrow> string option) \<Rightarrow> IR \<Rightarrow> IR" where
  "fill_in f NullIR = NullIR"
| "fill_in f (Node a i l r) =
     Node a (case f a of None \<Rightarrow> i | Some e \<Rightarrow> i\<lparr>ir_data := StringData e\<rparr>) (fill_in f l) (fill_in f r)"

lemma fill_in_empty [simp]: "fill_in Map.empty t = t"
  by (induction t) simp_all

lemma fill_in_update: "update_at a (SetString e) (fill_in f t) = fill_in (f(a \<mapsto> e)) t"
  by (induction t) (auto simp: SetString_def Let_def split: option.split)

lemma post_GenerateExpression: "post (GenerateExpression c ir type) s (\<lambda>e _. e \<noteq> [])"
  unfolding GenerateExpression_def generate_expression_by_type_def post_bnd post_require post_return
  by (simp add: post_def split: sum.split)

lemma pointee_addr: "pointee p t = Node a i l r \<Longrightarrow> a = ir_addr p"
  unfolding pointee_def find_Some_iff [symmetric]
  by (auto simp: find_Some_iff split: option.splits) (metis IR.sel(1))

lemma post_ApplyFix:
  "post (ApplyFix c p type (fill_in f u)) s (\<lambda>(b, t') _. b \<and> (\<exists>e. e \<noteq> [] \<and> t' = fill_in (f(ir_addr p \<mapsto> e)) u))"
proof (cases "pointee p (fill_in f u)")
  case NullIR
  then show ?thesis by (simp add: ApplyFix_def post_throw)
next
  case (Node a i l r)
  note a = pointee_addr [OF Node]
  show ?thesis
    unfolding ApplyFix_def Node IR.case post_bnd post_require
    by (intro impI, rule post_mono [of _ _ "\<lambda>_ _. True"], simp add: post_def split: sum.split,
        rule post_mono [OF post_GenerateExpression]) (auto simp: post_return a fill_in_update)
qed

lemma post_apply_fixes:
  "[] \<notin> ran f \<Longrightarrow> post (apply_fixes c ds (fill_in f u)) s (\<lambda>(r, t') _. r = kSuccess \<and>
     (\<exists>g. t' = fill_in g u \<and> dom g = dom f \<union> ir_addr ` fix_ir ` set ds \<and> [] \<notin> ran g))"
proof (induction ds arbitrary: f s)
  case Nil
  then show ?case by (auto simp: post_return)
next
  case (Cons d ds)
  show ?case
    unfolding apply_fixes.simps post_bnd
  proof (rule post_mono [OF post_ApplyFix], goal_cases)
    case (1 x s')
    then obtain e where x: "x = (True, fill_in (f(ir_addr (fix_ir d) \<mapsto> e)) u)" "e \<noteq> []" by (cases x) auto
    have ne: "[] \<notin> ran (f(ir_addr (fix_ir d) \<mapsto> e))"
      using Cons.prems x(2) unfolding ran_def by (auto split: if_splits)
    have dom: "dom (f(ir_addr (fix_ir d) \<mapsto> e)) \<union> ir_addr ` fix_ir ` set ds =
        dom f \<union> ir_addr ` fix_ir ` set (d # ds)" by auto
    show ?case
      using Cons.IH [OF ne, of s'] unfolding x prod.case by (simp only: dom not_True_eq_False if_False)
  qed
qed

section \<open>What a validation does\<close>

text \<open>\<open>fixed_program t t'\<close>: \<open>t'\<close> is \<open>t\<close> marked, with the scopes written in, and with a text that is
  not empty at exactly the places to fix.\<close>

definition fixed_program :: "IR \<Rightarrow> IR \<Rightarrow> bool" where
  "fixed_program t t' \<longleftrightarrow> (\<exists>m u f. marked t m \<and> scoped m u \<and> t' = fill_in f u \<and>
     dom f = ir_addr ` set (fix_places u) \<and> [] \<notin> ran f)"

lemma post_Validate: "post (Validate c ord fd t) s (\<lambda>(r, t') _. r = kSuccess \<and> fixed_program t t')"
proof (cases "t = NullIR")
  case True
  then show ?thesis by (simp add: Validate_def post_bnd post_throw)
next
  case False
  show ?thesis
    unfolding Validate_def BuildScopeTreeWithSymbolTable_def bnd_assoc post_bnd
  proof (rule post_mono [OF ok_post [OF ok_MarkFixMe [OF False]]], rule post_mono [OF post_BuildTree], goal_cases)
    case (1 m s1 u s2)
    have "u \<noteq> NullIR" using 1 False by (cases t; cases m) auto
    then have sel: "SelectFixStrategy u = Inr (map decide_all_types (fix_places u))"
      by (simp add: SelectFixStrategy_def select_loop_spec)
    have addrs: "ir_addr ` fix_ir ` set (map decide_all_types (fix_places u)) = ir_addr ` set (fix_places u)"
      by (force simp: decide_all_types_def)
    have filled: "post (apply_fixes c (map decide_all_types (fix_places u)) u) s3 (\<lambda>(r, t') _. r = kSuccess \<and> fixed_program t t')" for s3
    proof (rule post_mono [OF post_apply_fixes [of Map.empty c _ u, unfolded fill_in_empty]], goal_cases)
      case (2 x s')
      then show ?case using 1 addrs unfolding fixed_program_def by (cases x) auto
    qed simp
    show ?case
      unfolding post_return by (rule post_mono [OF post_True]) (simp add: sel lift_result_def post_return filled)
  qed
qed

section \<open>Fixing succeeds up to the generator's assertions\<close>

lemma map_addr_subtrees: "map ir_addr (subtrees t) = addrs t"
  by (induction t) simp_all

lemma find_key: "distinct (map f xs) \<Longrightarrow> x \<in> set xs \<Longrightarrow> find (\<lambda>y. f y = f x) xs = Some x"
  by (induction xs) auto

lemma subtrees_fill_in: "subtrees (fill_in f t) = map (fill_in f) (subtrees t)"
  by (induction t) simp_all

lemma pointee_fill_in:
  assumes "unshared t" and "v \<in> set (subtrees t)"
  shows "pointee v (fill_in f t) = fill_in f v"
proof -
  have a: "ir_addr (fill_in f u) = ir_addr u" if "u \<noteq> NullIR" for u using that by (cases u) simp_all
  have "find (\<lambda>u. ir_addr u = ir_addr v) (map (fill_in f) xs) = map_option (fill_in f) (find (\<lambda>u. ir_addr u = ir_addr v) xs)"
    if "NullIR \<notin> set xs" for xs
    using that by (induction xs) (auto simp: a)
  from this [OF subtrees_not_Null] show ?thesis
    using find_key [of ir_addr "subtrees t" v] assms
    by (simp add: pointee_def subtrees_fill_in map_addr_subtrees unshared_def)
qed

lemma fix_places_distinct: "unshared t \<Longrightarrow> distinct (map ir_addr (fix_places t)) \<and> ir_addr ` set (fix_places t) \<subseteq> set (addrs t)"
proof (induction t)
  case NullIR
  then show ?case by simp
next
  case (Node a i l r)
  then show ?case by (auto simp: unshared_Node)
qed

text \<open>A place that can be filled: not filled yet, inside a scope.\<close>

definition fillable :: "(nat \<Rightarrow> string option) \<Rightarrow> IR \<Rightarrow> bool" where
  "fillable f v \<longleftrightarrow> is_fixme (ir_info v) \<and> ir_scope_id (ir_info v) \<noteq> - 1 \<and> f (ir_addr v) = None"

lemma only_ApplyFix:
  assumes "IsWeakType c" and "settled bs s" and "unshared u" and "v \<in> set (subtrees u)" and "fillable f v"
  shows "only {Assert_failed} (ApplyFix c v type (fill_in f u)) s (\<lambda>_. settled bs)"
proof -
  obtain a i l r where v: "v = Node a i l r" using assms(4) subtrees_not_Null by (metis IR.exhaust)
  have p: "pointee v (fill_in f u) = Node a i (fill_in f l) (fill_in f r)"
    using pointee_fill_in [OF assms(3,4), of f] assms(5) by (simp add: v fillable_def)
  have i: "is_fixme i" "ir_scope_id i \<noteq> - 1" using assms(5) by (simp_all add: v fillable_def)
  have bs: "kept s = bs" using assms(2) by (simp add: settled_def)
  have g: "only {Assert_failed} (bnd new_ExpressionGenerator (\<lambda>_. GenerateExpression c (Node a i (fill_in f l) (fill_in f r)) type))
      s (\<lambda>e s'. e \<noteq> [] \<and> settled bs s')"
    by (rule only_GenerateExpression [where s = s, unfolded bs])
      (use assms(1,2) i in \<open>simp_all add: settled_def\<close>)
  then have "only {Assert_failed} (bnd (bnd new_ExpressionGenerator
      (\<lambda>_. GenerateExpression c (Node a i (fill_in f l) (fill_in f r)) type)) (\<lambda>e. return (True, update_at a (SetString e) (fill_in f u))))
      s (\<lambda>_. settled bs)"
    unfolding only_bnd only_return by (simp only: only_bnd [symmetric], elim only_mono) simp
  then show ?thesis
    using i(1) unfolding ApplyFix_def p IR.case only_bnd only_require bnd_assoc by simp
qed

lemma only_apply_fixes:
  assumes "IsWeakType c" and "unshared u"
  shows "settled bs s \<Longrightarrow> set vs \<subseteq> set (subtrees u) \<Longrightarrow> distinct (map ir_addr vs) \<Longrightarrow> \<forall>v\<in>set vs. fillable f v \<Longrightarrow>
     only {Assert_failed} (apply_fixes c (map decide_all_types vs) (fill_in f u)) s (\<lambda>_. settled bs)"
proof (induction vs arbitrary: f s)
  case Nil
  then show ?case by (simp add: only_return)
next
  case (Cons v vs)
  have v: "fix_ir (decide_all_types v) = v" by (simp add: decide_all_types_def)
  have a: "only {Assert_failed} (ApplyFix c v ty (fill_in f u)) s (\<lambda>_. settled bs)" for ty
    using only_ApplyFix [OF assms(1) Cons.prems(1) assms(2)] Cons.prems by simp
  show ?case
    unfolding list.map apply_fixes.simps only_bnd v
  proof (rule only_mono [OF only_post [OF a post_ApplyFix]], goal_cases)
    case (1 x s')
    then obtain e where x: "x = (True, fill_in (f(ir_addr v \<mapsto> e)) u)" by (cases x) auto
    have "ir_addr v \<notin> ir_addr ` set vs" using Cons.prems(3) by simp
    then have "\<forall>w\<in>set vs. fillable (f(ir_addr v \<mapsto> e)) w" using Cons.prems(4)
      by (auto simp: fillable_def) (metis imageI)
    then have "only {Assert_failed} (apply_fixes c (map decide_all_types vs) (fill_in (f(ir_addr v \<mapsto> e)) u)) s' (\<lambda>_. settled bs)"
      using 1 Cons.prems by (intro Cons.IH) (simp_all del: fun_upd_apply)
    then show ?case unfolding x prod.case by simp
  qed
qed

text \<open>The numbering puts every node of a program whose root opens a scope into a scope.\<close>

lemma number_ids:
  "v \<in> set (subtrees (number (Some k) n t)) \<Longrightarrow>
     ir_scope_id (ir_info v) \<in> insert k (word_of_nat ` {Suc n .. n + scope_count t})"
proof (induction t arbitrary: k n)
  case NullIR
  then show ?case by simp
next
  case (Node a i l r)
  have sub: "insert (word_of_nat q) (word_of_nat ` {Suc m .. m + x}) \<subseteq> insert k (word_of_nat ` {Suc n .. n + y})"
    if "n \<le> m" "m + x \<le> n + y" "Suc n \<le> q" "q \<le> n + y" for m x y q
    using that by auto
  have sub': "insert k (word_of_nat ` {Suc m .. m + x}) \<subseteq> insert k (word_of_nat ` {Suc n .. n + y})"
    if "n \<le> m" "m + x \<le> n + y" for m x y
    using that by auto
  show ?case
  proof (cases "opens i")
    case True
    note sub [of _ _ _ "Suc n", THEN subsetD]
    then show ?thesis
      using Node.prems True Node.IH(1) [of "word_of_nat (Suc n)" "Suc n"]
        Node.IH(2) [of "word_of_nat (Suc n)" "Suc n + scope_count l"]
      by (auto simp: Let_def with_scope_def simp del: of_nat_Suc)
  next
    case False
    then show ?thesis
      using Node.prems Node.IH(1) [of k n] Node.IH(2) [of k "n + scope_count l"] sub' [THEN subsetD]
      by (auto simp: with_scope_def)
  qed
qed

lemma small_not_minus_one: "n < 2 ^ 31 \<Longrightarrow> word_of_nat n \<noteq> (- 1 :: 64 word)"
proof
  assume n: "n < 2 ^ 31" and eq: "word_of_nat n = (- 1 :: 64 word)"
  have "unat (word_of_nat n :: 64 word) = n" using n by (simp add: unsigned_of_nat take_bit_nat_eq_self)
  then show False using n unfolding eq by (simp add: unsigned_minus_1_eq_mask mask_eq_exp_minus_1)
qed

lemma scoped_root_ids:
  assumes "opens i" and "scope_count (Node a i l r) < 2 ^ 31" and "v \<in> set (subtrees (number None 0 (Node a i l r)))"
  shows "ir_scope_id (ir_info v) \<noteq> - 1"
proof -
  have "number None 0 (Node a i l r) = number (Some 0) 0 (Node a i l r)" using assms(1) by (simp add: Let_def)
  then have "ir_scope_id (ir_info v) = 0 \<or> ir_scope_id (ir_info v) \<in> word_of_nat ` {Suc 0 .. 0 + scope_count (Node a i l r)}"
    using number_ids [of v 0 0 "Node a i l r"] assms(3) by simp
  then show ?thesis using small_not_minus_one assms(2) by (auto simp del: scope_count.simps)
qed

lemma marked_scopes: "marked t m \<Longrightarrow> scope_count m \<le> scope_count t"
proof (induction t arbitrary: m)
  case NullIR
  then show ?case by simp
next
  case (Node a i l r)
  obtain l' r' where m: "m = Node a i l' r'" using marked_root [OF Node.prems] by blast
  have leaf: "scope_count (Node b (fixme_info j) NullIR NullIR) = 0" for b j by (simp add: opens_def fixme_info_def)
  have "scope_count l' \<le> scope_count l"
    using Node.prems Node.IH(1) leaf unfolding m marked.simps IR.case
    by (cases "is_fix_unit l"; cases "NeedFixing l") (metis (full_types) le0 order_refl)+
  moreover have "scope_count r' \<le> scope_count r"
    using Node.prems Node.IH(2) leaf unfolding m marked.simps IR.case
    by (cases "is_fix_unit r"; cases "NeedFixing r") (metis (full_types) le0 order_refl)+
  ultimately show ?case unfolding m by simp
qed

lemma scoped_addrs: "scoped t u \<Longrightarrow> addrs u = addrs t"
  by (induction t arbitrary: u) (auto split: IR.splits)

section \<open>The state along a validation\<close>

lemma alloc_types:
  assumes "alloc_only s s'"
  shows "types_wf s' = types_wf s" and "s_builted_compound_types s' = s_builted_compound_types s"
proof -
  let ?z = "\<lambda>s. s\<lparr>rt_next := 0, rt_id_counter := 0\<rparr>"
  have z: "?z s' = ?z s" using assms by (simp add: alloc_only_def)
  have "types_wf (?z u) = types_wf u" "s_builted_compound_types (?z u) = s_builted_compound_types u" for u
    by (simp_all add: types_wf_def all_entries_def)
  then show "types_wf s' = types_wf s" and "s_builted_compound_types s' = s_builted_compound_types s"
    using z by metis+
qed

lemma ok_BuildTree_collecting:
  assumes "is_init c" and "types_wf s" and "s_builted_compound_types s = []" and "outermost t = 1" and "scope_count t < 2 ^ 31"
  shows "ok (BuildTree c t) s (\<lambda>u s'. u = number None 0 t \<and> collecting s' \<and> rt_next s' = rt_next s)"
proof (rule ok_mono [OF ok_BuildTree [OF assms(1,2,4,5)]], elim conjE, goal_cases)
  case (1 u s')
  have "named_members (constructed c (but_scopes s))"
  proof (rule named_members_constructed)
    show "types_wf (but_scopes s)" using assms(2) by simp
    show "s_builted_compound_types (but_scopes s) = []" using assms(3) by (simp add: but_scopes_def)
  qed
  moreover have "named_members (but_scopes r) = named_members r" for r :: "'a scope_tree_scheme"
    by (simp add: named_members_def but_scopes_def GetTypePtrByID_def)
  ultimately have "named_members s'" using 1 by metis
  moreover have "table_ok (sc_table sc)" if "GetScopeById s' k = Some sc" for k sc
  proof -
    have "k \<in> scope_ids s'" using that by (auto simp: scope_ids_iff)
    then have "k \<in> fst ` set (scopes_of None 0 t)" using 1 by (simp add: scopes_of_keys)
    then obtain ty par where "scope_view s' k = Some (ty, par, [], {})" using 1 by force
    then show ?thesis using that by (simp add: scope_view_def)
  qed
  moreover have "kept (but_scopes r) = kept r" for r :: "'a scope_tree_scheme"
    by (simp add: but_scopes_def kept_def)
  then have "kept s' = kept s" using 1 compounds_constructed(2) [of c "but_scopes s"] by metis
  ultimately show ?case using 1 assms(3) by (simp add: collecting_def kept_def)
qed

lemma members_ok_named:
  assumes "types_wf s" and "named_members s"
  shows "members_ok s"
  unfolding members_ok_def
proof (intro allI impI)
  fix t v
  assume v: "GetCompoundType s t = Some v"
  then have "GetTypePtrByID s t = Some v" by (rule CompoundType_lookup [OF assms(1)])
  moreover have "is_compound_type v"
    using v types_wfD(6) [OF assms(1)] by (auto simp: GetCompoundType_def split: if_splits dest: map_of_SomeD)
  then obtain i ms where "v = CompoundType i ms" by (cases v) (simp_all add: is_compound_type_def)
  ultimately show "\<forall>x\<in>set (ct_members v). snd x \<noteq> []" using assms(2) unfolding named_members_def by auto
qed

lemma collecting_settled: "collecting s \<Longrightarrow> settled ([], rt_next s) s"
  by (simp add: collecting_def settled_def members_ok_named kept_def)

lemma only_BuildSymbolTables:
  assumes "collecting s"
  shows "only collection_errors (BuildSymbolTables c ord fd root) s (\<lambda>_ s'. collecting s' \<and> rt_next s' = rt_next s)"
  by (rule only_mono [OF collects_BuildSymbolTables [unfolded collects_def, rule_format, OF assms]])
    (simp add: grown_def kept_def)

section \<open>Results\<close>

text \<open>C21: marking a program succeeds. The outermost fix units below the root that need fixing become
  \<open>FIXME\<close> leaves with the unit's scope and statement, everything else stays; no fix unit that needs
  fixing is left, a program that needed fixing still does, and the tree stays unshared.\<close>

theorem MarkFixMe_marks:
  assumes "t \<noteq> NullIR" and "unshared t" and "\<forall>a\<in>set (addrs t). a < rt_next s"
  shows "ok (MarkFixMe t) s (\<lambda>t' s'. marked t t' \<and> unshared t' \<and> NeedFixing t' = NeedFixing t \<and>
     (\<forall>u\<in>set (subtrees (LeftChild t')) \<union> set (subtrees (RightChild t')). is_fix_unit u \<longrightarrow> \<not> NeedFixing u))"
  by (rule ok_mono [OF ok_MarkFixMe [OF assms(1)]])
    (use assms(2,3) marked_NeedFixing marked_fix_units in \<open>auto simp: refreshed_def\<close>)

text \<open>C22: the selection lists exactly the outermost \<open>FIXME\<close> nodes of a program, in preorder, each to
  be fixed with an expression of any type.\<close>

theorem SelectFixStrategy_places:
  assumes "t \<noteq> NullIR"
  shows "SelectFixStrategy t = Inr (map decide_all_types (fix_places t)) \<and>
    set (fix_places t) \<subseteq> {u \<in> set (subtrees t). is_fixme (ir_info u)}"
  using assms fix_places_subtrees by (simp add: SelectFixStrategy_def select_loop_spec)

text \<open>C15: a validation that returns reports success, in any language: its other results are never
  produced. The program it leaves is the marked program with scope ids, and a text that is not
  empty at exactly the places to fix.\<close>

theorem Validate_fixes: "post (Validate c ord fd t) s (\<lambda>(r, t') _. r = kSuccess \<and> fixed_program t t')"
  by (rule post_Validate)

definition collection_fails ::
  "configuration \<Rightarrow> (TypeID list \<Rightarrow> TypeID list) \<Rightarrow> (64 word \<Rightarrow> string) \<Rightarrow> IR \<Rightarrow> 'z scope_tree_scheme \<Rightarrow> error \<Rightarrow> bool" where
  "collection_fails c ord fd t s e \<longleftrightarrow> (\<exists>m s1 u s2. MarkFixMe t s = Inr (m, s1) \<and> BuildTree c m s1 = Inr (u, s2) \<and>
     BuildSymbolTables c ord fd u s2 = Inl e)"

lemma only_Validate:
  fixes s :: "'z expression_generator_scheme"
  assumes "is_init c" and "IsWeakType c" and "types_wf s" and "s_builted_compound_types s = []"
    and "t \<noteq> NullIR" and "unshared t" and "\<forall>a\<in>set (addrs t). a < rt_next s"
    and "opens (ir_info t)" and "scope_count t < 2 ^ 31"
  shows "only ({Assert_failed} \<union> {e \<in> collection_errors. collection_fails c ord fd t s e})
    (Validate c ord fd t) s (\<lambda>(r, _) s'. r = kSuccess \<and> types_wf s' \<and>
      s_builted_compound_types s' = [] \<and> rt_next s \<le> rt_next s')"
proof -
  obtain m s1 where m: "MarkFixMe t s = Inr (m, s1)" "marked t m" "refreshed s t s1 m"
    using ok_MarkFixMe [OF assms(5), of s] by (auto simp: ok_Inr_iff)
  obtain a i l r where mN: "m = Node a i l r" and op: "opens i" using m(2) assms(5,8) by (cases t; cases m) auto
  have cnt: "scope_count m < 2 ^ 31" using marked_scopes [OF m(2)] assms(9) by simp
  have al: "types_wf s1" "s_builted_compound_types s1 = []"
    using alloc_types [of s s1] m(3) assms(3,4) by (simp_all add: refreshed_def)
  obtain u s2 where u: "BuildTree c m s1 = Inr (u, s2)" "u = number None 0 m" "collecting s2" "rt_next s2 = rt_next s1"
    using ok_BuildTree_collecting [OF assms(1) al _ cnt] mN op by (auto simp: ok_Inr_iff)
  have "scoped m u" using post_BuildTree [of c m s1] u(1) by (simp add: post_def)
  then have un: "unshared u" using m(3) assms(6,7) scoped_addrs by (simp add: refreshed_def unshared_def)
  have "u \<noteq> NullIR" using u(2) mN by (simp add: Let_def)
  then have sel: "SelectFixStrategy u = Inr (map decide_all_types (fix_places u))"
    by (simp add: SelectFixStrategy_def select_loop_spec)
  have ids: "ir_scope_id (ir_info v) \<noteq> - 1" if "v \<in> set (subtrees u)" for v
    by (rule scoped_root_ids [OF op cnt [unfolded mN]]) (use that in \<open>simp only: u(2) mN\<close>)
  have fill: "\<forall>v\<in>set (fix_places u). fillable Map.empty v"
    using fix_places_subtrees [of u] ids by (auto simp: fillable_def)
  have sub: "set (fix_places u) \<subseteq> set (subtrees u)" using fix_places_subtrees by blast
  have step: "Validate c ord fd t s =
      bnd (BuildSymbolTables c ord fd u) (\<lambda>_. apply_fixes c (map decide_all_types (fix_places u)) u) s2"
    by (simp add: Validate_def BuildScopeTreeWithSymbolTable_def bnd_def m(1) u(1) sel m_eval split: sum.split)
  show ?thesis
  proof (cases "BuildSymbolTables c ord fd u s2")
    case (Inl e)
    then have "collection_fails c ord fd t s e" using m(1) u(1) unfolding collection_fails_def by blast
    moreover have "e \<in> collection_errors"
      using only_BuildSymbolTables [OF u(3), of c ord fd u] Inl by (simp add: only_def)
    ultimately show ?thesis by (simp add: only_def step bnd_def Inl)
  next
    case (Inr x)
    then obtain s3 where s3: "BuildSymbolTables c ord fd u s2 = Inr ((), s3)" by (cases x) auto
    have c3: "collecting s3" "rt_next s3 = rt_next s2"
      using only_BuildSymbolTables [OF u(3), of c ord fd u] s3 by (simp_all add: only_def)
    have nx: "rt_next s \<le> rt_next s3" using m(3) c3(2) u(4) by (simp add: refreshed_def alloc_only_def)
    have "settled ([], rt_next s3) s3" by (rule collecting_settled [OF c3(1)])
    then have "only {Assert_failed} (apply_fixes c (map decide_all_types (fix_places u)) u) s3 (\<lambda>_. settled ([], rt_next s3))"
      using only_apply_fixes [OF assms(2) un _ sub, of "([], rt_next s3)" s3 Map.empty] fix_places_distinct [OF un] fill by simp
    then show ?thesis
      using post_Validate [of c ord fd t s] nx by (auto simp: only_def post_def step bnd_def s3 settled_def kept_def split: sum.splits)
  qed
qed

text \<open>C12: in a weakly typed language the validation of an unshared program whose root opens a scope
  ends: with success, at an assertion of the expression generator, or at a failed assertion or
  contract, a null pointer or a name that is no string, met by the collection of definitions on the
  marked program. Marking, scopes, selection and every lookup of the generator succeed, and the type
  tables stay well-formed, so that the next program can be validated.\<close>

theorem Validate_ends:
  fixes s :: "'z expression_generator_scheme"
  assumes "is_init c" and "IsWeakType c" and "types_wf s" and "s_builted_compound_types s = []"
    and "t \<noteq> NullIR" and "unshared t" and "\<forall>a\<in>set (addrs t). a < rt_next s"
    and "opens (ir_info t)" and "scope_count t < 2 ^ 31"
  shows "only ({Assert_failed} \<union> {e. e \<in> {Assert_failed, Contract_failed, Null_dereference, Bad_variant_access} \<and>
      collection_fails c ord fd t s e})
    (Validate c ord fd t) s (\<lambda>(r, _) s'. r = kSuccess \<and> types_wf s' \<and> s_builted_compound_types s' = [])"
  by (rule only_mono [OF only_Validate [OF assms, of ord fd, unfolded collection_errors_def]]) auto

section \<open>Witnesses\<close>

text \<open>A global scope around a fix unit that holds a \<open>FIXME\<close>.\<close>

definition demo_unfixed :: IR where
  "demo_unfixed = Node 0 (node_info kDataDefault kScopeGlobal Monostate)
     (Node 1 (node_info kFixUnit kScopeDefault Monostate)
        (Node 2 (node_info kDataDefault kScopeDefault (StringData ''FIXME'')) NullIR NullIR) NullIR) NullIR"

definition demo_validator :: expression_generator where
  "demo_validator = demo_generator\<lparr>rt_next := 10\<rparr>"

lemma demo_unfixed_ok: "demo_unfixed \<noteq> NullIR" "unshared demo_unfixed" "\<forall>a\<in>set (addrs demo_unfixed). a < rt_next demo_validator"
  "opens (ir_info demo_unfixed)" "scope_count demo_unfixed < 2 ^ 31"
  by (simp_all add: demo_unfixed_def unshared_def demo_validator_def node_info_def opens_def)

lemma demo_validator_ok: "types_wf demo_validator" "s_builted_compound_types demo_validator = []"
proof -
  show "types_wf demo_validator"
    using demo_generator_wf(1) by (simp add: types_wf_def all_entries_def demo_validator_def)
  show "s_builted_compound_types demo_validator = []"
    using demo_tree_wf(1) by (simp add: demo_validator_def demo_generator_def scope_tree.defs collecting_def)
qed

lemma MarkFixMe_marks_witness:
  "ok (MarkFixMe demo_unfixed) demo_validator (\<lambda>t' s'. NeedFixing t' \<and> (\<exists>b. LeftChild t' = Node b (fixme_info
     (node_info kFixUnit kScopeDefault Monostate)) NullIR NullIR))"
proof (rule ok_mono [OF MarkFixMe_marks [OF demo_unfixed_ok(1-3)]], elim conjE, goal_cases)
  case (1 t' s')
  have "NeedFixing demo_unfixed" by (simp add: demo_unfixed_def is_fixme_def node_info_def)
  then show ?case
    using 1 by (cases t') (auto simp: demo_unfixed_def is_fix_unit_def is_fixme_def node_info_def)
qed

lemma SelectFixStrategy_places_witness: "SelectFixStrategy demo_place = Inr [decide_all_types demo_place]"
  using SelectFixStrategy_places [of demo_place] by (simp add: demo_place_def is_fixme_def node_info_def)

lemma Validate_ends_witness:
  "only ({Assert_failed} \<union> {e. e \<in> {Assert_failed, Contract_failed, Null_dereference, Bad_variant_access} \<and>
      collection_fails demo_configuration (\<lambda>ks. ks) (\<lambda>_. []) demo_unfixed demo_validator e})
     (Validate demo_configuration (\<lambda>ks. ks) (\<lambda>_. []) demo_unfixed) demo_validator
     (\<lambda>(r, _) s'. r = kSuccess \<and> types_wf s' \<and> s_builted_compound_types s' = [])"
  by (rule Validate_ends [OF _ _ demo_validator_ok demo_unfixed_ok(1-5)]) (simp_all add: demo_configuration_def IsWeakType_def)

end
