(* ===== verification/Translation_Weights.thy ===== *)
theory Translation_Weights
  imports Frontend
begin

text \<open>
  Counting along a translation. A weight of nodes and a weight of rules that agree on the node a rule
  becomes, where the nodes the folding of the children makes on the way weigh nothing, agree on the
  whole: the locale \<open>translation_weight\<close>. The corpus tools use it to count the nodes of a rule, the
  sessions of the fuzzer to count the scopes a program opens.
\<close>

section \<open>What a translation leaves alone\<close>

text \<open>The listener's flag and everything outside the runtime.\<close>

definition keeps :: "'z runtime_scheme \<Rightarrow> 'z runtime_scheme \<Rightarrow> bool" where
  "keeps s s' \<longleftrightarrow> rt_listener_error s' = rt_listener_error s \<and> runtime.more s' = runtime.more s"

lemma keeps_refl [simp]: "keeps s s"
  by (simp add: keeps_def)

lemma keeps_trans: "keeps s s' \<Longrightarrow> keeps s' s'' \<Longrightarrow> keeps s s''"
  by (simp add: keeps_def)

section \<open>Weights\<close>

primrec tree_weight :: "(IRInfo \<Rightarrow> nat) \<Rightarrow> IR \<Rightarrow> nat" where
  "tree_weight w NullIR = 0"
| "tree_weight w (Node a i l r) = w i + tree_weight w l + tree_weight w r"

definition im_weight :: "(IRInfo \<Rightarrow> nat) \<Rightarrow> IM \<Rightarrow> nat" where
  "im_weight w im = (case im of IM_IR t \<Rightarrow> tree_weight w t | _ \<Rightarrow> 0)"

abbreviation stk_weight :: "(IRInfo \<Rightarrow> nat) \<Rightarrow> IM list \<Rightarrow> nat" where
  "stk_weight w stk \<equiv> sum_list (map (im_weight w) stk)"

fun pt_weight :: "(rule_context \<Rightarrow> nat) \<Rightarrow> parse_tree \<Rightarrow> nat" where
  "pt_weight wc (Terminal str) = 0"
| "pt_weight wc (ErrorNode txt) = 0"
| "pt_weight wc (Rule ctx children) =
     (if rc_is_string_literal ctx \<or> rc_is_int_literal ctx then wc ctx
      else if list_all pt_null children then 0
      else wc ctx + sum_list (map (pt_weight wc) children))"

lemma pt_weight_null: "pt_null pt \<Longrightarrow> pt_weight wc pt = 0"
  by (cases pt) auto

lemma extracted_weight:
  assumes "ExtractOneIR stk = (one, rest)"
  shows "tree_weight w (im_ptr (o_left one)) + tree_weight w (im_ptr (o_right one)) + stk_weight w rest = stk_weight w stk"
proof -
  let ?h = "\<lambda>im. replicate (im_weight w im) ()"
  have len: "length (concat (map ?h stk)) = stk_weight w stk" for stk by (induction stk) simp_all
  have st: "slots_typed one" using ExtractOneIR_typed [of stk] assms by simp
  have "one_flat ?h one @ concat (map ?h rest) = concat (map ?h stk)"
    using ExtractOneIR_flat [of ?h stk] assms by (simp add: im_weight_def)
  then have "length (one_flat ?h one) + stk_weight w rest = stk_weight w stk" by (metis len length_append)
  then show ?thesis
    using st by (cases "o_left one"; cases "o_right one"; cases "o_prefix one"; cases "o_middle one"; cases "o_suffix one")
      (auto simp: one_flat_def slots_typed_def im_weight_def im_ptr_def)
qed

section \<open>Two weights that agree\<close>

locale translation_weight =
  fixes w :: "IRInfo \<Rightarrow> nat" and wc :: "rule_context \<Rightarrow> nat"
  assumes made: "ir_type i = kUnknown \<Longrightarrow> ir_scope_type i = kScopeDefault \<Longrightarrow> w i = 0"
    and finished: "ir_type i = word_of_nat (rc_rule_index ctx) \<Longrightarrow>
      w (i\<lparr>ir_data_type := rc_data_type ctx, ir_scope_type := rc_scope_type ctx\<rparr>) = wc ctx"
begin

text \<open>A node of a rule before its data type and scope type are set, over children of a weight.\<close>

definition unfinished :: "IRTYPE \<Rightarrow> nat \<Rightarrow> IR \<Rightarrow> bool" where
  "unfinished ty n t \<longleftrightarrow> t \<noteq> NullIR \<and> ir_type (ir_info t) = ty \<and> ir_scope_type (ir_info t) = kScopeDefault \<and>
     tree_weight w (LeftChild t) + tree_weight w (RightChild t) = n"

lemma finish_weight:
  assumes "unfinished (word_of_nat (rc_rule_index ctx)) n t"
  shows "tree_weight w (finish_node ctx t) = wc ctx + n"
proof -
  obtain a i l r where t: "t = Node a i l r" using assms by (cases t) (simp_all add: unfinished_def)
  then have "i\<lparr>ir_data_type := d\<rparr> = i\<lparr>ir_data_type := d, ir_scope_type := kScopeDefault\<rparr>" for d
    using assms by (simp add: unfinished_def)
  then have "finish_node ctx t = Node a (i\<lparr>ir_data_type := rc_data_type ctx, ir_scope_type := rc_scope_type ctx\<rparr>) l r"
    by (cases "rc_scope_type ctx = kScopeDefault") (simp_all add: finish_node_def t SetDataType_def SetScopeType_def)
  then show ?thesis using assms finished [of i ctx] by (simp add: t unfinished_def)
qed

lemma post_fold_stack: "post (fold_stack ri stk) s (\<lambda>stk' s'. keeps s s' \<and> (\<exists>t. stk' = [IM_IR t] \<and> unfinished ri (stk_weight w stk) t))"
proof (induction stk arbitrary: s rule: measure_induct_rule [of length])
  case (less stk)
  obtain one rest where E: "ExtractOneIR stk = (one, rest)" by (cases "ExtractOneIR stk")
  let ?ty = "if rest = [] then ri else kUnknown"
  obtain t s' where N: "new_op_IR ?ty (Some \<lparr>op_prefix = im_string (o_prefix one), op_middle = im_string (o_middle one),
      op_suffix = im_string (o_suffix one)\<rparr>) (im_ptr (o_left one)) (im_ptr (o_right one)) s = Inr (t, s')"
    by (simp add: new_op_IR_apply)
  have k: "keeps s s'" using N by (auto simp: new_op_IR_apply keeps_def)
  have t: "unfinished ?ty (tree_weight w (im_ptr (o_left one)) + tree_weight w (im_ptr (o_right one))) t"
    using N by (auto simp: new_op_IR_apply unfinished_def)
  have ap: "post (fold_stack ri stk) s Q \<longleftrightarrow>
      post (if rest \<noteq> [] then fold_stack ri (IM_IR t # rest) else return [IM_IR t]) s' Q" for Q
    using N by (subst fold_stack.simps) (simp add: E Let_def post_def bnd_def)
  show ?case
  proof (cases "rest = []")
    case True
    then show ?thesis using t k extracted_weight [OF E, of w] by (simp add: ap post_return)
  next
    case False
    have len: "length (IM_IR t # rest) < length stk"
      using extract_loop_progress2 [of stk] E False by (simp add: ExtractOneIR_def)
    have "w (ir_info t) = 0" using t False by (intro made) (simp_all add: unfinished_def)
    then have "tree_weight w t = tree_weight w (LeftChild t) + tree_weight w (RightChild t)"
      by (cases t) simp_all
    then have "stk_weight w (IM_IR t # rest) = stk_weight w stk"
      using t extracted_weight [OF E, of w] by (simp add: im_weight_def unfinished_def)
    then show ?thesis
      using less.IH [OF len, of s'] False by (auto simp: ap intro: keeps_trans [OF k] elim!: post_mono)
  qed
qed

definition weighed :: "parse_tree \<Rightarrow> 'z runtime_scheme \<Rightarrow> IR \<Rightarrow> 'z runtime_scheme \<Rightarrow> bool" where
  "weighed pt s t s' \<longleftrightarrow> keeps s s' \<and> (t = NullIR \<longleftrightarrow> pt_null pt) \<and> tree_weight w t = pt_weight wc pt"

definition stack_weighed :: "parse_tree list \<Rightarrow> IM list \<Rightarrow> 'z runtime_scheme \<Rightarrow> IM list \<Rightarrow> 'z runtime_scheme \<Rightarrow> bool" where
  "stack_weighed cs stk s stk' s' \<longleftrightarrow> keeps s s' \<and> (stk' = [] \<longleftrightarrow> stk = [] \<and> list_all pt_null cs) \<and>
     stk_weight w stk' = stk_weight w stk + sum_list (map (pt_weight wc) cs)"

lemma post_literal:
  assumes "rc_is_string_literal ctx \<or> rc_is_int_literal ctx"
  shows "post (bnd (new_data_IR (word_of_nat (rc_rule_index ctx)) d) (\<lambda>t. return (finish_node ctx t))) s (weighed (Rule ctx cs) s)"
proof -
  have "post (new_data_IR (word_of_nat (rc_rule_index ctx)) d) s
      (\<lambda>t s'. keeps s s' \<and> unfinished (word_of_nat (rc_rule_index ctx)) 0 t)"
    by (simp add: post_def new_data_IR_apply keeps_def unfinished_def)
  then show ?thesis
    unfolding post_bnd post_return
    by (rule post_mono) (use assms in \<open>auto simp: weighed_def finish_weight unfinished_def\<close>)
qed

lemma stack_push:
  "stack_weighed cs (im # stk) s' stk' s'' \<Longrightarrow> keeps s s' \<Longrightarrow> im_weight w im = pt_weight wc c \<Longrightarrow> \<not> pt_null c \<Longrightarrow>
     stack_weighed (c # cs) stk s stk' s''"
  by (auto simp: stack_weighed_def intro: keeps_trans)

lemma stack_skip:
  "stack_weighed cs stk s' stk' s'' \<Longrightarrow> keeps s s' \<Longrightarrow> pt_null c \<Longrightarrow> stack_weighed (c # cs) stk s stk' s''"
  by (auto simp: stack_weighed_def pt_weight_null intro: keeps_trans)

text \<open>The node of a rule, from the stack of its children.\<close>

lemma post_rule:
  assumes rule: "\<not> rc_is_string_literal ctx" "\<not> rc_is_int_literal ctx" and C: "stack_weighed children [] s tmp s1"
  shows "post (if tmp = [] \<and> (rc_text ctx = ''<EOF>'' \<or> rc_text ctx = []) then return NullIR
     else bnd (require Assert_failed (tmp \<noteq> [])) (\<lambda>_.
       bnd (fold_stack (word_of_nat (rc_rule_index ctx)) (rev tmp)) (\<lambda>stk.
       bnd (require Assert_failed (length stk = 1)) (\<lambda>_.
       return (finish_node ctx (im_ptr (hd stk))))))) s1 (weighed (Rule ctx children) s)"
proof (cases "tmp = []")
  case True
  then show ?thesis using C rule by (auto simp: post_return post_bnd post_require stack_weighed_def weighed_def)
next
  case False
  then have nn: "\<not> list_all pt_null children" using C by (simp add: stack_weighed_def)
  have sum: "stk_weight w (rev tmp) = sum_list (map (pt_weight wc) children)"
    using C by (simp add: stack_weighed_def rev_map [symmetric] sum_list_rev)
  have "post (fold_stack (word_of_nat (rc_rule_index ctx)) (rev tmp)) s1 (\<lambda>stk s2.
      length stk = 1 \<longrightarrow> weighed (Rule ctx children) s (finish_node ctx (im_ptr (hd stk))) s2)"
  proof (rule post_mono [OF post_fold_stack], goal_cases)
    case (1 stk s2)
    then obtain t where t: "keeps s1 s2" "stk = [IM_IR t]" "unfinished (word_of_nat (rc_rule_index ctx)) (stk_weight w (rev tmp)) t"
      by auto
    have "t \<noteq> NullIR" using t(3) by (simp add: unfinished_def)
    then show ?case
      using t C rule nn sum finish_weight [OF t(3)]
      by (auto simp: weighed_def stack_weighed_def im_ptr_def intro: keeps_trans)
  qed
  then show ?thesis using False by (simp add: post_bnd post_require post_return)
qed

lemma post_Translate:
  shows "post (TranslateNode pt) s (weighed pt s)"
    and "post (TranslateChildren cs stk) s (stack_weighed cs stk s)"
proof (induction pt and cs stk arbitrary: s and s rule: TranslateNode_TranslateChildren.induct)
  case (1 str)
  show ?case by (simp add: post_throw)
next
  case (2 str)
  show ?case by (simp add: post_throw)
next
  case (3 ctx children)
  consider (str) "rc_is_string_literal ctx" | (int) "\<not> rc_is_string_literal ctx" "rc_is_int_literal ctx"
    | (nil) "\<not> rc_is_string_literal ctx" "\<not> rc_is_int_literal ctx" "children = []"
    | (rule) "\<not> rc_is_string_literal ctx" "\<not> rc_is_int_literal ctx" "children \<noteq> []" by blast
  then show ?case
  proof cases
    case str
    then show ?thesis by (simp add: post_literal)
  next
    case int
    have "post (bnd (lift_result x) (\<lambda>n. bnd (new_data_IR (word_of_nat (rc_rule_index ctx)) (IntData n)) (\<lambda>t.
        return (finish_node ctx t)))) s (weighed (Rule ctx children) s)" for x
      using post_literal [of ctx _ s children] int by (cases x) (simp_all add: post_def bnd_def lift_result_apply)
    then show ?thesis using int by simp
  next
    case nil
    then show ?thesis by (simp add: post_return weighed_def)
  next
    case rule
    show ?thesis
      unfolding TranslateNode.simps if_not_P [OF rule(1)] if_not_P [OF rule(2)] if_not_P [OF rule(3)] post_bnd [of "TranslateChildren _ _"]
      by (rule post_mono [OF "3.IH" [OF rule]]) (rule post_rule [OF rule(1,2)])
  qed
next
  case (4 tmp_stk)
  show ?case by (simp add: post_return stack_weighed_def)
next
  case (5 c cs tmp_stk)
  show ?case
  proof (cases c)
    case (Terminal str)
    then show ?thesis
      using "5.IH"(4) [OF Terminal, of s] "5.IH"(5) [OF Terminal, of s]
      by (cases "str = ''<EOF>''") (auto elim!: post_mono intro: stack_skip stack_push simp: im_weight_def)
  next
    case (ErrorNode str)
    then show ?thesis by (simp add: post_bnd post_throw)
  next
    case (Rule ctx ch)
    have "post (if t \<noteq> NullIR then TranslateChildren cs (IM_IR t # tmp_stk) else TranslateChildren cs tmp_stk) s1
        (stack_weighed (c # cs) tmp_stk s)" if t: "weighed c s t s1" for t s1
      using t "5.IH"(2) [OF Rule, of t s1] "5.IH"(3) [OF Rule, of t s1]
      by (cases "t = NullIR") (auto elim!: post_mono intro: stack_skip stack_push simp: weighed_def im_weight_def)
    then have "post (bnd (TranslateNode c) (\<lambda>child_ir.
          if child_ir \<noteq> NullIR then TranslateChildren cs (IM_IR child_ir # tmp_stk)
          else TranslateChildren cs tmp_stk)) s (stack_weighed (c # cs) tmp_stk s)"
      unfolding post_bnd by (rule post_mono [OF "5.IH"(1) [OF Rule]])
    then show ?thesis using Rule by simp
  qed
qed

end

end
