(* ===== verification/Fuzzer.thy ===== *)
theory Fuzzer
  imports Configuration Translation_Weights Semantic_Validator "HOL-Library.Sublist"
begin

text \<open>
  The class \<open>PolyGlotMutator\<close> of \<open>srcs/polyglot.cc\<close> and its callbacks for AFL++ in
  \<open>srcs/custom_mutator.cc\<close>. The object owns a mutator and a validator; each has its own record, and
  the runtime (random stream, allocator, counters) that they share is the fuzzer's: \<open>on_frontend\<close>,
  \<open>on_mutator\<close> and \<open>on_validator\<close> run an operation of a part on it. What the process gets from outside is the record
  \<open>host\<close>. AFL++ itself is a client: a locale states what it relies on, and its calls form a step
  relation. The results: what \<open>Mutate\<close> saves, that a session keeps the number of announced test
  cases in step with the queue, and that in syntax-only mode only the translation of an input can
  stop it.
\<close>

section \<open>The object\<close>

record host =
  host_parse :: "string \<Rightarrow> parser_run"
  host_double :: "64 word \<Rightarrow> string"
  host_order :: "TypeID list \<Rightarrow> TypeID list"
  host_files :: file_system
  host_config :: "string option"
  host_srand :: "nat \<Rightarrow> nat"

record fuzzer = runtime +
  g_configuration :: configuration
  g_mutator :: mutator
  g_validator :: expression_generator
  current_input :: string
  save_test_cases :: "string list"

definition with_runtime :: "'y runtime_scheme \<Rightarrow> 'z runtime_scheme \<Rightarrow> 'z runtime_scheme" where
  "with_runtime r s = s\<lparr>rt_rand := rt_rand r, rt_pos := rt_pos r, rt_next := rt_next r, rt_id_counter := rt_id_counter r,
     rt_name_counter := rt_name_counter r, rt_listener_error := rt_listener_error r,
     rt_parse_counter := rt_parse_counter r, rt_junk_scope := rt_junk_scope r, rt_junk_stmt := rt_junk_stmt r\<rparr>"

definition on_frontend :: "(runtime, 'a) M \<Rightarrow> ('z fuzzer_scheme, 'a) M" where
  "on_frontend m = (\<lambda>s. case m (runtime.truncate s) of
     Inl e \<Rightarrow> Inl e
   | Inr (x, r) \<Rightarrow> Inr (x, with_runtime r s))"

definition on_mutator :: "(mutator, 'a) M \<Rightarrow> ('z fuzzer_scheme, 'a) M" where
  "on_mutator m = (\<lambda>s. case m (with_runtime s (g_mutator s)) of
     Inl e \<Rightarrow> Inl e
   | Inr (x, mu) \<Rightarrow> Inr (x, with_runtime mu (s\<lparr>g_mutator := mu\<rparr>)))"

definition on_validator :: "(expression_generator, 'a) M \<Rightarrow> ('z fuzzer_scheme, 'a) M" where
  "on_validator m = (\<lambda>s. case m (with_runtime s (g_validator s)) of
     Inl e \<Rightarrow> Inl e
   | Inr (x, v) \<Rightarrow> Inr (x, with_runtime v (s\<lparr>g_validator := v\<rparr>)))"

definition on_configuration :: "(configuration, 'a) M \<Rightarrow> ('z fuzzer_scheme, 'a) M" where
  "on_configuration m = (\<lambda>s. case m (g_configuration s) of
     Inl e \<Rightarrow> Inl e
   | Inr (x, c) \<Rightarrow> Inr (x, s\<lparr>g_configuration := c\<rparr>))"

text \<open>\<open>c_str()\<close> read back as a C string.\<close>

definition c_str :: "string \<Rightarrow> string" where
  "c_str s = takeWhile (\<lambda>ch. ch \<noteq> CHR 0x00) s"

section \<open>PolyGlotMutator\<close>

definition HasMutatedTextCase :: "'z fuzzer_scheme \<Rightarrow> bool" where
  "HasMutatedTextCase s \<longleftrightarrow> save_test_cases s \<noteq> []"

definition GetNextMutatedTestCase :: "('z fuzzer_scheme, string) M" where
  "GetNextMutatedTestCase =
     bnd (gets save_test_cases) (\<lambda>cases.
     bnd (require Assert_failed (cases \<noteq> [])) (\<lambda>_.
     bnd (modify (\<lambda>s. s\<lparr>current_input := last cases, save_test_cases := butlast cases\<rparr>)) (\<lambda>_.
     gets current_input)))"

definition AddToIRLibrary :: "host \<Rightarrow> string \<Rightarrow> ('z fuzzer_scheme, unit) M" where
  "AddToIRLibrary h mem =
     bnd (on_frontend (antlr_TranslateToIR (host_parse h) mem)) (\<lambda>ir.
     if ir \<noteq> NullIR then on_mutator (AddIRToLibrary (host_double h) ir) else return ())"

definition push_test_case :: "string \<Rightarrow> ('z fuzzer_scheme, unit) M" where
  "push_test_case str = modify (\<lambda>s. s\<lparr>save_test_cases := save_test_cases s @ [str]\<rparr>)"

text \<open>The body of the loop over the variants.\<close>

definition save_variant :: "host \<Rightarrow> IR \<Rightarrow> ('z fuzzer_scheme, unit) M" where
  "save_variant h ir =
     bnd (on_configuration GetInstance) (\<lambda>c.
     if SyntaxOnly c then
       (if 1500 < GetChildNum ir then return ()
        else
          let ir_str = ToString (host_double h) ir in
          bnd (on_frontend (antlr_Parsable (host_parse h) ir_str)) (\<lambda>parsable.
          if parsable then push_test_case ir_str else return ()))
     else
       bnd (on_validator (Validate c (host_order h) (host_double h) ir)) (\<lambda>(r, ir).
       if r = kSuccess then push_test_case (ToString (host_double h) ir) else return ()))"

definition Mutate :: "host \<Rightarrow> string \<Rightarrow> ('z fuzzer_scheme, nat) M" where
  "Mutate h test_case =
     bnd (on_frontend (antlr_TranslateToIR (host_parse h) test_case)) (\<lambda>root.
     if root = NullIR then return 0
     else
       let ir_set = CollectAllIRs root in
       if 1500 < length ir_set then return 0
       else
         bnd (on_mutator (MutateIRs (host_double h) ir_set)) (\<lambda>mutated_tree.
         bnd (foldM (\<lambda>ir _. save_variant h ir) mutated_tree ()) (\<lambda>_.
         gets (\<lambda>s. length (save_test_cases s)))))"

definition add_init_file :: "host \<Rightarrow> string \<Rightarrow> unit \<Rightarrow> ('z fuzzer_scheme, unit) M" where
  "add_init_file h f = (\<lambda>_.
     let content = ReadFileIntoString (host_files h) f in
     bnd (on_frontend (antlr_TranslateToIR (host_parse h) content)) (\<lambda>root.
     if root \<noteq> NullIR then on_mutator (AddIRToLibrary (host_double h) root) else return ()))"

definition Initialize_library :: "host \<Rightarrow> ('z fuzzer_scheme, unit) M" where
  "Initialize_library h =
     bnd (on_configuration GetInstance) (\<lambda>c.
     bnd (lift_result (get_all_files_in_dir (host_files h) (Some (c_str (GetInitDirPath c))))) (\<lambda>file_list.
     foldM (add_init_file h) file_list ()))"

text \<open>A new object: \<open>srand(time(nullptr))\<close> starts another stream, the statics stay. The validator has no
  state of its own: its record holds statics and the objects every validation creates anew.\<close>

definition new_PolyGlotMutator :: "host \<Rightarrow> ('z fuzzer_scheme, unit) M" where
  "new_PolyGlotMutator h =
     modify (\<lambda>s. s\<lparr>rt_rand := host_srand h, rt_pos := 0, current_input := [], save_test_cases := [],
       g_mutator := (g_mutator s)\<lparr>lib_irs := (\<lambda>_. []), lib_hash := (\<lambda>_. {}), mut_record := NullIR,
         mut_not_mutatable_types := {}, mut_convertable_map := []\<rparr>\<rparr>)"

definition CreateInstance :: "'n yaml \<Rightarrow> host \<Rightarrow> string \<Rightarrow> ('z fuzzer_scheme, unit) M" where
  "CreateInstance y h config =
     bnd (on_configuration (Initialize y config)) (\<lambda>initialized.
     bnd (require Assert_failed initialized) (\<lambda>_.
     bnd (new_PolyGlotMutator h) (\<lambda>_.
     Initialize_library h)))"

section \<open>The callbacks\<close>

definition afl_custom_init :: "'n yaml \<Rightarrow> host \<Rightarrow> ('z fuzzer_scheme, unit) M" where
  "afl_custom_init y h =
     (case host_config h of
        None \<Rightarrow> throw Assert_failed
      | Some config \<Rightarrow> CreateInstance y h config)"

definition afl_custom_queue_new_entry :: "host \<Rightarrow> string \<Rightarrow> ('z fuzzer_scheme, bool) M" where
  "afl_custom_queue_new_entry h filename_new_queue =
     bnd (AddToIRLibrary h (c_str (ReadFileIntoString (host_files h) filename_new_queue))) (\<lambda>_. return False)"

definition afl_custom_fuzz_count :: "host \<Rightarrow> string \<Rightarrow> ('z fuzzer_scheme, 32 word) M" where
  "afl_custom_fuzz_count h buf =
     bnd (gets HasMutatedTextCase) (\<lambda>pending.
     bnd (require Assert_failed (\<not> pending)) (\<lambda>_.
     bnd (Mutate h (c_str buf)) (\<lambda>n. return (word_of_nat n))))"

text \<open>The buffer handed out, with its length.\<close>

definition afl_custom_fuzz :: "('z fuzzer_scheme, string \<times> nat) M" where
  "afl_custom_fuzz = bnd GetNextMutatedTestCase (\<lambda>current_input. return (current_input, length current_input))"


section \<open>AFL++\<close>

text \<open>
  The fuzzer as a client: \<open>afl_custom_queue_new_entry\<close> may be called at any time; after
  \<open>afl_custom_fuzz_count\<close> announced \<open>n\<close> test cases, \<open>afl_custom_fuzz\<close> is called \<open>n\<close> times before the
  next count. The number counts the calls left.
\<close>

inductive afl_step ::
  "(string \<Rightarrow> ('s, bool) M) \<Rightarrow> (string \<Rightarrow> ('s, 32 word) M) \<Rightarrow> ('s, string \<times> nat) M \<Rightarrow> nat \<times> 's \<Rightarrow> nat \<times> 's \<Rightarrow> bool"
  for queue :: "string \<Rightarrow> ('s, bool) M" and count :: "string \<Rightarrow> ('s, 32 word) M" and fuzz :: "('s, string \<times> nat) M" where
  new_entry: "queue file s = Inr (b, s') \<Longrightarrow> afl_step queue count fuzz (k, s) (k, s')"
| new_round: "count buf s = Inr (n, s') \<Longrightarrow> afl_step queue count fuzz (0, s) (unat n, s')"
| next_case: "fuzz s = Inr (out, s') \<Longrightarrow> afl_step queue count fuzz (Suc k, s) (k, s')"

inductive_cases afl_stepE: "afl_step qe fc fz (k, s) (k', s')"

text \<open>The calls of one round, with the test cases they hand out.\<close>

definition afl_round :: "('s, string \<times> nat) M \<Rightarrow> nat \<Rightarrow> ('s, string list) M" where
  "afl_round fuzz n = foldM (\<lambda>_ outs. bnd fuzz (\<lambda>(out, _). return (outs @ [out]))) [0 ..< n] []"

locale custom_mutator =
  fixes queue :: "string \<Rightarrow> ('s, bool) M"
    and count :: "string \<Rightarrow> ('s, 32 word) M"
    and fuzz :: "('s, string \<times> nat) M"
    and inv :: "'s \<Rightarrow> bool"
    and pending :: "'s \<Rightarrow> string list"
  assumes queue_keeps: "inv s \<Longrightarrow> post (queue file) s (\<lambda>_ s'. inv s' \<and> pending s' = pending s)"
    and count_fills: "inv s \<Longrightarrow> pending s = [] \<Longrightarrow>
          post (count buf) s (\<lambda>n s'. inv s' \<and> unat n = length (pending s'))"
    and fuzz_pops: "inv s \<Longrightarrow> pending s \<noteq> [] \<Longrightarrow>
          ok fuzz s (\<lambda>(out, n) s'. inv s' \<and> out = last (pending s) \<and> n = length out \<and> pending s' = butlast (pending s))"
begin

lemma step_keeps:
  assumes "afl_step queue count fuzz (k, s) (k', s')" and "inv s" and "k = length (pending s)"
  shows "inv s' \<and> k' = length (pending s')"
  using assms(1)
proof (rule afl_stepE)
  fix name b
  assume "queue name s = Inr (b, s')" and "k' = k"
  then show ?thesis using post_Inr [OF queue_keeps [OF assms(2)]] assms(3) by fastforce
next
  fix buf n
  assume n: "count buf s = Inr (n, s')" "k' = unat n" and "k = 0"
  then have "pending s = []" using assms(3) by simp
  then show ?thesis using post_Inr [OF count_fills [OF assms(2)] n(1)] n(2) by simp
next
  fix out
  assume f: "fuzz s = Inr (out, s')" and "k = Suc k'"
  then have "pending s \<noteq> []" using assms(3) by auto
  then show ?thesis using fuzz_pops [OF assms(2)] f \<open>k = Suc k'\<close> assms(3) by (cases out) (auto simp: ok_def)
qed

lemma session_keeps:
  assumes "(afl_step queue count fuzz)\<^sup>*\<^sup>* (0, s0) (k, s)" and "inv s0" and "pending s0 = []"
  shows "inv s \<and> k = length (pending s)"
  using assms(1)
proof (induction rule: rtranclp_induct2)
  case refl
  then show ?case using assms(2,3) by simp
next
  case (step k s k' s')
  then show ?case using step_keeps by blast
qed

lemma rounds: "inv s \<Longrightarrow> length (pending s) = n \<Longrightarrow> length xs = n \<Longrightarrow>
   ok (foldM (\<lambda>_ outs. bnd fuzz (\<lambda>(out, _). return (outs @ [out]))) xs acc) s
     (\<lambda>outs s'. inv s' \<and> outs = acc @ rev (pending s) \<and> pending s' = [])"
proof (induction n arbitrary: s xs acc)
  case 0
  then show ?case by (simp add: ok_return)
next
  case (Suc n)
  then obtain x xs' where xs: "xs = x # xs'" by (cases xs) auto
  have ne: "pending s \<noteq> []" using Suc.prems by auto
  then have rv: "rev (pending s) = last (pending s) # rev (butlast (pending s))"
    by (metis append_butlast_last_id rev_eq_Cons_iff rev_rev_ident rev_append rev.simps append_Cons append_Nil)
  show ?case
    unfolding xs foldM.simps ok_bnd
  proof (rule ok_mono [OF fuzz_pops [OF Suc.prems(1) ne]], goal_cases)
    case (1 r s')
    obtain out len where r: "r = (out, len)" by (cases r)
    then have s': "inv s'" "out = last (pending s)" "pending s' = butlast (pending s)" using 1 by auto
    then have "length (pending s') = n" "length xs' = n" using Suc.prems xs by simp_all
    from Suc.IH [OF s'(1) this, of "acc @ [out]"] show ?case
      unfolding r prod.case ok_return by (rule ok_mono) (simp add: s' rv)
  qed
qed

lemma round_drains:
  assumes "inv s" and "n = length (pending s)"
  shows "ok (afl_round fuzz n) s (\<lambda>outs s'. inv s' \<and> outs = rev (pending s) \<and> pending s' = [])"
  unfolding afl_round_def using rounds [OF assms(1) assms(2) [symmetric], of "[0 ..< n]" "[]"] by simp

end

text \<open>A mutator all of whose operations return or stop with one of the errors in \<open>errs\<close>.\<close>

locale total_custom_mutator = custom_mutator +
  fixes errs :: "error set"
  assumes queue_only: "inv s \<Longrightarrow> only errs (queue file) s (\<lambda>_ _. True)"
    and count_only: "inv s \<Longrightarrow> pending s = [] \<Longrightarrow> only errs (count buf) s (\<lambda>_ _. True)"
begin

lemma session_only:
  assumes "(afl_step queue count fuzz)\<^sup>*\<^sup>* (0, s0) (k, s)" and "inv s0" and "pending s0 = []"
  shows "only errs (queue file) s (\<lambda>_ _. True) \<and> (k = 0 \<longrightarrow> only errs (count buf) s (\<lambda>_ _. True)) \<and>
    ok (afl_round fuzz k) s (\<lambda>outs s'. outs = rev (pending s) \<and> pending s' = [])"
  using session_keeps [OF assms] queue_only count_only round_drains [of s k] by (auto elim: ok_mono)

end

section \<open>The parts and their runtime\<close>

lemma with_runtime_fields [simp]:
  "g_configuration (with_runtime r s) = g_configuration s" "g_mutator (with_runtime r s) = g_mutator s"
  "g_validator (with_runtime r s) = g_validator s" "save_test_cases (with_runtime r s) = save_test_cases s"
  "current_input (with_runtime r s) = current_input s"
  by (cases s; simp add: with_runtime_def)+

lemma with_runtime_mutator [simp]:
  "lib_irs (with_runtime r mu) = lib_irs mu" "lib_hash (with_runtime r mu) = lib_hash mu"
  "lib_empty_ir (with_runtime r mu) = lib_empty_ir mu" "mut_convertable_map (with_runtime r mu) = mut_convertable_map mu"
  "mut_not_mutatable_types (with_runtime r mu) = mut_not_mutatable_types mu"
  "rt_next (with_runtime r mu) = rt_next r"
  by (simp_all add: with_runtime_def)

lemma minv_with_runtime [simp]: "minv fd (with_runtime r mu) = minv fd mu"
  by (simp add: minv_def lib_inv_def)

lemma mutant_of_runtime [simp]: "mutant_of root (with_runtime r mu) = mutant_of root mu"
  by (simp add: fun_eq_iff mutant_of_def should_mutate_def variant_def new_head_def new_children_def new_child_def from_lib_def)

lemma post_on:
  "post (on_mutator m) s Q = post m (with_runtime s (g_mutator s)) (\<lambda>x mu. Q x (with_runtime mu (s\<lparr>g_mutator := mu\<rparr>)))"
  "post (on_validator m') s Q = post m' (with_runtime s (g_validator s)) (\<lambda>x v. Q x (with_runtime v (s\<lparr>g_validator := v\<rparr>)))"
  "post (on_frontend m'') s Q = post m'' (runtime.truncate s) (\<lambda>x r. Q x (with_runtime r s))"
  "post (on_configuration n) s Q = post n (g_configuration s) (\<lambda>x c. Q x (s\<lparr>g_configuration := c\<rparr>))"
  by (simp_all add: post_def on_mutator_def on_validator_def on_frontend_def on_configuration_def split: sum.split)

lemma only_on:
  "only E (on_mutator m) s Q = only E m (with_runtime s (g_mutator s)) (\<lambda>x mu. Q x (with_runtime mu (s\<lparr>g_mutator := mu\<rparr>)))"
  "only E (on_frontend m') s Q = only E m' (runtime.truncate s) (\<lambda>x r. Q x (with_runtime r s))"
  "only E (on_configuration n) s Q = only E n (g_configuration s) (\<lambda>x c. Q x (s\<lparr>g_configuration := c\<rparr>))"
  by (simp_all add: only_def on_mutator_def on_frontend_def on_configuration_def split: sum.split)

lemma GetInstance_config: "on_configuration GetInstance s = (if is_init (g_configuration s) then Inr (g_configuration s, s) else Inl Assert_failed)"
  by (simp add: on_configuration_def GetInstance_def bnd_def m_eval)

lemma only_GetInstance: "only E (bnd (on_configuration GetInstance) f) s Q =
    (if is_init (g_configuration s) then only E (f (g_configuration s)) s Q else Assert_failed \<in> E)"
  by (simp add: only_def bnd_def GetInstance_config)

section \<open>How many variants\<close>

lemma foldM_measure:
  assumes "\<And>x b s. x \<in> set xs \<Longrightarrow> post (f x b) s (\<lambda>b' _. g b' \<le> g b + k)"
  shows "post (foldM f xs b) s (\<lambda>b' _. g b' \<le> (g b :: nat) + k * length xs)"
  using assms
proof (induction xs arbitrary: b s)
  case Nil
  then show ?case by (simp add: post_return)
next
  case (Cons x xs)
  show ?case
    unfolding foldM.simps post_bnd
  proof (rule post_mono [OF Cons.prems], simp, goal_cases)
    case (1 b' s')
    have "post (foldM f xs b') s' (\<lambda>b'' _. g b'' \<le> g b' + k * length xs)" using Cons by simp
    then show ?case by (rule post_mono) (use 1 in simp)
  qed
qed

lemma MutateIR_number: "post (MutateIR cur) s (\<lambda>vs _. length vs \<le> 7)"
proof -
  have push: "post (push_unless_null m res) s (\<lambda>res' _. length res' \<le> length res + 1)" for m res and s :: "'a mutator_scheme"
    unfolding push_unless_null_def post_bnd post_return by (rule post_mono [OF post_True]) simp
  show ?thesis
    unfolding MutateIR_def post_bnd
  proof (rule post_mono [OF foldM_measure [where g = length and k = 1]], rule push, rule post_mono [OF push], goal_cases)
    case (1 res s' res' s'')
    then show ?case by (simp add: kConstraintReplaceTimes_def)
  qed
qed

lemma mutate_one_number: "post (mutate_one fd root ir acc) s (\<lambda>acc' _. length (fst acc') \<le> length (fst acc) + 7)"
proof -
  have add: "post (add_variant fd root ir i acc) s (\<lambda>acc' _. length (fst acc') \<le> length (fst acc) + 1)"
    for i acc and s :: "'a mutator_scheme"
    unfolding add_variant_def case_prod_unfold post_bnd post_gets
    by (rule post_mono [OF post_True], rule post_mono [OF post_True], rule post_mono [OF post_True],
        rule post_mono [OF post_True]) (simp add: Let_def post_return)
  show ?thesis
  proof (cases "ptr_eq ir root \<or> \<not> should_mutate ir s")
    case True
    then show ?thesis by (simp add: mutate_one_def post_bnd post_gets post_return)
  next
    case False
    show ?thesis
      unfolding mutate_one_def post_bnd post_gets if_not_P [OF False]
    proof (rule post_mono [OF MutateIR_number], goal_cases)
      case (1 vs s')
      show ?case
        by (rule post_mono [OF foldM_measure [where g = "\<lambda>acc. length (fst acc)" and k = 1]], rule add) (use 1 in simp)
    qed
  qed
qed

lemma MutateIRs_number: "post (MutateIRs fd irs) s (\<lambda>res _. length res \<le> 7 * length irs)"
  unfolding MutateIRs_def Let_def post_bnd post_require
proof (intro impI, rule post_mono [OF foldM_measure [where g = "\<lambda>acc. length (fst acc)" and k = 7]], rule mutate_one_number, goal_cases)
  case (1 acc s')
  then show ?case by (cases acc) (simp add: post_return)
qed

section \<open>What the operations do\<close>

definition accepted :: "host \<Rightarrow> string \<Rightarrow> bool" where
  "accepted h x \<longleftrightarrow> \<not> pr_error (host_parse h x) \<and> pr_tree (host_parse h x) \<noteq> None"

definition translation_errors :: "host \<Rightarrow> error set" where
  "translation_errors h = {e. \<exists>src. \<exists>s :: runtime. antlr_TranslateToIR (host_parse h) src s = Inl e}"

text \<open>The scopes a program opens are those of the rules of its parse tree.\<close>

interpretation scopes: translation_weight "\<lambda>i. of_bool (opens i)" "\<lambda>ctx. of_bool (rc_scope_type ctx \<noteq> kScopeDefault)"
  by unfold_locales (auto simp: opens_def)

definition pt_scopes :: "parse_tree \<Rightarrow> nat" where
  "pt_scopes = pt_weight (\<lambda>ctx. of_bool (rc_scope_type ctx \<noteq> kScopeDefault))"

lemma scope_count_weight: "tree_weight (\<lambda>i. of_bool (opens i)) t = scope_count t"
  by (induction t) auto

lemma opens_finish: "rc_scope_type ctx \<noteq> kScopeDefault \<Longrightarrow> t \<noteq> NullIR \<Longrightarrow> opens (ir_info (finish_node ctx t))"
  by (cases t) (simp_all add: finish_node_def SetScopeType_def SetDataType_def opens_def)

lemma post_TranslateNode_opens:
  assumes "rc_scope_type ctx \<noteq> kScopeDefault"
  shows "post (TranslateNode (Rule ctx cs)) s (\<lambda>t _. t \<noteq> NullIR \<longrightarrow> opens (ir_info t))"
  using opens_finish [OF assms] by (auto simp: post_def bnd_def m_eval split: sum.splits)

text \<open>The root comes from an accepted input whose text (\<open>pt_text\<close>) it has, and opens the scopes of its rules.\<close>

definition root_of :: "host \<Rightarrow> string \<Rightarrow> IR \<Rightarrow> bool" where
  "root_of h src root \<longleftrightarrow> accepted h src \<and>
     (\<forall>tree. pr_tree (host_parse h src) = Some tree \<longrightarrow> (\<forall>fd. ir_text fd root = pt_text tree) \<and>
        scope_count root = pt_scopes tree \<and>
        (\<forall>ctx cs. tree = Rule ctx cs \<longrightarrow> rc_scope_type ctx \<noteq> kScopeDefault \<longrightarrow> opens (ir_info root)))"

lemma post_root_of:
  assumes "pr_tree (host_parse h src) = Some tree" and "\<not> pr_error (host_parse h src)"
  shows "post (TranslateNode tree) r (\<lambda>t _. t \<noteq> NullIR \<longrightarrow> root_of h src t)"
proof -
  have "post (TranslateNode tree) r (\<lambda>t _. t \<noteq> NullIR \<longrightarrow>
      (\<forall>ctx cs. tree = Rule ctx cs \<longrightarrow> rc_scope_type ctx \<noteq> kScopeDefault \<longrightarrow> opens (ir_info t)))"
  proof (cases "\<exists>ctx cs. tree = Rule ctx cs \<and> rc_scope_type ctx \<noteq> kScopeDefault")
    case True
    then obtain ctx cs where tree: "tree = Rule ctx cs" and sc: "rc_scope_type ctx \<noteq> kScopeDefault" by blast
    show ?thesis
      unfolding tree by (rule post_mono [OF post_TranslateNode_opens [OF sc]]) auto
  qed (auto simp: post_def split: sum.split)
  note post_conj [OF this post_conj [OF post_TranslateNode scopes.post_Translate(1)]]
  then show ?thesis
    by (rule post_mono)
      (use assms in \<open>auto simp: translated_def root_of_def accepted_def scopes.weighed_def scope_count_weight pt_scopes_def\<close>)
qed

lemma post_translation:
  "post (antlr_TranslateToIR (host_parse h) src) r (\<lambda>t r'. unshared t \<and> (\<forall>a\<in>set (addrs t). a < rt_next r') \<and>
     (t \<noteq> NullIR \<longrightarrow> root_of h src t))"
proof -
  have "post (TranslateToIR (host_parse h) src) r (\<lambda>t r'. t \<noteq> NullIR \<longrightarrow> root_of h src t)"
  proof (cases "pr_tree (host_parse h src)")
    case None
    then show ?thesis by (simp add: post_def TranslateToIR_apply Let_def)
  next
    case (Some tree)
    show ?thesis
    proof (cases "rt_listener_error r \<or> pr_error (host_parse h src)")
      case True
      then show ?thesis using Some by (auto simp: post_def TranslateToIR_apply Let_def)
    next
      case False
      then have eq: "TranslateToIR (host_parse h) src r = TranslateNode tree (r\<lparr>rt_listener_error := False,
          rt_parse_counter := (if 10000 < rt_parse_counter r then 0 else Suc (rt_parse_counter r))\<rparr>)"
        using Some by (simp add: TranslateToIR_apply Let_def)
      have "post (TranslateNode tree) r' (\<lambda>t _. t \<noteq> NullIR \<longrightarrow> root_of h src t)" for r' :: "'a runtime_scheme"
        using post_root_of [OF Some] False by blast
      then show ?thesis unfolding post_def eq .
    qed
  qed
  from post_conj [OF this post_TranslateToIR] show ?thesis
    unfolding antlr_TranslateToIR_def by (rule post_mono) auto
qed

lemma only_translation:
  assumes "\<And>t (r' :: runtime). unshared t \<Longrightarrow> \<forall>a\<in>set (addrs t). a < rt_next r' \<Longrightarrow> (t \<noteq> NullIR \<Longrightarrow> root_of h src t) \<Longrightarrow> Q t (with_runtime r' s)"
  shows "only (translation_errors h) (on_frontend (antlr_TranslateToIR (host_parse h) src)) s Q"
proof -
  have "only (translation_errors h) (antlr_TranslateToIR (host_parse h) src) (runtime.truncate s) (\<lambda>_ _. True)"
    by (auto simp: only_def translation_errors_def split: sum.split)
  from only_post [OF this post_translation] show ?thesis
    unfolding only_on
  proof (rule only_mono, goal_cases)
    case (1 x r')
    then show ?case by (intro assms) simp_all
  qed
qed

lemma Parsable_accepted: "post (antlr_Parsable (host_parse h) src) r (\<lambda>b _. b \<longrightarrow> accepted h src)"
  unfolding antlr.parsable post_bnd post_return
  by (rule post_mono [OF post_translation]) (auto simp: root_of_def)

lemma only_Parsable:
  assumes "\<And>b (r' :: runtime). (b \<Longrightarrow> accepted h src) \<Longrightarrow> Q b (with_runtime r' s)"
  shows "only (translation_errors h) (on_frontend (antlr_Parsable (host_parse h) src)) s Q"
proof -
  have "only (translation_errors h) (antlr_Parsable (host_parse h) src) (runtime.truncate s) (\<lambda>_ _. True)"
    unfolding antlr.parsable only_bnd only_return
    by (auto simp: only_def translation_errors_def split: sum.split)
  from only_post [OF this Parsable_accepted] show ?thesis
    unfolding only_on
  proof (rule only_mono, goal_cases)
    case (1 x r')
    then show ?case by (intro assms) simp_all
  qed
qed

text \<open>Adding a program to the library.\<close>

lemma post_evict_more: "post (evict fd ty) s (\<lambda>_ s'. ir_library.more s' = ir_library.more s)"
  unfolding evict_def Let_def post_bnd post_gets post_modify by (rule post_mono [OF post_get_rand_int]) simp

lemma post_Save_more:
  fixes s :: "'z ir_library_scheme"
  shows "post (SaveIRRecursive fd t) s (\<lambda>_ s'. ir_library.more s' = ir_library.more s)"
proof (induction t arbitrary: s)
  case NullIR
  then show ?case by (simp add: post_throw)
next
  case (Node a i l r)
  have evict: "post (if full then evict fd ty else return ()) s (\<lambda>_ s'. ir_library.more s' = ir_library.more s)"
    for full ty and s :: "'z ir_library_scheme"
    by (simp add: post_evict_more post_return)
  have child: "post (if c \<noteq> NullIR then SaveIRRecursive fd c else return ()) s (\<lambda>_ s'. ir_library.more s' = ir_library.more s)"
    if "\<And>s :: 'z ir_library_scheme. post (SaveIRRecursive fd c) s (\<lambda>_ s'. ir_library.more s' = ir_library.more s)" for c and s :: "'z ir_library_scheme"
    using that by (simp add: post_return)
  have rest: "post (bnd (if full then evict fd ty else return ()) (\<lambda>_. bnd (modify (\<lambda>s. s\<lparr>lib_irs := F s, lib_hash := G s\<rparr>)) (\<lambda>_.
      bnd (if l \<noteq> NullIR then SaveIRRecursive fd l else return ()) (\<lambda>_.
      if r \<noteq> NullIR then SaveIRRecursive fd r else return ())))) s (\<lambda>_ s'. ir_library.more s' = ir_library.more s)"
    for full ty F G and s :: "'z ir_library_scheme"
    unfolding post_bnd post_modify
    by (rule post_mono [OF evict], rule post_mono [OF child [OF Node.IH(1)]], rule post_mono [OF child [OF Node.IH(2)]]) simp
  show ?case
    unfolding SaveIRRecursive.simps Let_def
    using rest by (simp add: post_bnd post_gets post_return)
qed

lemma ok_AddIRToLibrary:
  assumes "minv fd s" and "t \<noteq> NullIR"
  shows "ok (Mutator.AddIRToLibrary fd t) s (\<lambda>_ s'. minv fd s')"
  unfolding Mutator.AddIRToLibrary_def ok_bnd
proof (rule ok_mono [OF ok_ExtractStructure [OF assms(2)]], elim conjE, goal_cases)
  case (1 t' s')
  have m: "minv fd s'" using alloc_only_stable [OF 1(1) assms(1)] by (simp add: stable_def)
  then have li: "lib_inv fd s'" by (simp add: minv_def)
  show ?case
    unfolding ok_Inr_iff
  proof -
    obtain x s'' where run: "SaveIRRecursive fd t' s' = Inr (x, s'')" and li': "lib_inv fd s''"
      using ok_SaveIRRecursive [OF li 1(2)] unfolding ok_Inr_iff by blast
    have "ir_library.more s'' = ir_library.more s'" by (rule post_Inr [OF post_Save_more run])
    then have "mut_convertable_map s'' = mut_convertable_map s'" by (cases s'; cases s'') simp
    then have "minv fd s''" using li' m by (simp add: minv_def)
    then show "\<exists>x s''. SaveIRRecursive fd t' s' = Inr (x, s'') \<and> minv fd s''" using run by blast
  qed
qed

definition fuzzer_inv :: "host \<Rightarrow> 'z fuzzer_scheme \<Rightarrow> bool" where
  "fuzzer_inv h s \<longleftrightarrow> minv (host_double h) (g_mutator s)"

text \<open>What may stop an operation: with \<open>SyntaxOnly\<close> only the translation of an input.\<close>

definition stops :: "host \<Rightarrow> configuration \<Rightarrow> error set" where
  "stops h c = (if is_init c \<and> SyntaxOnly c then translation_errors h else UNIV)"

lemma translation_subset: "translation_errors h \<subseteq> stops h c"
  by (simp add: stops_def)

lemma only_AddToIRLibrary:
  assumes "fuzzer_inv h s"
  shows "only (translation_errors h) (AddToIRLibrary h mem) s (\<lambda>_ s'. fuzzer_inv h s' \<and>
     g_configuration s' = g_configuration s \<and> save_test_cases s' = save_test_cases s)"
  unfolding AddToIRLibrary_def only_bnd
proof (rule only_translation, goal_cases)
  case (1 t r')
  let ?s = "with_runtime r' s"
  have m: "minv (host_double h) (with_runtime ?s (g_mutator ?s))" using assms by (simp add: fuzzer_inv_def)
  show ?case
  proof (cases "t = NullIR")
    case True
    then show ?thesis using assms by (simp add: only_return fuzzer_inv_def)
  next
    case False
    then show ?thesis
      using ok_AddIRToLibrary [OF m False] by (auto simp: only_on fuzzer_inv_def intro!: only_ok elim!: ok_mono)
  qed
qed

section \<open>What a call of Mutate saves\<close>

definition saved_as :: "configuration \<Rightarrow> host \<Rightarrow> IR \<Rightarrow> string \<Rightarrow> bool" where
  "saved_as c h v x \<longleftrightarrow>
     (if SyntaxOnly c then x = ToString (host_double h) v \<and> accepted h x \<and> GetChildNum v \<le> 1500
      else \<exists>u. fixed_program v u \<and> x = ToString (host_double h) u)"

definition saves :: "host \<Rightarrow> IR list \<Rightarrow> 'z fuzzer_scheme \<Rightarrow> 'z fuzzer_scheme \<Rightarrow> bool" where
  "saves h vs s s' \<longleftrightarrow> g_configuration s' = g_configuration s \<and> g_mutator s' = g_mutator s \<and>
     (\<exists>us xs. subseq us vs \<and> list_all2 (saved_as (g_configuration s) h) us xs \<and>
        save_test_cases s' = save_test_cases s @ xs)"

lemma saves_none: "g_configuration s' = g_configuration s \<Longrightarrow> g_mutator s' = g_mutator s \<Longrightarrow>
    save_test_cases s' = save_test_cases s \<Longrightarrow> saves h vs s s'"
  unfolding saves_def by (intro conjI exI [of _ "[]"]) simp_all

lemma saves_one: "g_configuration s' = g_configuration s \<Longrightarrow> g_mutator s' = g_mutator s \<Longrightarrow>
    save_test_cases s' = save_test_cases s @ [x] \<Longrightarrow> saved_as (g_configuration s) h v x \<Longrightarrow> saves h [v] s s'"
  unfolding saves_def by (intro conjI exI [of _ "[v]"] exI [of _ "[x]"]) simp_all

lemma saves_append: "saves h vs s s' \<Longrightarrow> saves h vs' s' s'' \<Longrightarrow> saves h (vs @ vs') s s''"
proof -
  assume A: "saves h vs s s'" and B: "saves h vs' s' s''"
  obtain us xs where x: "subseq us vs" "list_all2 (saved_as (g_configuration s) h) us xs" "save_test_cases s' = save_test_cases s @ xs"
    using A by (auto simp: saves_def)
  obtain us' xs' where y: "subseq us' vs'" "list_all2 (saved_as (g_configuration s) h) us' xs'"
    "save_test_cases s'' = save_test_cases s' @ xs'"
    using A B by (auto simp: saves_def)
  have "subseq (us @ us') (vs @ vs')" "list_all2 (saved_as (g_configuration s) h) (us @ us') (xs @ xs')"
    using list_emb_append_mono [OF x(1) y(1)] list_all2_appendI [OF x(2) y(2)] by simp_all
  moreover have "save_test_cases s'' = save_test_cases s @ xs @ xs'" using x(3) y(3) by simp
  ultimately show ?thesis using A B unfolding saves_def by metis
qed

lemma only_save_variant: "only (stops h (g_configuration s)) (save_variant h v) s (\<lambda>_ s'. saves h [v] s s')"
  unfolding save_variant_def only_GetInstance
proof (split if_split, intro conjI impI, goal_cases)
  case init: 1
  show ?case
  proof (cases "SyntaxOnly (g_configuration s)")
    case so: True
    have "only (translation_errors h)
        (bnd (on_frontend (antlr_Parsable (host_parse h) (ToString (host_double h) v))) (\<lambda>parsable.
           if parsable then push_test_case (ToString (host_double h) v) else return ())) s (\<lambda>_ s'. saves h [v] s s')"
      if "\<not> 1500 < GetChildNum v"
      unfolding only_bnd
    proof (rule only_Parsable, goal_cases)
      case (1 b r')
      show ?case
      proof (cases b)
        case True
        then show ?thesis
          using 1 that so by (simp add: push_test_case_def only_modify saved_as_def saves_one linorder_not_less)
      qed (simp add: only_return saves_none)
    qed
    then show ?thesis using init so by (simp add: stops_def Let_def only_return saves_none)
  next
    case so: False
    have "post (bnd (on_validator (Validate (g_configuration s) (host_order h) (host_double h) v)) (\<lambda>(r, ir).
        if r = kSuccess then push_test_case (ToString (host_double h) ir) else return ())) s (\<lambda>_ s'. saves h [v] s s')"
      unfolding post_bnd post_on
    proof (rule post_mono [OF post_Validate], goal_cases)
      case (1 x val)
      then obtain u where "x = (kSuccess, u)" "fixed_program v u" by (cases x) auto
      then show ?case using so by (auto simp: push_test_case_def post_modify saved_as_def intro!: saves_one)
    qed
    then show ?thesis using so by (simp add: stops_def only_UNIV)
  qed
qed (simp add: stops_def)

lemma only_save_variants:
  "only (stops h (g_configuration s)) (foldM (\<lambda>ir _. save_variant h ir) vs ()) s (\<lambda>_ s'. saves h vs s s')"
proof (induction vs arbitrary: s)
  case Nil
  then show ?case by (simp add: only_return saves_none)
next
  case (Cons v vs)
  show ?case
    unfolding foldM.simps only_bnd
  proof (rule only_mono [OF only_save_variant], goal_cases)
    case (1 x s')
    then have "g_configuration s' = g_configuration s" by (simp add: saves_def)
    with Cons [of s'] have "only (stops h (g_configuration s)) (foldM (\<lambda>ir _. save_variant h ir) vs x) s' (\<lambda>_ s''. saves h vs s' s'')"
      by simp
    then show ?case by (rule only_mono) (use saves_append [OF 1] in simp)
  qed
qed

text \<open>Nothing is saved, or the texts saved are those of some of at most 10500 variants, in their order.\<close>

definition mutated :: "host \<Rightarrow> string \<Rightarrow> 'z fuzzer_scheme \<Rightarrow> nat \<Rightarrow> 'z fuzzer_scheme \<Rightarrow> bool" where
  "mutated h src s n s' \<longleftrightarrow> g_configuration s' = g_configuration s \<and>
     (n = 0 \<and> save_test_cases s' = save_test_cases s \<or>
      n = length (save_test_cases s') \<and>
      (\<exists>root vs us xs. root_of h src root \<and> ir_size root \<le> 1500 \<and> length vs \<le> 10500 \<and>
         (\<forall>v\<in>set vs. mutant_of root (g_mutator s) v) \<and>
         subseq us vs \<and> list_all2 (saved_as (g_configuration s) h) us xs \<and>
         save_test_cases s' = save_test_cases s @ xs))"

lemma mutated_number: "mutated h src s n s' \<Longrightarrow> length (save_test_cases s') \<le> length (save_test_cases s) + 10500"
  by (auto simp: mutated_def dest!: list_all2_lengthD list_emb_length)

lemma only_Mutate:
  assumes "fuzzer_inv h s"
  shows "only (stops h (g_configuration s)) (Mutate h src) s (\<lambda>n s'. fuzzer_inv h s' \<and> mutated h src s n s')"
  unfolding Mutate_def only_bnd
proof (rule only_subset [OF only_translation translation_subset], goal_cases)
  case (1 root r')
  let ?s = "with_runtime r' s"
  have inv: "minv (host_double h) (g_mutator ?s)" "fuzzer_inv h ?s" using assms by (simp_all add: fuzzer_inv_def)
  have none: "fuzzer_inv h ?s \<and> mutated h src s 0 ?s" using inv by (simp add: mutated_def)
  show ?case
  proof (cases "root = NullIR \<or> 1500 < length (CollectAllIRs root)")
    case True
    then show ?thesis using none by (auto simp: only_return Let_def)
  next
    case False
    then have root: "root \<noteq> NullIR" "length (CollectAllIRs root) \<le> 1500" by auto
    have m: "minv (host_double h) (with_runtime ?s (g_mutator ?s))" using inv by simp
    let ?rest = "bnd (on_mutator (MutateIRs (host_double h) (CollectAllIRs root))) (\<lambda>mutated_tree.
         bnd (foldM (\<lambda>ir _. save_variant h ir) mutated_tree ()) (\<lambda>_. gets (\<lambda>s. length (save_test_cases s))))"
    have "only (stops h (g_configuration s)) ?rest ?s (\<lambda>n s'. fuzzer_inv h s' \<and> mutated h src s n s')"
      unfolding only_bnd only_on only_gets
    proof (rule only_mono [OF only_post [OF only_ok [OF ok_MutateIRs [OF m root(1) 1(1)]] MutateIRs_number]], goal_cases)
      case (1 vs mu)
      let ?t = "with_runtime mu (?s\<lparr>g_mutator := mu\<rparr>)"
      have vs: "\<forall>v\<in>set vs. mutant_of root (g_mutator s) v" "length vs \<le> 10500" using 1 root(2) by auto
      have mu: "minv (host_double h) mu" using 1 by (simp add: stable_def)
      have "only (stops h (g_configuration s)) (foldM (\<lambda>ir _. save_variant h ir) vs ()) ?t (\<lambda>_ s'. saves h vs ?t s')"
        using only_save_variants [of h ?t vs] by simp
      then show ?case
      proof (rule only_mono, goal_cases)
        case (1 x s')
        have "fuzzer_inv h s'" using 1 mu by (simp add: saves_def fuzzer_inv_def)
        moreover have "root_of h src root" "ir_size root \<le> 1500"
          using \<open>root \<noteq> NullIR \<Longrightarrow> root_of h src root\<close> root length_CollectAllIRs by auto
        ultimately show ?case using 1 vs unfolding saves_def mutated_def by simp blast
      qed
    qed
    then show ?thesis using root by (simp add: Let_def)
  qed
qed

section \<open>Sessions\<close>

definition syntax_only_inv :: "host \<Rightarrow> 'z fuzzer_scheme \<Rightarrow> bool" where
  "syntax_only_inv h s \<longleftrightarrow> fuzzer_inv h s \<and> is_init (g_configuration s) \<and> SyntaxOnly (g_configuration s)"

lemma only_queue_new_entry:
  assumes "fuzzer_inv h s"
  shows "only (translation_errors h) (afl_custom_queue_new_entry h f) s (\<lambda>_ s'. fuzzer_inv h s' \<and>
     g_configuration s' = g_configuration s \<and> save_test_cases s' = save_test_cases s)"
  unfolding afl_custom_queue_new_entry_def only_bnd only_return
  by (rule only_mono [OF only_AddToIRLibrary [OF assms]]) simp

lemma only_fuzz_count:
  assumes "fuzzer_inv h s" and "save_test_cases s = []"
  shows "only (stops h (g_configuration s)) (afl_custom_fuzz_count h buf) s (\<lambda>n s'. fuzzer_inv h s' \<and>
     g_configuration s' = g_configuration s \<and> unat n = length (save_test_cases s'))"
  unfolding afl_custom_fuzz_count_def only_bnd only_gets only_require only_return HasMutatedTextCase_def
proof (simp only: assms(2) not_False_eq_True if_True simp_thms, rule only_mono [OF only_Mutate [OF assms(1)]], goal_cases)
  case (1 n s')
  then have "n = length (save_test_cases s')" "n \<le> 10500"
    using mutated_number [of h "c_str buf" s n s'] assms(2) by (auto simp: mutated_def)
  then show ?case using 1 by (simp add: mutated_def unat_of_nat)
qed

lemma ok_fuzz:
  assumes "save_test_cases s \<noteq> []"
  shows "ok afl_custom_fuzz s (\<lambda>(out, n) s'. g_mutator s' = g_mutator s \<and> g_configuration s' = g_configuration s \<and>
     g_validator s' = g_validator s \<and>
     out = last (save_test_cases s) \<and> n = length out \<and> save_test_cases s' = butlast (save_test_cases s))"
  using assms by (simp add: afl_custom_fuzz_def GetNextMutatedTestCase_def m_simps)

interpretation polyglot: custom_mutator "afl_custom_queue_new_entry h" "afl_custom_fuzz_count h" afl_custom_fuzz
  "fuzzer_inv h" save_test_cases for h :: host
proof unfold_locales
  fix s :: "'z fuzzer_scheme" and f
  assume "fuzzer_inv h s"
  from only_queue_new_entry [OF this, of f] show "post (afl_custom_queue_new_entry h f) s (\<lambda>_ s'. fuzzer_inv h s' \<and> save_test_cases s' = save_test_cases s)"
    by (auto simp: only_def post_def split: sum.splits)
next
  fix s :: "'z fuzzer_scheme" and buf
  assume "fuzzer_inv h s" "save_test_cases s = []"
  from only_fuzz_count [OF this, of buf] show "post (afl_custom_fuzz_count h buf) s (\<lambda>n s'. fuzzer_inv h s' \<and> unat n = length (save_test_cases s'))"
    by (auto simp: only_def post_def split: sum.splits)
next
  fix s :: "'z fuzzer_scheme"
  assume "fuzzer_inv h s" "save_test_cases s \<noteq> []"
  then show "ok afl_custom_fuzz s (\<lambda>(out, n) s'. fuzzer_inv h s' \<and> out = last (save_test_cases s) \<and> n = length out \<and>
      save_test_cases s' = butlast (save_test_cases s))"
    by (intro ok_mono [OF ok_fuzz]) (auto simp: fuzzer_inv_def)
qed

interpretation syntax_only: total_custom_mutator "afl_custom_queue_new_entry h" "afl_custom_fuzz_count h" afl_custom_fuzz
  "syntax_only_inv h" save_test_cases "translation_errors h" for h :: host
proof unfold_locales
  fix s :: "'z fuzzer_scheme" and f
  assume "syntax_only_inv h s"
  then have i: "fuzzer_inv h s" "is_init (g_configuration s)" "SyntaxOnly (g_configuration s)"
    by (simp_all add: syntax_only_inv_def)
  from only_queue_new_entry [OF i(1), of f]
  show "post (afl_custom_queue_new_entry h f) s (\<lambda>_ s'. syntax_only_inv h s' \<and> save_test_cases s' = save_test_cases s)"
    and "only (translation_errors h) (afl_custom_queue_new_entry h f) s (\<lambda>_ _. True)"
    using i by (auto simp: only_def post_def syntax_only_inv_def split: sum.splits)
next
  fix s :: "'z fuzzer_scheme" and buf
  assume "syntax_only_inv h s" and e: "save_test_cases s = []"
  then have i: "fuzzer_inv h s" "is_init (g_configuration s)" "SyntaxOnly (g_configuration s)"
    by (simp_all add: syntax_only_inv_def)
  then have st: "stops h (g_configuration s) = translation_errors h" by (simp add: stops_def)
  from only_fuzz_count [OF i(1) e, unfolded st, of buf]
  show "post (afl_custom_fuzz_count h buf) s (\<lambda>n s'. syntax_only_inv h s' \<and> unat n = length (save_test_cases s'))"
    and "only (translation_errors h) (afl_custom_fuzz_count h buf) s (\<lambda>_ _. True)"
    using i by (auto simp: only_def post_def syntax_only_inv_def split: sum.splits)
next
  fix s :: "'z fuzzer_scheme"
  assume "syntax_only_inv h s" "save_test_cases s \<noteq> []"
  then show "ok afl_custom_fuzz s (\<lambda>(out, n) s'. syntax_only_inv h s' \<and> out = last (save_test_cases s) \<and> n = length out \<and>
      save_test_cases s' = butlast (save_test_cases s))"
    by (intro ok_mono [OF ok_fuzz]) (auto simp: fuzzer_inv_def syntax_only_inv_def)
qed

section \<open>The start\<close>

lemma add_init_file_AddToIRLibrary: "add_init_file h f x = AddToIRLibrary h (ReadFileIntoString (host_files h) f)"
  by (simp add: add_init_file_def AddToIRLibrary_def)

definition started :: "host \<Rightarrow> 'z fuzzer_scheme \<Rightarrow> bool" where
  "started h s \<longleftrightarrow> fuzzer_inv h s \<and> save_test_cases s = [] \<and> is_init (g_configuration s)"

lemma post_AddToIRLibrary:
  assumes "started h s"
  shows "post (AddToIRLibrary h mem) s (\<lambda>_ s'. started h s')"
proof -
  have i: "fuzzer_inv h s" using assms by (simp add: started_def)
  show ?thesis
    using only_AddToIRLibrary [OF i, of mem] assms by (auto simp: only_def post_def started_def split: sum.splits)
qed

text \<open>The state with a new object.\<close>

definition fresh_object :: "host \<Rightarrow> 'z fuzzer_scheme \<Rightarrow> 'z fuzzer_scheme" where
  "fresh_object h s = s\<lparr>rt_rand := host_srand h, rt_pos := 0, current_input := [], save_test_cases := [],
     g_mutator := (g_mutator s)\<lparr>lib_irs := (\<lambda>_. []), lib_hash := (\<lambda>_. {}), mut_record := NullIR,
       mut_not_mutatable_types := {}, mut_convertable_map := []\<rparr>\<rparr>"

lemma fresh_object_fields [simp]:
  "g_configuration (fresh_object h s) = g_configuration s" "g_validator (fresh_object h s) = g_validator s"
  "save_test_cases (fresh_object h s) = []" "lib_irs (g_mutator (fresh_object h s)) = (\<lambda>_. [])"
  by (cases s; simp add: fresh_object_def)+

lemma new_PolyGlotMutator_fresh: "new_PolyGlotMutator h = modify (fresh_object h)"
  by (simp add: new_PolyGlotMutator_def fresh_object_def fun_eq_iff m_eval)

lemma fuzzer_inv_fresh: "lib_empty_ir (g_mutator s) = NullIR \<Longrightarrow> fuzzer_inv h (fresh_object h s)"
  by (simp add: fuzzer_inv_def fresh_object_def minv_def lib_inv_def shelf_ok_def empty_ok_def)

text \<open>What holds of a new object under an initialized configuration, and is kept by adding a program to the
  library, holds after \<open>afl_custom_init\<close>, which may also stop.\<close>

lemma post_init_keeps:
  assumes new: "\<And>c. is_init c \<Longrightarrow> I (fresh_object h (s\<lparr>g_configuration := c\<rparr>))"
    and add: "\<And>s mem. I s \<Longrightarrow> post (AddToIRLibrary h mem) s (\<lambda>_. I)"
  shows "post (afl_custom_init y h) s (\<lambda>_. I)"
proof (cases "host_config h")
  case None
  then show ?thesis by (simp add: afl_custom_init_def post_throw)
next
  case (Some config)
  have files: "post (foldM (add_init_file h) fs ()) u (\<lambda>_. I)" if "I u" for fs and u :: "'a fuzzer_scheme"
    by (rule post_foldM [where I = "\<lambda>_. I"]) (use that in \<open>auto simp: add_init_file_AddToIRLibrary intro: add\<close>)
  have dirs: "post (bnd (lift_result r) (\<lambda>fs. foldM (add_init_file h) fs ())) u (\<lambda>_. I)" if "I u" for r and u :: "'a fuzzer_scheme"
    using files [OF that] by (cases r) (simp_all add: post_def bnd_def lift_result_apply)
  have lib: "post (Initialize_library h) u (\<lambda>_. I)" if "is_init (g_configuration u) \<Longrightarrow> I u" for u :: "'a fuzzer_scheme"
    unfolding Initialize_library_def only_UNIV [symmetric] only_GetInstance
    using dirs that by (simp add: only_UNIV)
  show ?thesis
    unfolding afl_custom_init_def Some option.case CreateInstance_def new_PolyGlotMutator_fresh
      post_bnd post_on post_require post_modify
    by (rule post_mono [OF post_True], intro impI lib new) simp
qed

lemma post_init:
  assumes "lib_empty_ir (g_mutator s) = NullIR"
  shows "post (afl_custom_init y h) s (\<lambda>_ s'. started h s')"
proof (rule post_init_keeps)
  fix c :: configuration
  assume "is_init c"
  then show "started h (fresh_object h (s\<lparr>g_configuration := c\<rparr>))"
    using fuzzer_inv_fresh [of "s\<lparr>g_configuration := c\<rparr>" h] assms by (simp add: started_def)
qed (rule post_AddToIRLibrary)

section \<open>Properties\<close>

lemma translation_errors_empty:
  assumes "\<And>src tree. pr_tree (host_parse h src) = Some tree \<Longrightarrow> \<not> pr_error (host_parse h src) \<Longrightarrow> is_rule tree \<and> pt_ok tree"
  shows "translation_errors h = {}"
proof -
  have "\<exists>r. antlr_TranslateToIR (host_parse h) src s = Inr r" for src and s :: runtime
  proof -
    have "\<exists>r. TranslateNode tree s = Inr r" if "is_rule tree \<and> pt_ok tree" for tree and s :: runtime
      using that ok_TranslateNode_Children(1) by (fastforce simp: ok_Inr_iff)
    with assms [of src] show ?thesis
      unfolding antlr_TranslateToIR_def TranslateToIR_apply Let_def by (auto split: option.split)
  qed
  then show ?thesis by (auto simp: translation_errors_def) (metis Inl_Inr_False)
qed

text \<open>C5: Mutating an input keeps the library's invariant and the configuration, and saves nothing or, for an
  accepted input of at most 1500 nodes, the texts of some of its at most 10500 variants, in their
  order: in syntax-only mode of variants with at most 1500 nodes whose text the parser accepts,
  otherwise of variants the validator fixed. In syntax-only mode only a translation can stop it.\<close>

theorem Mutate_saves:
  assumes "fuzzer_inv h s"
  shows "only (stops h (g_configuration s)) (Mutate h src) s (\<lambda>n s'. fuzzer_inv h s' \<and> mutated h src s n s')"
  using assms by (rule only_Mutate)

text \<open>C8: Whatever AFL++ calls after a successful \<open>afl_custom_init\<close>, the number of calls of
  \<open>afl_custom_fuzz\<close> it still has to make is the number of saved test cases: the assertion of
  \<open>afl_custom_fuzz_count\<close> holds when its turn comes, and a call of \<open>afl_custom_fuzz\<close> never finds the
  stack empty.\<close>

theorem session_in_step:
  assumes "lib_empty_ir (g_mutator s) = NullIR" and "afl_custom_init y h s = Inr (u, s0)"
    and "(afl_step (afl_custom_queue_new_entry h) (afl_custom_fuzz_count h) afl_custom_fuzz)\<^sup>*\<^sup>* (0, s0) (k, s')"
  shows "fuzzer_inv h s' \<and> k = length (save_test_cases s') \<and> (k = 0 \<longleftrightarrow> \<not> HasMutatedTextCase s') \<and>
    (0 < k \<longrightarrow> (\<exists>s''. afl_custom_fuzz s' = Inr ((last (save_test_cases s'), length (last (save_test_cases s'))), s'')))"
proof -
  have "started h s0" by (rule post_Inr [OF post_init [OF assms(1)] assms(2)])
  then have I: "fuzzer_inv h s'" "k = length (save_test_cases s')"
    using polyglot.session_keeps [OF assms(3)] by (simp_all add: started_def)
  then show ?thesis using ok_fuzz [of s'] by (auto simp: HasMutatedTextCase_def ok_Inr_iff)
qed

text \<open>C2: In syntax-only mode, with a parser whose accepted inputs have trees without error nodes and with
  integer literals in range, a session never stops: every new queue entry is taken, every count
  returns, and the calls after it hand out exactly the saved test cases, the last one first, and
  leave none.\<close>

theorem syntax_only_session:
  assumes "lib_empty_ir (g_mutator s) = NullIR" and "afl_custom_init y h s = Inr (u, s0)"
    and "SyntaxOnly (g_configuration s0)"
    and "\<And>src tree. pr_tree (host_parse h src) = Some tree \<Longrightarrow> \<not> pr_error (host_parse h src) \<Longrightarrow> is_rule tree \<and> pt_ok tree"
    and "(afl_step (afl_custom_queue_new_entry h) (afl_custom_fuzz_count h) afl_custom_fuzz)\<^sup>*\<^sup>* (0, s0) (k, s')"
  shows "ok (afl_custom_queue_new_entry h f) s' (\<lambda>_ _. True) \<and>
    (k = 0 \<longrightarrow> ok (afl_custom_fuzz_count h buf) s' (\<lambda>n s''. unat n = length (save_test_cases s''))) \<and>
    ok (afl_round afl_custom_fuzz k) s' (\<lambda>outs s''. outs = rev (save_test_cases s') \<and> save_test_cases s'' = [])"
proof -
  have "started h s0" by (rule post_Inr [OF post_init [OF assms(1)] assms(2)])
  then have I0: "syntax_only_inv h s0" "save_test_cases s0 = []"
    using assms(3) by (simp_all add: started_def syntax_only_inv_def)
  have none: "translation_errors h = {}" using assms(4) by (rule translation_errors_empty)
  have I: "syntax_only_inv h s'" "k = length (save_test_cases s')"
    using syntax_only.session_keeps [OF assms(5) I0] by simp_all
  have "ok (afl_custom_fuzz_count h buf) s' (\<lambda>n s''. unat n = length (save_test_cases s''))" if "k = 0"
    using only_fuzz_count [of h s' buf] I that none
    by (auto simp: syntax_only_inv_def stops_def only_empty elim: ok_mono)
  then show ?thesis using syntax_only.session_only [OF assms(5) I0] none by (simp add: only_empty)
qed

section \<open>Witnesses\<close>

text \<open>A host whose parser accepts every input as \<open>x + x\<close>, an initial directory without files, and a
  configuration in syntax-only mode.\<close>

definition session_tree :: parse_tree where
  "session_tree = Rule (demo_ctx 0 ''x+x'')
     [Rule (demo_ctx 1 ''x+x'')
        [Rule ((demo_ctx 7 ''x'')\<lparr>rc_is_string_literal := True\<rparr>) [Terminal ''x''], Terminal ''+'',
         Rule ((demo_ctx 7 ''x'')\<lparr>rc_is_string_literal := True\<rparr>) [Terminal ''x'']]]"

definition session_host :: host where
  "session_host = \<lparr>host_parse = (\<lambda>src. \<lparr>pr_error = False, pr_tree = Some session_tree\<rparr>),
     host_double = (\<lambda>_. []), host_order = (\<lambda>ks. ks),
     host_files = \<lparr>fs_is_dir = (\<lambda>d. d = ''/init''), fs_read_dir = (\<lambda>_. Some [''.'', ''..'']), fs_read_file = (\<lambda>_. ''x + x'')\<rparr>,
     host_config = Some ''config.yaml'', host_srand = (\<lambda>n. n)\<rparr>"

definition session_yaml :: "ynode yaml" where
  "session_yaml = demo_yaml (YMap [(''IsWeakType'', YScalar ''true''), (''InitFileDir'', YScalar ''/init''),
     (''BuiltinObjFile'', YScalar ''/obj''), (''SyntaxOnly'', YScalar ''true''), (''BasicTypes'', YSeq [])])"

definition session_process :: fuzzer where
  "session_process = runtime.extend demo_state \<lparr>g_configuration = initial_configuration, g_mutator = demo_mutator,
     g_validator = demo_validator, current_input = [], save_test_cases = []\<rparr>"

definition session_configuration :: configuration where
  "session_configuration = \<lparr>is_init = True, syntax_only = True, is_weak_type = True,
     init_dir_path = ''/init'', built_in_object_file_path = ''/obj'', basic_types = []\<rparr>"

definition session_start :: fuzzer where
  "session_start = fresh_object session_host (session_process\<lparr>g_configuration := session_configuration\<rparr>)"

lemma session_Initialize:
  "Initialize session_yaml ''config.yaml'' initial_configuration = Inr (True, session_configuration)"
  by (simp add: Initialize_def Init_def ConfigFileValidate_def IsNodeBool_def session_yaml_def demo_yaml_def
      initial_configuration_def session_configuration_def bnd_def lift_result_def return_def modify_def)

text \<open>A process with this initial directory starts with a new object.\<close>

lemma session_init_with:
  assumes "Initialize y ''config.yaml'' initial_configuration = Inr (True, c)" and "is_init c" and "init_dir_path c = ''/init''"
    and "host_config h = Some ''config.yaml''" and "host_files h = host_files session_host"
  shows "afl_custom_init y h session_process = Inr ((), fresh_object h (session_process\<lparr>g_configuration := c\<rparr>))"
proof -
  have conf: "g_configuration session_process = initial_configuration"
    "g_configuration (fresh_object h (session_process\<lparr>g_configuration := c\<rparr>)) = c"
    by (simp_all add: session_process_def runtime.defs fresh_object_def)
  have dir: "get_all_files_in_dir (host_files session_host) (Some (c_str (GetInitDirPath c))) = Inr []"
    by (simp add: session_host_def assms(3) GetInitDirPath_def c_str_def get_all_files_in_dir_def)
  show ?thesis
    by (simp add: afl_custom_init_def CreateInstance_def Initialize_library_def bnd_def on_configuration_def conf
        assms m_eval new_PolyGlotMutator_fresh GetInstance_def dir)
qed

lemma session_init: "afl_custom_init session_yaml session_host session_process = Inr ((), session_start)"
  unfolding session_start_def
  by (rule session_init_with [OF session_Initialize]) (simp_all add: session_configuration_def session_host_def)

lemma session_fresh: "lib_empty_ir (g_mutator session_process) = NullIR"
  by (simp add: session_process_def runtime.defs demo_mutator_def ir_library.defs demo_library_def)

lemma session_parser:
  "pr_tree (host_parse session_host src) = Some tree \<Longrightarrow> \<not> pr_error (host_parse session_host src) \<Longrightarrow> is_rule tree \<and> pt_ok tree"
  by (auto simp: session_host_def session_tree_def is_rule_def demo_ctx_def)

lemma Mutate_saves_witness:
  "only (stops session_host initial_configuration) (Mutate session_host ''x + x'') session_process
     (\<lambda>n s'. length (save_test_cases s') \<le> 10500)"
proof -
  have "fuzzer_inv session_host session_process" "g_configuration session_process = initial_configuration"
    "save_test_cases session_process = []"
    by (simp_all add: fuzzer_inv_def session_process_def runtime.defs minv_demo)
  then show ?thesis
    using Mutate_saves [of session_host session_process "''x + x''"] by (auto elim!: only_mono dest!: mutated_number)
qed

lemma session_in_step_witness:
  "\<exists>n s'. afl_custom_fuzz_count session_host ''x + x'' session_start = Inr (n, s') \<and> unat n = length (save_test_cases s')"
proof -
  have st: "fuzzer_inv session_host session_start" "save_test_cases session_start = []"
    using session_in_step [OF session_fresh session_init rtranclp.rtrancl_refl] by simp_all
  have "stops session_host (g_configuration session_start) = {}"
    using translation_errors_empty [OF session_parser]
    by (simp add: stops_def session_start_def fresh_object_def session_configuration_def SyntaxOnly_def)
  then obtain n s' where run: "afl_custom_fuzz_count session_host ''x + x'' session_start = Inr (n, s')"
    using only_fuzz_count [OF st, of "''x + x''"] by (auto simp: only_empty ok_Inr_iff)
  have "(afl_step (afl_custom_queue_new_entry session_host) (afl_custom_fuzz_count session_host) afl_custom_fuzz)\<^sup>*\<^sup>*
      (0, session_start) (unat n, s')"
    by (rule r_into_rtranclp, rule new_round, rule run)
  from session_in_step [OF session_fresh session_init this] run show ?thesis by blast
qed

lemma syntax_only_session_witness:
  "ok (afl_custom_queue_new_entry session_host ''entry'') session_start (\<lambda>_ _. True) \<and>
   ok (afl_custom_fuzz_count session_host ''x + x'') session_start (\<lambda>n s'. unat n = length (save_test_cases s'))"
proof -
  have "SyntaxOnly (g_configuration session_start)"
    by (simp add: session_start_def fresh_object_def session_configuration_def SyntaxOnly_def)
  from syntax_only_session [OF session_fresh session_init this session_parser rtranclp.rtrancl_refl]
  show ?thesis by simp
qed

end
