(* ===== verification/Typed_Sessions.thy ===== *)
theory Typed_Sessions
  imports Fuzzer
begin

text \<open>
  Sessions in a weakly typed language, where every variant goes through the validator: the mutator,
  the library, the validator and the calls of AFL++ together. A program of a language whose start
  rule opens a scope keeps that scope under mutation, and as long as no input opens too many
  scopes neither the library nor a variant does, so that every validation starts from a state in
  which it ends. The result is the set of errors that can stop a session.
\<close>

section \<open>The scopes of a variant\<close>

lemma same_content_opens: "same_content i j \<Longrightarrow> opens j = opens i"
  by (simp add: same_content_def opens_def)

lemma scope_count_copy: "is_copy t t' \<Longrightarrow> scope_count t' = scope_count t"
  by (induction t t' rule: is_copy.induct) (auto simp: same_content_opens split: IR.splits)

lemma scope_count_subtree: "u \<in> set (subtrees t) \<Longrightarrow> scope_count u \<le> scope_count t"
  by (induction t) auto

lemma scope_count_size: "scope_count t \<le> ir_size t"
  by (induction t) auto

lemma scope_count_subst: "unshared t \<Longrightarrow> scope_count (subst_at a v t) \<le> scope_count t + scope_count v"
proof (induction t)
  case (Node b i l r)
  then have sh: "unshared l" "unshared r" "set (addrs l) \<inter> set (addrs r) = {}" by (simp_all add: unshared_Node)
  then consider "a = b" | "a \<notin> set (addrs l)" | "a \<notin> set (addrs r)" by blast
  then show ?case
    using Node.IH(1) [OF sh(1)] Node.IH(2) [OF sh(2)] by cases (auto simp: subst_at_notin)
qed simp

text \<open>Every program of the library opens fewer scopes than the bound.\<close>

definition max_scopes :: nat where
  "max_scopes = 2 ^ 29"

definition small_library :: "'z ir_library_scheme \<Rightarrow> bool" where
  "small_library s \<longleftrightarrow> (\<forall>ty. \<forall>t\<in>set (lib_irs s ty). scope_count t < max_scopes)"

lemma from_lib_scopes: "small_library s \<Longrightarrow> from_lib s ty t \<Longrightarrow> scope_count t < max_scopes"
proof (cases "lib_irs s ty = []")
  case True
  assume "from_lib s ty t"
  then show ?thesis using True by (cases t) (auto simp: from_lib_def empty_ir_like_def is_leaf_def max_scopes_def)
qed (simp add: small_library_def from_lib_def)

lemma variant_scopes:
  assumes "small_library s" and "variant s cur v" and "cur \<noteq> NullIR"
  shows "scope_count v \<le> scope_count cur + 2 * max_scopes"
proof -
  have node: "scope_count t = of_bool (opens (ir_info t)) + scope_count (LeftChild t) + scope_count (RightChild t)"
    if "t \<noteq> NullIR" for t using that by (cases t) simp_all
  have child: "scope_count c' \<le> scope_count c + max_scopes" if "is_copy c c' \<or> new_child s c c'" for c c'
  proof -
    have "scope_count n < max_scopes" if "from_lib s (ir_type (ir_info c)) n" for n
      by (rule from_lib_scopes [OF assms(1) that])
    then show ?thesis using that by (fastforce simp: new_child_def dest: scope_count_copy)
  qed
  have v: "v \<noteq> NullIR" using assms(2) by (simp add: variant_def)
  consider "new_head s cur v" | "new_children s cur v" using assms(2) by (auto simp: variant_def)
  then show ?thesis
  proof cases
    case 1
    then have "scope_count (LeftChild v) = scope_count (LeftChild cur)" "scope_count (RightChild v) = scope_count (RightChild cur)"
      by (auto simp: new_head_def dest: scope_count_copy)
    then show ?thesis using node [OF v] node [OF assms(3)] by (simp add: max_scopes_def of_bool_def)
  next
    case 2
    then have "opens (ir_info v) = opens (ir_info cur)" by (simp add: new_children_def same_content_opens)
    moreover have "scope_count (LeftChild v) \<le> scope_count (LeftChild cur) + max_scopes"
      "scope_count (RightChild v) \<le> scope_count (RightChild cur) + max_scopes"
      using 2 child by (auto simp: new_children_def)
    ultimately show ?thesis using node [OF v] node [OF assms(3)] by simp
  qed
qed

lemma mutant_scopes:
  assumes "small_library s" and "mutant_of root s t" and "unshared root"
  shows "scope_count t \<le> 2 * scope_count root + 2 * max_scopes"
proof -
  obtain ir v where ir: "ir \<in> set (subtrees root)" "variant s ir v" "is_copy (subst_at (ir_addr ir) v root) t"
    using assms(2) by (auto simp: mutant_of_def)
  have "ir \<noteq> NullIR" using ir(1) subtrees_not_Null by auto
  from variant_scopes [OF assms(1) ir(2) this] show ?thesis
    using scope_count_copy [OF ir(3)] scope_count_subst [OF assms(3), of "ir_addr ir" v] scope_count_subtree [OF ir(1)] by simp
qed

lemma mutant_root:
  assumes "mutant_of root s t" and "opens (ir_info root)" and "root \<noteq> NullIR"
  shows "t \<noteq> NullIR" and "opens (ir_info t)"
proof -
  obtain ir v where ir: "ir_addr ir \<noteq> ir_addr root" "is_copy (subst_at (ir_addr ir) v root) t"
    using assms(1) by (auto simp: mutant_of_def)
  then show "t \<noteq> NullIR" and "opens (ir_info t)"
    using assms(2,3) by (cases root; cases t; auto simp: same_content_opens)+
qed

section \<open>The scopes of the library\<close>

lemma post_ExtractStructure_scopes: "post (ExtractStructure t) s (\<lambda>t' _. scope_count t' \<le> scope_count t)"
proof (induction t arbitrary: s)
  case NullIR
  show ?case by (simp add: post_throw)
next
  case (Node a i l r)
  have leaf: "post (new_data_IR ty d) s (\<lambda>t' _. scope_count t' = 0)" for ty d and s :: "'a runtime_scheme"
    by (simp add: post_def new_data_IR_apply opens_def)
  have slot: "post (if c \<noteq> NullIR then (if ir_data_type (ir_info c) = kFixUnit then new_data_IR GetUnknownType (StringData ''FIXME'')
      else ExtractStructure c) else return NullIR) s (\<lambda>t' _. scope_count t' \<le> scope_count c)"
    if "\<And>s :: 'a runtime_scheme. post (ExtractStructure c) s (\<lambda>t' _. scope_count t' \<le> scope_count c)" for c and s :: "'a runtime_scheme"
    using that [of s] by (auto simp: post_return intro: post_mono [OF leaf])
  have "opens (extract_leaf i) = opens i" by (cases "ir_data i") (simp_all add: extract_leaf_def opens_def)
  then show ?case
    unfolding ExtractStructure.simps post_bnd
    by (intro post_mono [OF slot [OF Node.IH(1)]] post_mono [OF slot [OF Node.IH(2)]]) (simp add: post_return)
qed

lemma ok_AddIRToLibrary_small:
  assumes "minv fd s" and "t \<noteq> NullIR" and "small_library s" and "scope_count t < max_scopes"
  shows "ok (Mutator.AddIRToLibrary fd t) s (\<lambda>_ s'. minv fd s' \<and> small_library s')"
proof -
  have "post (Mutator.AddIRToLibrary fd t) s (\<lambda>_ s'. small_library s')"
    unfolding Mutator.AddIRToLibrary_def post_bnd
  proof (rule post_mono [OF post_conj [OF ok_post [OF ok_ExtractStructure [OF assms(2)]] post_ExtractStructure_scopes]],
      elim conjE, goal_cases)
    case (1 t' s')
    have st: "stable fd s s'" by (rule alloc_only_stable [OF 1(2) assms(1)])
    then have li: "lib_inv fd s'" "lib_irs s' = lib_irs s" by (simp_all add: stable_def minv_def)
    show ?case
    proof (rule post_mono [OF ok_post [OF ok_SaveIRRecursive [OF li(1) 1(3)]]], elim conjE, goal_cases)
      case (1 x s'')
      have "scope_count u < max_scopes" if "u \<in> set (subtrees t')" for u
        using scope_count_subtree [OF that] \<open>scope_count t' \<le> scope_count t\<close> assms(4) by simp
      then show ?case
        using 1(2) assms(3) unfolding small_library_def lib_stored_def li(2) by blast
    qed
  qed
  then show ?thesis
    using ok_AddIRToLibrary [OF assms(1,2)] by (auto simp: ok_def post_def split: sum.splits)
qed

section \<open>One round\<close>

text \<open>The languages meant: every accepted input has a tree the translation can take, whose start rule
  opens a scope, and whose rules open fewer scopes than the bound.\<close>

definition scoped_language :: "host \<Rightarrow> bool" where
  "scoped_language h \<longleftrightarrow> (\<forall>src tree. pr_tree (host_parse h src) = Some tree \<longrightarrow> \<not> pr_error (host_parse h src) \<longrightarrow>
     (\<exists>ctx cs. tree = Rule ctx cs \<and> rc_scope_type ctx \<noteq> kScopeDefault) \<and> pt_ok tree \<and> pt_scopes tree < max_scopes)"

definition validator_ok :: "'z type_system_scheme \<Rightarrow> bool" where
  "validator_ok v \<longleftrightarrow> types_wf v \<and> s_builted_compound_types v = []"

definition typed_inv :: "host \<Rightarrow> 'z fuzzer_scheme \<Rightarrow> bool" where
  "typed_inv h s \<longleftrightarrow> scoped_language h \<and> fuzzer_inv h s \<and> is_init (g_configuration s) \<and> \<not> SyntaxOnly (g_configuration s) \<and>
     IsWeakType (g_configuration s) \<and> validator_ok (g_validator s) \<and> small_library (g_mutator s)"

lemma root_of_scopes:
  "scoped_language h \<Longrightarrow> root_of h src t \<Longrightarrow> opens (ir_info t) \<and> scope_count t < max_scopes"
  unfolding scoped_language_def root_of_def accepted_def by fastforce

lemma scoped_translation: "scoped_language h \<Longrightarrow> translation_errors h = {}"
  by (rule translation_errors_empty) (force simp: scoped_language_def is_rule_def)

lemma small_library_runtime [simp]: "small_library (with_runtime r mu) = small_library mu"
  by (simp add: small_library_def with_runtime_def)

lemma validator_ok_runtime [simp]: "validator_ok (with_runtime r v) = validator_ok v"
  by (simp add: validator_ok_def types_wf_def all_entries_def with_runtime_def)

lemma typed_inv_runtime [simp]:
  "typed_inv h (with_runtime r s) = typed_inv h s" "typed_inv h (s\<lparr>save_test_cases := xs\<rparr>) = typed_inv h s"
  by (simp_all add: typed_inv_def fuzzer_inv_def)

lemma with_runtime_next [simp]: "rt_next (with_runtime r s) = rt_next r"
  by (simp add: with_runtime_def)

lemma only_on_validator:
  "only E (on_validator m) s Q = only E m (with_runtime s (g_validator s)) (\<lambda>x v. Q x (with_runtime v (s\<lparr>g_validator := v\<rparr>)))"
  by (simp add: only_def on_validator_def split: sum.split)

lemma ok_AddToIRLibrary_typed:
  assumes "scoped_language h" and "fuzzer_inv h s" and "small_library (g_mutator s)"
  shows "ok (AddToIRLibrary h mem) s (\<lambda>_ s'. fuzzer_inv h s' \<and> small_library (g_mutator s') \<and>
     g_validator s' = g_validator s \<and> g_configuration s' = g_configuration s \<and> save_test_cases s' = save_test_cases s)"
  unfolding AddToIRLibrary_def only_empty [symmetric] only_bnd scoped_translation [OF assms(1), symmetric]
proof (rule only_translation, goal_cases)
  case (1 t r')
  let ?s = "with_runtime r' s"
  have m: "minv (host_double h) (with_runtime ?s (g_mutator ?s))" "small_library (with_runtime ?s (g_mutator ?s))"
    using assms by (simp_all add: fuzzer_inv_def)
  show ?case
  proof (cases "t = NullIR")
    case True
    then show ?thesis using assms by (simp add: only_return fuzzer_inv_def)
  next
    case False
    have "scope_count t < max_scopes" using root_of_scopes [OF assms(1)] 1 False by blast
    from ok_AddIRToLibrary_small [OF m(1) False m(2) this] show ?thesis
      using False by (auto simp: only_on fuzzer_inv_def intro!: only_ok elim!: ok_mono)
  qed
qed

text \<open>What the validator needs of a variant.\<close>

definition validatable :: "IR \<Rightarrow> 'z runtime_scheme \<Rightarrow> bool" where
  "validatable v s \<longleftrightarrow> v \<noteq> NullIR \<and> unshared v \<and> (\<forall>a\<in>set (addrs v). a < rt_next s) \<and> opens (ir_info v) \<and>
     scope_count v < 2 ^ 31"

lemma only_save_variant_typed:
  assumes "typed_inv h s" and "validatable v s"
  shows "only collection_errors (save_variant h v) s (\<lambda>_ s'. typed_inv h s' \<and> rt_next s \<le> rt_next s')"
proof -
  let ?c = "g_configuration s"
  let ?v = "with_runtime s (g_validator s)"
  have c: "is_init ?c" "\<not> SyntaxOnly ?c" "IsWeakType ?c" using assms(1) by (simp_all add: typed_inv_def)
  have "validator_ok ?v" using assms(1) by (simp add: typed_inv_def)
  then have v: "types_wf ?v" "s_builted_compound_types ?v = []" by (simp_all add: validator_ok_def)
  have n: "rt_next ?v = rt_next s" by (simp add: with_runtime_def)
  have "only collection_errors (Validate ?c (host_order h) (host_double h) v) ?v (\<lambda>(r, _) v'.
      r = kSuccess \<and> validator_ok v' \<and> rt_next s \<le> rt_next v')"
    by (rule only_mono [OF only_subset [OF only_Validate [OF c(1,3) v]]])
      (use assms(2) in \<open>auto simp: validatable_def n validator_ok_def collection_errors_def\<close>)
  moreover have "typed_inv h (s\<lparr>g_validator := v'\<rparr>)" if "validator_ok v'" for v'
    using assms(1) that by (simp add: typed_inv_def fuzzer_inv_def)
  ultimately show ?thesis
    unfolding save_variant_def only_GetInstance if_P [OF c(1)] if_not_P [OF c(2)]
    unfolding only_bnd only_on_validator
    by (elim only_mono) (auto simp: push_test_case_def only_simps)
qed

lemma validatable_later: "validatable v s \<Longrightarrow> rt_next s \<le> rt_next s' \<Longrightarrow> validatable v s'"
  by (auto simp: validatable_def)

lemma only_save_variants_typed:
  "typed_inv h s \<Longrightarrow> \<forall>v\<in>set vs. validatable v s \<Longrightarrow>
     only collection_errors (foldM (\<lambda>ir _. save_variant h ir) vs ()) s (\<lambda>_. typed_inv h)"
proof (induction vs arbitrary: s)
  case Nil
  then show ?case by (simp add: only_return)
next
  case (Cons v vs)
  have v: "validatable v s" using Cons.prems(2) by simp
  show ?case
    unfolding foldM.simps only_bnd
  proof (rule only_mono [OF only_save_variant_typed [OF Cons.prems(1) v]], elim conjE, goal_cases)
    case (1 x s')
    then have "\<forall>v\<in>set vs. validatable v s'" using Cons.prems(2) by (auto intro: validatable_later)
    then show ?case using Cons.IH [OF 1(1)] by simp
  qed
qed

lemma mutant_validatable:
  assumes "mutant_of root mu t" and "small_library mu" and "unshared root" and "root \<noteq> NullIR" and "opens (ir_info root)"
    and "ir_size root \<le> 1500" and "unshared t" and "\<forall>a\<in>set (addrs t). a < rt_next s"
  shows "validatable t s"
  using mutant_root [OF assms(1,5,4)] mutant_scopes [OF assms(2,1,3)] scope_count_size [of root] assms(6-8)
  by (simp add: validatable_def max_scopes_def)

lemma only_Mutate_typed:
  assumes "typed_inv h s"
  shows "only collection_errors (Mutate h src) s (\<lambda>_. typed_inv h)"
proof -
  have sc: "scoped_language h" using assms by (simp add: typed_inv_def)
  show ?thesis
    unfolding Mutate_def only_bnd
  proof (rule only_subset [OF only_translation], goal_cases)
    case (1 root r')
    let ?s = "with_runtime r' s"
    show ?case
    proof (cases "root = NullIR \<or> 1500 < length (CollectAllIRs root)")
      case True
      then show ?thesis using assms by (auto simp: only_return Let_def)
    next
      case False
      then have root: "root \<noteq> NullIR" "length (CollectAllIRs root) \<le> 1500" by auto
      have op: "opens (ir_info root)" using root_of_scopes [OF sc 1(3) [OF root(1)]] by blast
      have size: "ir_size root \<le> 1500" using root length_CollectAllIRs by auto
      have m: "minv (host_double h) (with_runtime ?s (g_mutator ?s))" using assms by (simp add: typed_inv_def fuzzer_inv_def)
      have sm: "small_library (with_runtime ?s (g_mutator ?s))" using assms by (simp add: typed_inv_def)
      have "only collection_errors (bnd (on_mutator (MutateIRs (host_double h) (CollectAllIRs root))) (\<lambda>mutated_tree.
         bnd (foldM (\<lambda>ir _. save_variant h ir) mutated_tree ()) (\<lambda>_. gets (\<lambda>s. length (save_test_cases s))))) ?s
         (\<lambda>_. typed_inv h)"
        unfolding only_bnd only_on only_gets
      proof (rule only_mono [OF only_ok [OF ok_MutateIRs [OF m root(1) 1(1)]]], elim conjE, goal_cases)
        case (1 vs mu)
        let ?t = "with_runtime mu (?s\<lparr>g_mutator := mu\<rparr>)"
        have "small_library mu" "minv (host_double h) mu" using 1 sm by (simp_all add: stable_def small_library_def)
        then have t: "typed_inv h ?t" using assms by (simp add: typed_inv_def fuzzer_inv_def)
        have "validatable v ?t" if v: "v \<in> set vs" for v
        proof (rule mutant_validatable [OF _ sm \<open>unshared root\<close> root(1) op size])
          show "\<forall>a\<in>set (addrs v). a < rt_next ?t" using 1(2) v by (fastforce simp: fresh_def)
        qed (use 1(2) v in \<open>auto simp: fresh_def\<close>)
        then show ?case by (intro only_save_variants_typed [OF t] ballI)
      qed
      then show ?thesis using root by (simp add: Let_def)
    qed
  qed (simp add: scoped_translation [OF sc])
qed

lemma only_fuzz_count_typed:
  assumes "typed_inv h s" and "save_test_cases s = []"
  shows "only collection_errors (afl_custom_fuzz_count h buf) s (\<lambda>n s'. typed_inv h s' \<and> unat n = length (save_test_cases s'))"
proof -
  have "only collection_errors (afl_custom_fuzz_count h buf) s (\<lambda>_. typed_inv h)"
    unfolding afl_custom_fuzz_count_def only_bnd only_gets only_require only_return HasMutatedTextCase_def
    using only_Mutate_typed [OF assms(1)] assms(2) by simp
  moreover have "fuzzer_inv h s" using assms(1) by (simp add: typed_inv_def)
  from only_fuzz_count [OF this assms(2), of buf] have "post (afl_custom_fuzz_count h buf) s (\<lambda>n s'. unat n = length (save_test_cases s'))"
    by (auto simp: only_def post_def split: sum.splits)
  ultimately show ?thesis by (rule only_post)
qed

lemma ok_queue_typed:
  assumes "typed_inv h s"
  shows "ok (afl_custom_queue_new_entry h f) s (\<lambda>_ s'. typed_inv h s' \<and> save_test_cases s' = save_test_cases s)"
  unfolding afl_custom_queue_new_entry_def ok_bnd ok_return
  by (rule ok_mono [OF ok_AddToIRLibrary_typed]) (use assms in \<open>auto simp: typed_inv_def\<close>)

interpretation weakly_typed: total_custom_mutator "afl_custom_queue_new_entry h" "afl_custom_fuzz_count h" afl_custom_fuzz
  "typed_inv h" save_test_cases collection_errors for h :: host
proof unfold_locales
  fix s :: "'z fuzzer_scheme" and f
  assume "typed_inv h s"
  from ok_queue_typed [OF this, of f]
  show "post (afl_custom_queue_new_entry h f) s (\<lambda>_ s'. typed_inv h s' \<and> save_test_cases s' = save_test_cases s)"
    and "only collection_errors (afl_custom_queue_new_entry h f) s (\<lambda>_ _. True)"
    by (auto intro: ok_post only_ok elim: ok_mono)
next
  fix s :: "'z fuzzer_scheme" and buf
  assume "typed_inv h s" "save_test_cases s = []"
  from only_fuzz_count_typed [OF this, of buf]
  show "post (afl_custom_fuzz_count h buf) s (\<lambda>n s'. typed_inv h s' \<and> unat n = length (save_test_cases s'))"
    and "only collection_errors (afl_custom_fuzz_count h buf) s (\<lambda>_ _. True)"
    by (auto simp: only_def post_def split: sum.splits)
next
  fix s :: "'z fuzzer_scheme"
  assume "typed_inv h s" "save_test_cases s \<noteq> []"
  then show "ok afl_custom_fuzz s (\<lambda>(out, n) s'. typed_inv h s' \<and> out = last (save_test_cases s) \<and> n = length out \<and>
      save_test_cases s' = butlast (save_test_cases s))"
    by (intro ok_mono [OF ok_fuzz]) (auto simp: fuzzer_inv_def typed_inv_def)
qed

section \<open>Sessions\<close>

lemma post_init_typed:
  assumes "lib_empty_ir (g_mutator s) = NullIR" and "validator_ok (g_validator s)" and "scoped_language h"
  shows "post (afl_custom_init y h) s (\<lambda>_ s'. started h s' \<and> small_library (g_mutator s') \<and> validator_ok (g_validator s'))"
proof (rule post_init_keeps)
  fix c :: configuration
  assume "is_init c"
  moreover have "fuzzer_inv h (fresh_object h (s\<lparr>g_configuration := c\<rparr>))" by (rule fuzzer_inv_fresh) (simp add: assms(1))
  ultimately show "started h (fresh_object h (s\<lparr>g_configuration := c\<rparr>)) \<and>
      small_library (g_mutator (fresh_object h (s\<lparr>g_configuration := c\<rparr>))) \<and>
      validator_ok (g_validator (fresh_object h (s\<lparr>g_configuration := c\<rparr>)))"
    using assms(2) by (simp add: started_def small_library_def)
next
  fix s :: "'a fuzzer_scheme" and mem
  assume "started h s \<and> small_library (g_mutator s) \<and> validator_ok (g_validator s)"
  then show "post (AddToIRLibrary h mem) s (\<lambda>_ s'. started h s' \<and> small_library (g_mutator s') \<and> validator_ok (g_validator s'))"
    by (intro ok_post, intro ok_mono [OF ok_AddToIRLibrary_typed [OF assms(3)]]) (auto simp: started_def)
qed

text \<open>C3: In a weakly typed language whose start rule opens a scope, with a parser whose accepted inputs
  have trees without error nodes, with integer literals in range and with fewer than \<open>2 ^ 29\<close> scopes, a session in
  which every variant is validated can be stopped by a count only, at a failed assertion or contract, a null
  pointer or a name that is no string: no round ever reads or picks outside a list, runs a search or
  a generation forever or divides by zero. Every new queue entry is taken, and the calls after a count
  hand out exactly the saved test cases, the last one first, and leave none.\<close>

theorem weakly_typed_session:
  assumes "lib_empty_ir (g_mutator s) = NullIR" and "types_wf (g_validator s)"
    and "s_builted_compound_types (g_validator s) = []" and "afl_custom_init y h s = Inr (u, s0)"
    and "\<not> SyntaxOnly (g_configuration s0)" and "IsWeakType (g_configuration s0)"
    and "\<And>src tree. pr_tree (host_parse h src) = Some tree \<Longrightarrow> \<not> pr_error (host_parse h src) \<Longrightarrow>
      (\<exists>ctx cs. tree = Rule ctx cs \<and> rc_scope_type ctx \<noteq> kScopeDefault) \<and> pt_ok tree \<and> pt_scopes tree < 2 ^ 29"
    and "(afl_step (afl_custom_queue_new_entry h) (afl_custom_fuzz_count h) afl_custom_fuzz)\<^sup>*\<^sup>* (0, s0) (k, s')"
  shows "ok (afl_custom_queue_new_entry h f) s' (\<lambda>_ _. True) \<and>
    (k = 0 \<longrightarrow> only {Assert_failed, Contract_failed, Null_dereference, Bad_variant_access} (afl_custom_fuzz_count h buf) s'
       (\<lambda>n s''. unat n = length (save_test_cases s''))) \<and>
    ok (afl_round afl_custom_fuzz k) s' (\<lambda>outs s''. outs = rev (save_test_cases s') \<and> save_test_cases s'' = [])"
proof -
  have sc: "scoped_language h" unfolding scoped_language_def max_scopes_def using assms(7) by blast
  have vo: "validator_ok (g_validator s)" using assms(2,3) by (simp add: validator_ok_def)
  have "started h s0 \<and> small_library (g_mutator s0) \<and> validator_ok (g_validator s0)"
    by (rule post_Inr [OF post_init_typed [OF assms(1) vo sc] assms(4)])
  then have I0: "typed_inv h s0" "save_test_cases s0 = []" using sc assms(5,6) by (simp_all add: typed_inv_def started_def)
  have I: "typed_inv h s'" "k = length (save_test_cases s')" using weakly_typed.session_keeps [OF assms(8) I0] by simp_all
  have "only {Assert_failed, Contract_failed, Null_dereference, Bad_variant_access} (afl_custom_fuzz_count h buf) s'
       (\<lambda>n s''. unat n = length (save_test_cases s''))" if "k = 0"
    by (rule only_mono [OF only_fuzz_count_typed [OF I(1), unfolded collection_errors_def]]) (use I(2) that in auto)
  moreover have "ok (afl_custom_queue_new_entry h f) s' (\<lambda>_ _. True)" using ok_queue_typed [OF I(1)] by (rule ok_mono) simp
  ultimately show ?thesis using weakly_typed.session_only [OF assms(8) I0] by blast
qed

section \<open>Witnesses\<close>

text \<open>The same program in a language whose start rule opens the global scope, with validation.\<close>

definition typed_tree :: parse_tree where
  "typed_tree = Rule ((demo_ctx 0 ''x'')\<lparr>rc_scope_type := kScopeGlobal\<rparr>)
     [Rule ((demo_ctx 7 ''x'')\<lparr>rc_is_string_literal := True\<rparr>) [Terminal ''x'']]"

definition typed_host :: host where
  "typed_host = session_host\<lparr>host_parse := (\<lambda>src. \<lparr>pr_error = False, pr_tree = Some typed_tree\<rparr>)\<rparr>"

definition typed_yaml :: "ynode yaml" where
  "typed_yaml = demo_yaml (YMap [(''IsWeakType'', YScalar ''true''), (''InitFileDir'', YScalar ''/init''),
     (''BuiltinObjFile'', YScalar ''/obj''), (''SyntaxOnly'', YScalar ''false''), (''BasicTypes'', YSeq [])])"

lemma typed_Initialize:
  "Initialize typed_yaml ''config.yaml'' initial_configuration = Inr (True, session_configuration\<lparr>syntax_only := False\<rparr>)"
  by (simp add: Initialize_def Init_def ConfigFileValidate_def IsNodeBool_def typed_yaml_def demo_yaml_def
      initial_configuration_def session_configuration_def bnd_def lift_result_def return_def modify_def)

lemma weakly_typed_session_witness:
  "\<exists>s0. afl_custom_init typed_yaml typed_host session_process = Inr ((), s0) \<and>
     ok (afl_custom_queue_new_entry typed_host ''entry'') s0 (\<lambda>_ _. True) \<and>
     only {Assert_failed, Contract_failed, Null_dereference, Bad_variant_access} (afl_custom_fuzz_count typed_host ''x'') s0
       (\<lambda>n s''. unat n = length (save_test_cases s''))"
proof -
  let ?c = "session_configuration\<lparr>syntax_only := False\<rparr>"
  let ?s0 = "fresh_object typed_host (session_process\<lparr>g_configuration := ?c\<rparr>)"
  have init: "afl_custom_init typed_yaml typed_host session_process = Inr ((), ?s0)"
    by (rule session_init_with [OF typed_Initialize]) (simp_all add: session_configuration_def typed_host_def session_host_def)
  have conf: "\<not> SyntaxOnly (g_configuration ?s0)" "IsWeakType (g_configuration ?s0)"
    by (simp_all add: fresh_object_def SyntaxOnly_def IsWeakType_def session_configuration_def)
  have val: "types_wf (g_validator session_process)" "s_builted_compound_types (g_validator session_process) = []"
    using demo_validator_ok by (simp_all add: session_process_def runtime.defs)
  have lang: "(\<exists>ctx cs. tree = Rule ctx cs \<and> rc_scope_type ctx \<noteq> kScopeDefault) \<and> pt_ok tree \<and> pt_scopes tree < 2 ^ 29"
    if "pr_tree (host_parse typed_host src) = Some tree" for src tree
  proof -
    have tree: "tree = typed_tree" using that by (simp add: typed_host_def)
    show ?thesis unfolding tree by (simp add: typed_tree_def pt_scopes_def demo_ctx_def)
  qed
  note runs = weakly_typed_session [OF session_fresh val init conf lang rtranclp.rtrancl_refl]
  show ?thesis
    by (intro exI [of _ ?s0] conjI init runs [THEN conjunct1] runs [THEN conjunct2, THEN conjunct1, rule_format]) simp_all
qed

end
