(* ===== verification/Rule_Counts.thy ===== *)
theory Rule_Counts
  imports Translation_Weights
begin

text \<open>
  Which nodes a translation makes: for every rule of the grammar as many nodes as the parse tree has
  applications of it that derive something outside literals, and otherwise only nodes of the unknown type. With
  the listener's flag before and after an input this is what the corpus tools see of the frontend.
\<close>

section \<open>The nodes a translation makes\<close>

definition node_types :: "IR \<Rightarrow> IRTYPE list" where
  "node_types t = map (\<lambda>v. ir_type (ir_info v)) (subtrees t)"

text \<open>
  The nodes of a rule in the translation of a parse tree: one for each of its applications that
  derives something. An application that derives no token and no literal makes no node, and a literal
  rule makes one node in which the rules below it do not show, so this is not the number of all
  applications of the rule.
\<close>

fun rule_count :: "IRTYPE \<Rightarrow> parse_tree \<Rightarrow> nat" where
  "rule_count ty (Terminal txt) = 0"
| "rule_count ty (ErrorNode txt) = 0"
| "rule_count ty (Rule ctx children) =
     (if rc_is_string_literal ctx \<or> rc_is_int_literal ctx then of_bool (word_of_nat (rc_rule_index ctx) = ty)
      else if list_all pt_null children then 0
      else of_bool (word_of_nat (rc_rule_index ctx) = ty) + sum_list (map (rule_count ty) children))"

lemma node_types_simps [simp]:
  "node_types NullIR = []" "node_types (Node a i l r) = ir_type i # node_types l @ node_types r"
  by (simp_all add: node_types_def)

text \<open>A node weighs one if it is of the rule. No rule is of the unknown type.\<close>

interpretation rules: translation_weight "\<lambda>i. of_bool (ir_type i = ty \<and> ty \<noteq> kUnknown)"
  "\<lambda>ctx. of_bool (word_of_nat (rc_rule_index ctx) = ty \<and> ty \<noteq> kUnknown)" for ty
  by unfold_locales auto

lemma node_types_weight:
  "ty \<noteq> kUnknown \<Longrightarrow> tree_weight (\<lambda>i. of_bool (ir_type i = ty \<and> ty \<noteq> kUnknown)) t = count_list (node_types t) ty"
  by (induction t) auto

lemma rule_count_weight:
  "ty \<noteq> kUnknown \<Longrightarrow> pt_weight (\<lambda>ctx. of_bool (word_of_nat (rc_rule_index ctx) = ty \<and> ty \<noteq> kUnknown)) pt = rule_count ty pt"
proof (induction pt)
  case (Rule ctx children)
  then have "map (pt_weight (\<lambda>ctx. of_bool (word_of_nat (rc_rule_index ctx) = ty \<and> ty \<noteq> kUnknown))) children =
      map (rule_count ty) children" by simp
  then show ?case using Rule.prems by (simp del: map_eq_conv)
qed simp_all

lemma post_TranslateNode_count:
  assumes "ty \<noteq> kUnknown"
  shows "post (TranslateNode pt) s (\<lambda>t s'. keeps s s' \<and> (t = NullIR \<longleftrightarrow> pt_null pt) \<and>
     count_list (node_types t) ty = rule_count ty pt)"
  using rules.post_Translate(1) [where ty = ty and pt = pt and s = s] unfolding rules.weighed_def
  by (simp only: node_types_weight [OF assms] rule_count_weight [OF assms])

text \<open>All applications of a rule, and the parse trees in which each of them makes a node.\<close>

fun applications :: "IRTYPE \<Rightarrow> parse_tree \<Rightarrow> nat" where
  "applications ty (Terminal txt) = 0"
| "applications ty (ErrorNode txt) = 0"
| "applications ty (Rule ctx children) =
     of_bool (word_of_nat (rc_rule_index ctx) = ty) + sum_list (map (applications ty) children)"

fun all_derive :: "parse_tree \<Rightarrow> bool" where
  "all_derive (Terminal txt) = True"
| "all_derive (ErrorNode txt) = True"
| "all_derive (Rule ctx children) =
     (if rc_is_string_literal ctx \<or> rc_is_int_literal ctx then list_all (\<lambda>c. \<not> is_rule c) children
      else \<not> list_all pt_null children \<and> list_all all_derive children)"

lemma applications_no_rule: "\<not> is_rule c \<Longrightarrow> applications ty c = 0"
  by (cases c) (simp_all add: is_rule_def)

lemma rule_count_applications: "rule_count ty pt \<le> applications ty pt"
proof (induction pt)
  case (Rule ctx children)
  then have "sum_list (map (rule_count ty) children) \<le> sum_list (map (applications ty) children)"
    by (intro sum_list_mono)
  then show ?case by simp
qed simp_all

lemma rule_count_all: "all_derive pt \<Longrightarrow> rule_count ty pt = applications ty pt"
proof (induction pt)
  case (Rule ctx children)
  show ?case
  proof (cases "rc_is_string_literal ctx \<or> rc_is_int_literal ctx")
    case True
    then have "\<forall>c\<in>set children. applications ty c = 0"
      using Rule.prems by (auto simp: list_all_iff applications_no_rule)
    then show ?thesis using True by (simp add: sum_list_eq_0_iff)
  next
    case False
    have "map (rule_count ty) children = map (applications ty) children"
      using Rule.IH Rule.prems False by (simp add: list_all_iff)
    then show ?thesis using False Rule.prems by (simp del: map_eq_conv)
  qed
qed simp_all

text \<open>A block with no statement is an application of its rule that is not counted.\<close>

lemma empty_block_not_counted:
  "rule_count 2 (Rule (demo_ctx 0 ''{}'') [Terminal ''{'', Rule (demo_ctx 2 []) [], Terminal ''}'']) = 0 \<and>
   applications 2 (Rule (demo_ctx 0 ''{}'') [Terminal ''{'', Rule (demo_ctx 2 []) [], Terminal ''}'']) = 1"
  by (simp add: demo_ctx_def)

section \<open>One file\<close>

fun rules_below :: "nat \<Rightarrow> parse_tree \<Rightarrow> bool" where
  "rules_below n (Rule ctx children) \<longleftrightarrow> rc_rule_index ctx < n \<and> list_all (rules_below n) children"
| "rules_below n _ = True"

text \<open>What the tools rely on: an accepted input has a tree that the translation can take, of rules the
  grammar has.\<close>

definition good_run :: "nat \<Rightarrow> parser_run \<Rightarrow> bool" where
  "good_run n run \<longleftrightarrow> (\<forall>tree. pr_tree run = Some tree \<longrightarrow> \<not> pr_error run \<longrightarrow> is_rule tree \<and> pt_ok tree \<and> rules_below n tree)"

text \<open>Whether an input is taken, given the listener's flag, and the flag it leaves.\<close>

definition taken :: "bool \<Rightarrow> parser_run \<Rightarrow> bool" where
  "taken flag run \<longleftrightarrow> \<not> flag \<and> \<not> pr_error run \<and> (\<exists>tree. pr_tree run = Some tree \<and> \<not> pt_null tree)"

definition flag_after :: "bool \<Rightarrow> parser_run \<Rightarrow> bool" where
  "flag_after flag run \<longleftrightarrow> pr_tree run = None \<and> (flag \<or> pr_error run)"

definition translates :: "parser_run \<Rightarrow> 'z runtime_scheme \<Rightarrow> IR \<Rightarrow> 'z runtime_scheme \<Rightarrow> bool" where
  "translates run s t s' \<longleftrightarrow> runtime.more s' = runtime.more s \<and>
     rt_listener_error s' = flag_after (rt_listener_error s) run \<and> (t = NullIR \<longleftrightarrow> \<not> taken (rt_listener_error s) run) \<and>
     (t \<noteq> NullIR \<longrightarrow> ir_wf t \<and> (\<forall>ty. ty \<noteq> kUnknown \<longrightarrow> count_list (node_types t) ty = rule_count ty (the (pr_tree run))))"

lemma ok_TranslateNode_count:
  assumes "is_rule pt" and "pt_ok pt"
  shows "ok (TranslateNode pt) s (\<lambda>t s'. keeps s s' \<and> (t = NullIR \<longleftrightarrow> pt_null pt) \<and> ir_wf t \<and>
     (\<forall>ty. ty \<noteq> kUnknown \<longrightarrow> count_list (node_types t) ty = rule_count ty pt))"
proof -
  obtain t s' where run: "TranslateNode pt s = Inr (t, s')" and null: "t = NullIR \<longleftrightarrow> pt_null pt" "ir_wf t"
    using ok_TranslateNode_Children(1) [OF assms, of s] by (auto simp: ok_Inr_iff translated_def)
  have cnt: "keeps s s' \<and> count_list (node_types t) ty = rule_count ty pt" if "ty \<noteq> kUnknown" for ty
    using post_Inr [OF post_TranslateNode_count [OF that] run] by blast
  moreover have "keeps s s'" using cnt [of 0] by (simp add: kUnknown_def)
  ultimately show ?thesis using run null by (auto simp: ok_Inr_iff)
qed

lemma ok_translation:
  assumes "good_run n (parse src)"
  shows "ok (antlr_TranslateToIR parse src) s (translates (parse src) s)"
proof (cases "pr_tree (parse src)")
  case None
  then show ?thesis
    by (simp add: ok_Inr_iff antlr_TranslateToIR_def TranslateToIR_apply Let_def translates_def taken_def flag_after_def)
next
  case (Some tree)
  show ?thesis
  proof (cases "rt_listener_error s \<or> pr_error (parse src)")
    case True
    with Some show ?thesis
      by (auto simp: ok_Inr_iff antlr_TranslateToIR_def TranslateToIR_apply Let_def translates_def taken_def flag_after_def)
  next
    case False
    let ?r = "s\<lparr>rt_listener_error := False, rt_parse_counter := (if 10000 < rt_parse_counter s then 0 else Suc (rt_parse_counter s))\<rparr>"
    have eq: "antlr_TranslateToIR parse src s = TranslateNode tree ?r"
      using Some False by (simp add: antlr_TranslateToIR_def TranslateToIR_apply Let_def)
    have "is_rule tree" "pt_ok tree" using assms Some False by (auto simp: good_run_def)
    from ok_TranslateNode_count [OF this, of ?r]
    have "ok (TranslateNode tree) ?r (translates (parse src) s)"
      by (rule ok_mono) (use Some False in \<open>auto simp: translates_def taken_def flag_after_def keeps_def\<close>)
    then show ?thesis by (simp only: ok_def eq)
  qed
qed

lemma rule_count_below:
  assumes "rules_below n pt" and "n \<le> 2 ^ 32" and "0 < rule_count ty pt"
  shows "unat ty < n"
  using assms(1,3)
proof (induction pt)
  case (Rule ctx children)
  have "unat ty < n" if "word_of_nat (rc_rule_index ctx) = ty"
    using that Rule.prems(1) assms(2) by (auto simp: unat_of_nat)
  moreover have "\<exists>c\<in>set children. 0 < rule_count ty c" if "0 < sum_list (map (rule_count ty) children)"
    using that by (induction children) auto
  ultimately show ?case using Rule by (auto simp: list_all_iff split: if_splits)
qed auto

lemma count_CollectAllIRs:
  assumes "t \<noteq> NullIR"
  shows "count_list (map (\<lambda>ir. ir_type (ir_info ir)) (CollectAllIRs t)) ty = count_list (node_types t) ty"
  using assms
proof (induction t)
  case (Node a i l r)
  have "count_list (map (\<lambda>ir. ir_type (ir_info ir)) (if c \<noteq> NullIR then GetAllChildren c @ [c] else [])) ty =
      count_list (node_types c) ty" if "c = l \<or> c = r" for c
    using that Node.IH by (auto simp: CollectAllIRs_def)
  from this [of l] this [of r] show ?case by (simp add: CollectAllIRs_def)
qed simp

lemma types_below:
  assumes "\<forall>ty. ty \<noteq> kUnknown \<longrightarrow> count_list (node_types t) ty = rule_count ty tree" and "rules_below n tree"
    and "n \<le> 2 ^ 32" and "t \<noteq> NullIR"
  shows "\<forall>ir\<in>set (CollectAllIRs t). ir_type (ir_info ir) = kUnknown \<or> unat (ir_type (ir_info ir)) < n"
proof (rule ballI, rule disjCI)
  fix ir
  assume ir: "ir \<in> set (CollectAllIRs t)" and "\<not> unat (ir_type (ir_info ir)) < n"
  then have "rule_count (ir_type (ir_info ir)) tree = 0" using rule_count_below [OF assms(2,3)] by blast
  moreover have "count_list (node_types t) (ir_type (ir_info ir)) \<noteq> 0"
    using ir unfolding count_CollectAllIRs [OF assms(4), symmetric] by (auto simp: count_list_0_iff)
  ultimately show "ir_type (ir_info ir) = kUnknown" using assms(1) by metis
qed

section \<open>Properties\<close>

text \<open>C14: A tree that \<open>TranslateToIR\<close> returns is well formed (a node has data or an operator with
  children), and every node has the unknown type or a rule of the grammar, so that
  \<open>GetIRTypeStr\<close> knows its name.\<close>

theorem TranslateToIR_types:
  assumes "good_run (GetIRTypeNum names) (parse src)" and "GetIRTypeNum names \<le> 2 ^ 32"
  shows "ok (antlr_TranslateToIR parse src) s (\<lambda>t _. t \<noteq> NullIR \<longrightarrow> ir_wf t \<and>
     (\<forall>v\<in>set (subtrees t). ir_type (ir_info v) = GetUnknownType \<or>
        (\<exists>name. antlr_GetIRTypeStr names (ir_type (ir_info v)) = Inr name)))"
proof (rule ok_mono [OF ok_translation [of "GetIRTypeNum names" parse src s, OF assms(1)]], rule impI, goal_cases)
  case (1 t s')
  then have t: "ir_wf t" "taken (rt_listener_error s) (parse src)"
      "\<forall>ty. ty \<noteq> kUnknown \<longrightarrow> count_list (node_types t) ty = rule_count ty (the (pr_tree (parse src)))"
    by (simp_all add: translates_def)
  have "rules_below (GetIRTypeNum names) (the (pr_tree (parse src)))"
    using t(2) assms(1) by (auto simp: taken_def good_run_def)
  from types_below [OF t(3) this assms(2) 1(2)] t(1) show ?case
    unfolding set_CollectAllIRs [OF 1(2)] GetUnknownType_def antlr.type_str_total by blast
qed

section \<open>Witnesses\<close>

lemma demo_tree_rules: "rules_below 4 demo_tree" "is_rule demo_tree" "\<not> pt_null demo_tree"
  by code_simp+

lemma demo_good_runs: "good_run 4 (demo_parse src)"
  using demo_tree_ok demo_tree_rules by (auto simp: good_run_def demo_parse_def)

definition demo_names :: "string list" where
  "demo_names = [''program'', ''type'', ''name'', ''literal'']"

lemma TranslateToIR_types_witness:
  "ok (antlr_TranslateToIR demo_parse ''int x = 1;'') demo_state (\<lambda>t _. t \<noteq> NullIR \<longrightarrow> ir_wf t)"
proof -
  have "GetIRTypeNum demo_names = 4" by (simp add: demo_names_def GetIRTypeNum_def GetRuleNum_def)
  then show ?thesis
    using TranslateToIR_types [of demo_names demo_parse "''int x = 1;''" demo_state] demo_good_runs
    by (auto elim!: ok_mono)
qed

end
