(* ===== verification/Disk.thy ===== *)
theory Disk
  imports Text_Utils "HOL-Library.AList"
begin

text \<open>
  What the corpus tools use of \<open>std::filesystem\<close>: a tree of directories and plain files without
  links. A path string is resolved to the list of its names from the root; the disk is the
  list of the entries by resolved path, in the order in which a directory lists them. Reading a
  directory as a file gives no bytes.
\<close>

section \<open>Paths\<close>

fun split_path :: "string \<Rightarrow> string list" where
  "split_path [] = [[]]"
| "split_path (ch # p) =
     (if ch = CHR ''/'' then [] # split_path p
      else (case split_path p of [] \<Rightarrow> [[ch]] | name # names \<Rightarrow> (ch # name) # names))"

definition path_step :: "string list \<Rightarrow> string \<Rightarrow> string list" where
  "path_step k name = (if name = [] \<or> name = ''.'' then k else if name = ''..'' then butlast k else k @ [name])"

definition is_absolute :: "string \<Rightarrow> bool" where
  "is_absolute p \<longleftrightarrow> p \<noteq> [] \<and> hd p = CHR ''/''"

definition resolve :: "string list \<Rightarrow> string \<Rightarrow> string list" where
  "resolve cwd p = foldl path_step (if is_absolute p then [] else cwd) (split_path p)"

text \<open>\<open>operator/\<close> and \<open>path::filename\<close>.\<close>

definition path_join :: "string \<Rightarrow> string \<Rightarrow> string" where
  "path_join d name =
     (if is_absolute name then name
      else if d \<noteq> [] \<and> last d \<noteq> CHR ''/'' then d @ ''/'' @ name
      else d @ name)"

definition filename :: "string \<Rightarrow> string" where
  "filename p = rev (takeWhile (\<lambda>ch. ch \<noteq> CHR ''/'') (rev p))"

section \<open>The disk\<close>

datatype node = Directory | Regular string

record disk =
  entries :: "(string list \<times> node) list"
  cwd :: "string list"

definition node_at :: "disk \<Rightarrow> string list \<Rightarrow> node option" where
  "node_at d k = (if k = [] then Some Directory else map_of (entries d) k)"

definition status :: "disk \<Rightarrow> string \<Rightarrow> node option" where
  "status d p = (if p = [] then None else node_at d (resolve (cwd d) p))"

definition is_directory :: "disk \<Rightarrow> string \<Rightarrow> bool" where
  "is_directory d p \<longleftrightarrow> status d p = Some Directory"

definition fs_exists :: "disk \<Rightarrow> string \<Rightarrow> bool" where
  "fs_exists d p \<longleftrightarrow> status d p \<noteq> None"

definition names_in :: "disk \<Rightarrow> string list \<Rightarrow> string list" where
  "names_in d k = [last q. (q, _) \<leftarrow> entries d, q \<noteq> [] \<and> butlast q = k]"

definition directory_iterator :: "disk \<Rightarrow> string \<Rightarrow> error + string list" where
  "directory_iterator d p =
     (if is_directory d p then Inr (map (path_join p) (names_in d (resolve (cwd d) p))) else Inl Filesystem_error)"

definition put_node :: "string list \<Rightarrow> node \<Rightarrow> disk \<Rightarrow> disk" where
  "put_node k n d = d\<lparr>entries := AList.update k n (entries d)\<rparr>"

text \<open>\<open>create_directory\<close>: whether it created one; it throws when the parent is no directory or the
  name belongs to a file.\<close>

definition create_directory :: "string \<Rightarrow> disk \<Rightarrow> error + (bool \<times> disk)" where
  "create_directory p d =
     (let k = resolve (cwd d) p
      in if p = [] \<or> node_at d (butlast k) \<noteq> Some Directory then Inl Filesystem_error
         else (case node_at d k of
                 None \<Rightarrow> Inr (True, put_node k Directory d)
               | Some Directory \<Rightarrow> Inr (False, d)
               | Some (Regular _) \<Rightarrow> Inl Filesystem_error))"

text \<open>\<open>copy_file\<close> with \<open>overwrite_existing\<close>: it throws unless the source is a plain file, and the
  target is another plain file or new in a directory.\<close>

definition copy_file :: "string \<Rightarrow> string \<Rightarrow> disk \<Rightarrow> error + (bool \<times> disk)" where
  "copy_file src dst d =
     (let k = resolve (cwd d) dst
      in case status d src of
           Some (Regular content) \<Rightarrow>
             if dst = [] \<or> k = resolve (cwd d) src \<or> node_at d k = Some Directory \<or> node_at d (butlast k) \<noteq> Some Directory
             then Inl Filesystem_error
             else Inr (True, put_node k (Regular content) d)
         | _ \<Rightarrow> Inl Filesystem_error)"

text \<open>The disk as \<open>ReadFileIntoString\<close> sees it.\<close>

definition as_file_system :: "disk \<Rightarrow> file_system" where
  "as_file_system d = \<lparr>fs_is_dir = is_directory d,
     fs_read_dir = (\<lambda>p. if is_directory d p then Some ([''.'', ''..''] @ names_in d (resolve (cwd d) p)) else None),
     fs_read_file = (\<lambda>p. case status d p of Some (Regular content) \<Rightarrow> content | _ \<Rightarrow> [])\<rparr>"

section \<open>Resolving a path in a directory\<close>

text \<open>A name that a directory can hold.\<close>

definition is_name :: "string \<Rightarrow> bool" where
  "is_name n \<longleftrightarrow> n \<noteq> [] \<and> n \<noteq> ''.'' \<and> n \<noteq> ''..'' \<and> CHR ''/'' \<notin> set n"

definition disk_ok :: "disk \<Rightarrow> bool" where
  "disk_ok d \<longleftrightarrow> distinct (map fst (entries d)) \<and>
     (\<forall>(k, n)\<in>set (entries d). k \<noteq> [] \<and> is_name (last k) \<and> node_at d (butlast k) = Some Directory)"

lemma split_path_name: "CHR ''/'' \<notin> set n \<Longrightarrow> split_path n = [n]"
  by (induction n) auto

lemma split_path_ne [simp]: "split_path p \<noteq> []"
  by (induction p) (auto split: list.splits)

lemma split_path_append:
  "CHR ''/'' \<notin> set n \<Longrightarrow> split_path (p @ CHR ''/'' # n) = split_path p @ [n]"
  by (induction p) (auto simp: split_path_name split: list.splits)

lemma resolve_join:
  assumes "is_name n" and "d \<noteq> []"
  shows "resolve c (path_join d n) = resolve c d @ [n]" and "path_join d n \<noteq> []"
    and "filename (path_join d n) = n"
proof -
  have n: "CHR ''/'' \<notin> set n" "n \<noteq> []" "path_step k n = k @ [n]" for k
    using assms(1) by (auto simp: is_name_def path_step_def)
  then have rel: "\<not> is_absolute n" by (cases n) (auto simp: is_absolute_def)
  have ab: "is_absolute (d @ x) = is_absolute d" for x using assms(2) by (simp add: is_absolute_def)
  have tw: "takeWhile (\<lambda>ch. ch \<noteq> CHR ''/'') (rev n @ CHR ''/'' # xs) = rev n" for xs
    using n(1) by (subst takeWhile_append2) auto
  show "path_join d n \<noteq> []" using assms(2) rel by (simp add: path_join_def)
  show "resolve c (path_join d n) = resolve c d @ [n]" and "filename (path_join d n) = n"
  proof (atomize (full), cases "last d = CHR ''/''")
    case True
    obtain d' where d: "d = d' @ [CHR ''/'']" using True assms(2) by (metis append_butlast_last_id)
    have "split_path d = split_path d' @ [[]]" "split_path (d @ n) = split_path d' @ [n]"
      using split_path_append [of "[]" d'] split_path_append [of n d'] n(1) by (simp_all add: d)
    then have "resolve c (d @ n) = resolve c d @ [n]" using n(3) by (simp add: resolve_def ab path_step_def [of _ "[]"])
    then show "resolve c (path_join d n) = resolve c d @ [n] \<and> filename (path_join d n) = n"
      using True rel assms(2) tw by (simp add: filename_def path_join_def d)
  next
    case False
    then show "resolve c (path_join d n) = resolve c d @ [n] \<and> filename (path_join d n) = n"
      using rel assms(2) n split_path_append [of n d] tw by (simp add: resolve_def path_join_def ab filename_def)
  qed
qed

section \<open>What the operations change\<close>

lemma node_at_put: "k \<noteq> [] \<Longrightarrow> node_at (put_node k n d) j = (if j = k then Some n else node_at d j)"
  by (simp add: node_at_def put_node_def update_conv')

lemma cwd_put [simp]: "cwd (put_node k n d) = cwd d"
  by (simp add: put_node_def)

lemma node_below:
  assumes "disk_ok d" and "node_at d (k @ [n]) = Some x"
  shows "node_at d k = Some Directory"
proof -
  have "(k @ [n], x) \<in> set (entries d)" using assms(2) by (auto simp: node_at_def dest: map_of_SomeD)
  then show ?thesis using assms(1) by (auto simp: disk_ok_def)
qed

lemma names_in_ok:
  assumes "disk_ok d" and "n \<in> set (names_in d k)"
  shows "is_name n" and "node_at d (k @ [n]) \<noteq> None"
proof -
  obtain q x where q: "(q, x) \<in> set (entries d)" "q \<noteq> []" "butlast q = k" "n = last q"
    using assms(2) by (auto simp: names_in_def split: if_splits)
  then have "k @ [n] = q" by auto
  then show "is_name n" and "node_at d (k @ [n]) \<noteq> None"
    using q assms(1) by (auto simp: disk_ok_def node_at_def map_of_eq_None_iff image_iff)
qed

text \<open>Copying a file of one directory into another.\<close>

lemma copy_file_into:
  assumes "from \<noteq> []" and "to \<noteq> []" and "is_name n" and "resolve (cwd d) to \<noteq> resolve (cwd d) from"
    and "node_at d (resolve (cwd d) from @ [n]) = Some (Regular content)"
    and "node_at d (resolve (cwd d) to) = Some Directory" and "node_at d (resolve (cwd d) to @ [n]) \<noteq> Some Directory"
  shows "copy_file (path_join from n) (path_join to n) d =
     Inr (True, put_node (resolve (cwd d) to @ [n]) (Regular content) d)"
  using resolve_join [OF assms(3,1)] resolve_join [OF assms(3,2)] assms(4-7)
  by (simp add: copy_file_def status_def Let_def)

end
