(* ===== verification/Corpus_Tools.thy ===== *)
theory Corpus_Tools
  imports Rule_Counts Configuration Disk
begin

text \<open>
  The command-line tools: \<open>srcs/utils/corpus_evaluate.cpp\<close> (which rules of the grammar a corpus
  uses, which files do not parse), its driver \<open>corpus_evaluate_bin.cpp\<close>, which copies the files that
  parse, and \<open>check_env_bin.cpp\<close>. The state is the runtime with the disk and the lines printed. The iteration order of
  the unordered containers is the parameter \<open>ord\<close>.
\<close>

section \<open>The corpus\<close>

record corpus = runtime +
  the_disk :: disk
  console :: "string list"

definition print_line :: "string \<Rightarrow> ('z corpus_scheme, unit) M" where
  "print_line l = modify (\<lambda>s. s\<lparr>console := console s @ [l]\<rparr>)"

definition read_file :: "string \<Rightarrow> ('z corpus_scheme, string) M" where
  "read_file f = gets (\<lambda>s. ReadFileIntoString (as_file_system (the_disk s)) f)"

definition list_directory :: "string \<Rightarrow> ('z corpus_scheme, string list) M" where
  "list_directory path = bnd (gets the_disk) (\<lambda>d. lift_result (directory_iterator d path))"

text \<open>\<open>type_count[name] += 1\<close>; a \<open>size_t\<close> that counts the nodes in memory does not wrap.\<close>

definition add_one :: "string \<Rightarrow> (string \<times> nat) list \<Rightarrow> (string \<times> nat) list" where
  "add_one name type_count =
     AList.update name (Suc (case map_of type_count name of None \<Rightarrow> 0 | Some n \<Rightarrow> n)) type_count"

definition zero_count :: "string list \<Rightarrow> nat \<Rightarrow> (string \<times> nat) list \<Rightarrow> ('s, (string \<times> nat) list) M" where
  "zero_count rule_names i type_count =
     bnd (lift_result (antlr_GetIRTypeStr rule_names (word_of_nat i))) (\<lambda>name.
     return (AList.update name 0 type_count))"

definition count_ir :: "string list \<Rightarrow> IR \<Rightarrow> (string \<times> nat) list \<Rightarrow> ('s, (string \<times> nat) list) M" where
  "count_ir rule_names ir type_count =
     (if ir_type (ir_info ir) = GetUnknownType then return type_count
      else
        bnd (lift_result (antlr_GetIRTypeStr rule_names (ir_type (ir_info ir)))) (\<lambda>name.
        return (add_one name type_count)))"

definition count_file ::
  "(string \<Rightarrow> parser_run) \<Rightarrow> string list \<Rightarrow> string \<Rightarrow> (string \<times> nat) list \<Rightarrow> ('z corpus_scheme, (string \<times> nat) list) M" where
  "count_file parse rule_names f type_count =
     bnd (read_file f) (\<lambda>content.
     bnd (antlr_TranslateToIR parse content) (\<lambda>ir.
     if ir = NullIR then return type_count
     else foldM (count_ir rule_names) (CollectAllIRs ir) type_count))"

definition CountTypesInCorpus ::
  "(string \<Rightarrow> parser_run) \<Rightarrow> string list \<Rightarrow> string \<Rightarrow> ('z corpus_scheme, (string \<times> nat) list) M" where
  "CountTypesInCorpus parse rule_names corpus_path =
     bnd (list_directory corpus_path) (\<lambda>files.
     bnd (foldM (zero_count rule_names) [0 ..< GetIRTypeNum rule_names] []) (\<lambda>type_count.
     foldM (count_file parse rule_names) files type_count))"

definition CheckMissingTypesInCorpus ::
  "(string \<Rightarrow> parser_run) \<Rightarrow> string list \<Rightarrow> (string list \<Rightarrow> string list) \<Rightarrow> string \<Rightarrow> ('z corpus_scheme, string list) M" where
  "CheckMissingTypesInCorpus parse rule_names ord corpus_path =
     bnd (CountTypesInCorpus parse rule_names corpus_path) (\<lambda>type_count.
     return (filter (\<lambda>type. map_of type_count type = Some 0) (ord (map fst type_count))))"

definition check_file :: "(string \<Rightarrow> parser_run) \<Rightarrow> string \<Rightarrow> string list \<Rightarrow> ('z corpus_scheme, string list) M" where
  "check_file parse f unparsable_files =
     bnd (read_file f) (\<lambda>content.
     bnd (antlr_TranslateToIR parse content) (\<lambda>ir.
     return (if ir = NullIR then unparsable_files @ [f] else unparsable_files)))"

definition CheckUnParsableFiles :: "(string \<Rightarrow> parser_run) \<Rightarrow> string \<Rightarrow> ('z corpus_scheme, string list) M" where
  "CheckUnParsableFiles parse corpus_path =
     bnd (list_directory corpus_path) (\<lambda>files. foldM (check_file parse) files [])"

section \<open>The drivers\<close>

text \<open>The loop over the files to copy: \<open>Some\<close> is the exit code of a failed copy.\<close>

fun copy_all :: "string \<Rightarrow> string list \<Rightarrow> ('z corpus_scheme, int option) M" where
  "copy_all output_path [] = return None"
| "copy_all output_path (f # fs) =
     bnd (gets the_disk) (\<lambda>d.
     bnd (lift_result (copy_file f (path_join output_path (filename f)) d)) (\<lambda>(copied, d').
     bnd (modify (\<lambda>s. s\<lparr>the_disk := d'\<rparr>)) (\<lambda>_.
     if \<not> copied then bnd (print_line (''Failed to copy file '' @ f)) (\<lambda>_. return (Some (- 1)))
     else copy_all output_path fs)))"

text \<open>Making the output directory, with the exit code if that fails.\<close>

definition prepare_output :: "string \<Rightarrow> ('z corpus_scheme, int option) M" where
  "prepare_output output_path =
     bnd (gets the_disk) (\<lambda>d.
     if \<not> fs_exists d output_path then
       bnd (lift_result (create_directory output_path d)) (\<lambda>(created, d').
       bnd (modify (\<lambda>s. s\<lparr>the_disk := d'\<rparr>)) (\<lambda>_.
       if created then bnd (print_line ''Directory created!'') (\<lambda>_. return None)
       else bnd (print_line ''Failed to create directory!'') (\<lambda>_. return (Some (- 1)))))
     else if \<not> is_directory d output_path then
       bnd (print_line ''Output dir is not a dir!'') (\<lambda>_. return (Some (- 1)))
     else return None)"

definition copy_parsable ::
  "(string list \<Rightarrow> string list) \<Rightarrow> string \<Rightarrow> string \<Rightarrow> string list \<Rightarrow> ('z corpus_scheme, int option) M" where
  "copy_parsable ord corpus_dir output_path unparsable_files =
     bnd (list_directory corpus_dir) (\<lambda>entries.
     let files = fold List.insert entries [] in
     bnd (prepare_output output_path) (\<lambda>code.
     if code \<noteq> None then return code
     else
       let files = fold removeAll unparsable_files files in
       copy_all output_path (ord files)))"

definition print_report :: "string list \<Rightarrow> string list \<Rightarrow> ('z corpus_scheme, unit) M" where
  "print_report unparsable_files missing_types =
     bnd (if unparsable_files = [] then print_line ''All files are parsable''
          else bnd (print_line (''Unparsable files: (TOTAL'' @ to_string (int (length unparsable_files)) @ '' )''))
                 (\<lambda>_. foldM (\<lambda>f _. print_line f) unparsable_files ())) (\<lambda>_.
     if missing_types = [] then print_line ''All types are in corpus''
     else bnd (print_line ''Missing types in corpus: '') (\<lambda>_. foldM (\<lambda>t _. print_line t) missing_types ()))"

text \<open>\<open>main\<close> of \<open>corpus_evaluate_bin.cpp\<close>, with the values of the two flags.\<close>

definition corpus_evaluate_main ::
  "(string \<Rightarrow> parser_run) \<Rightarrow> string list \<Rightarrow> (string list \<Rightarrow> string list) \<Rightarrow> string \<Rightarrow> string \<Rightarrow> ('z corpus_scheme, int) M" where
  "corpus_evaluate_main parse rule_names ord corpus_dir output_path =
     (if corpus_dir = [] then
        bnd (print_line ''Please specify a non-empty value for --corpus_dir'') (\<lambda>_. return 1)
      else
        bnd (gets (\<lambda>s. is_directory (the_disk s) corpus_dir)) (\<lambda>dir.
        if \<not> dir then bnd (print_line (''The path '' @ corpus_dir @ '' is not a directory'')) (\<lambda>_. return 1)
        else
          bnd (CheckUnParsableFiles parse corpus_dir) (\<lambda>unparsable_files.
          bnd (CheckMissingTypesInCorpus parse rule_names ord corpus_dir) (\<lambda>missing_types.
          bnd (if output_path \<noteq> [] then copy_parsable ord corpus_dir output_path unparsable_files else return None) (\<lambda>code.
          case code of
            Some c \<Rightarrow> return c
          | None \<Rightarrow> bnd (print_report unparsable_files missing_types) (\<lambda>_. return 0))))))"

text \<open>\<open>main\<close> of \<open>check_env_bin.cpp\<close>: the exit code and the line printed.\<close>

definition check_env_main :: "'n yaml \<Rightarrow> string option \<Rightarrow> (configuration, int \<times> string) M" where
  "check_env_main y config_path =
     (case config_path of
        None \<Rightarrow> return (1, ''Please set the environment variable POLYGLOT_CONFIG'')
      | Some config_file \<Rightarrow>
          if config_file = [] then return (1, ''Please specify a non-empty value for --config'')
          else
            bnd (ConfigFileValidate y config_file) (\<lambda>valid.
            if \<not> valid then return (1, ''Config file is not valid'')
            else return (0, ''Your configuration looks good!'')))"

section \<open>Which files are rejected\<close>

text \<open>The files in order with the flag each finds: the file is rejected if the flag is up, the parser
  reports an error or raises its exception, or the tree is empty.\<close>

fun rejected :: "bool \<Rightarrow> ('f \<times> parser_run) list \<Rightarrow> 'f list" where
  "rejected flag [] = []"
| "rejected flag ((f, run) # runs) =
     (if taken flag run then rejected (flag_after flag run) runs else f # rejected (flag_after flag run) runs)"

fun accepted_runs :: "bool \<Rightarrow> parser_run list \<Rightarrow> parser_run list" where
  "accepted_runs flag [] = []"
| "accepted_runs flag (run # runs) =
     (if taken flag run then run # accepted_runs (flag_after flag run) runs else accepted_runs (flag_after flag run) runs)"

fun flag_finally :: "bool \<Rightarrow> parser_run list \<Rightarrow> bool" where
  "flag_finally flag [] = flag"
| "flag_finally flag (run # runs) = flag_finally (flag_after flag run) runs"

definition run_of :: "(string \<Rightarrow> parser_run) \<Rightarrow> disk \<Rightarrow> string \<Rightarrow> parser_run" where
  "run_of parse d f = parse (ReadFileIntoString (as_file_system d) f)"

abbreviation runs_of :: "(string \<Rightarrow> parser_run) \<Rightarrow> disk \<Rightarrow> string list \<Rightarrow> parser_run list" where
  "runs_of parse d files \<equiv> map (run_of parse d) files"

lemma corpus_more:
  "runtime.more (s' :: corpus) = runtime.more s \<longleftrightarrow> the_disk s' = the_disk s \<and> console s' = console s"
  by (cases s; cases s') auto

lemma ok_check_file:
  fixes s :: corpus
  assumes "good_run n (run_of parse (the_disk s) f)"
  shows "ok (check_file parse f fs) s (\<lambda>fs' s'. the_disk s' = the_disk s \<and> console s' = console s \<and>
     rt_listener_error s' = flag_after (rt_listener_error s) (run_of parse (the_disk s) f) \<and>
     fs' = (if taken (rt_listener_error s) (run_of parse (the_disk s) f) then fs else fs @ [f]))"
  unfolding check_file_def read_file_def ok_bnd ok_gets ok_return
  by (rule ok_mono [OF ok_translation [of n parse "ReadFileIntoString (as_file_system (the_disk s)) f"]])
    (use assms in \<open>auto simp: translates_def corpus_more run_of_def\<close>)

lemma ok_check_files:
  fixes s :: corpus
  assumes "\<forall>f\<in>set files. good_run n (run_of parse (the_disk s) f)"
  shows "ok (foldM (check_file parse) files fs) s (\<lambda>fs' s'. the_disk s' = the_disk s \<and> console s' = console s \<and>
     rt_listener_error s' = flag_finally (rt_listener_error s) (runs_of parse (the_disk s) files) \<and>
     fs' = fs @ rejected (rt_listener_error s) (map (\<lambda>f. (f, run_of parse (the_disk s) f)) files))"
  using assms
proof (induction files arbitrary: fs s)
  case Nil
  then show ?case by (simp add: ok_return)
next
  case (Cons f files)
  have f: "good_run n (run_of parse (the_disk s) f)" using Cons.prems by simp
  show ?case
    unfolding foldM.simps ok_bnd
  proof (rule ok_mono [OF ok_check_file [OF f]], goal_cases)
    case (1 fs1 s1)
    then have "\<forall>f\<in>set files. good_run n (run_of parse (the_disk s1) f)" using Cons.prems by simp
    from Cons.IH [OF this] show ?case by (rule ok_mono) (use 1 in auto)
  qed
qed

lemma list_directory_apply:
  "list_directory path s = (if is_directory (the_disk s) path
     then Inr (map (path_join path) (names_in (the_disk s) (resolve (cwd (the_disk s)) path)), s) else Inl Filesystem_error)"
  by (simp add: list_directory_def bnd_def m_eval directory_iterator_def)

definition files_in :: "disk \<Rightarrow> string \<Rightarrow> string list" where
  "files_in d path = map (path_join path) (names_in d (resolve (cwd d) path))"

lemma ok_list_directory:
  "ok (bnd (list_directory path) m) s Q \<longleftrightarrow> is_directory (the_disk s) path \<and> ok (m (files_in (the_disk s) path)) s Q"
  by (simp add: ok_def bnd_def list_directory_apply files_in_def)

lemma ok_CheckUnParsableFiles:
  fixes s :: corpus
  assumes "is_directory (the_disk s) path" and "\<forall>f\<in>set (files_in (the_disk s) path). good_run n (run_of parse (the_disk s) f)"
  shows "ok (CheckUnParsableFiles parse path) s (\<lambda>fs s'. the_disk s' = the_disk s \<and> console s' = console s \<and>
     rt_listener_error s' = flag_finally (rt_listener_error s) (runs_of parse (the_disk s) (files_in (the_disk s) path)) \<and>
     fs = rejected (rt_listener_error s) (map (\<lambda>f. (f, run_of parse (the_disk s) f)) (files_in (the_disk s) path)))"
  unfolding CheckUnParsableFiles_def ok_list_directory
  using assms ok_check_files [OF assms(2), of "[]"] by simp

section \<open>Counting\<close>

text \<open>The table is the list of the rule names with their numbers.\<close>

lemma update_zip:
  assumes "distinct names" and "length vs = length names" and "i < length names"
  shows "AList.update (names ! i) v (zip names vs) = zip names (vs[i := v])"
  using assms
proof (induction names arbitrary: vs i)
  case (Cons x names)
  then obtain w ws where vs: "vs = w # ws" by (cases vs) auto
  show ?case
  proof (cases i)
    case (Suc j)
    then have "names ! j \<noteq> x" using Cons.prems by auto
    then show ?thesis using Cons.IH [of ws j] Cons.prems vs Suc by simp
  qed (simp add: vs)
qed simp

lemma map_of_zip_nth':
  "distinct names \<Longrightarrow> length vs = length names \<Longrightarrow> i < length names \<Longrightarrow> map_of (zip names vs) (names ! i) = Some (vs ! i)"
  by (simp add: map_of_zip_nth)

lemma add_one_zip:
  "distinct names \<Longrightarrow> length vs = length names \<Longrightarrow> i < length names \<Longrightarrow>
     add_one (names ! i) (zip names vs) = zip names (vs[i := Suc (vs ! i)])"
  by (simp add: add_one_def map_of_zip_nth' update_zip)

lemma update_absent: "k \<notin> fst ` set al \<Longrightarrow> AList.update k v al = al @ [(k, v)]"
  by (induction al) auto

lemma zero_counts:
  assumes "distinct names" and "n \<le> length names" and "length names \<le> 2 ^ 32"
  shows "ok (foldM (zero_count names) [0 ..< n] []) s (\<lambda>m s'. s' = s \<and> m = zip (take n names) (replicate n 0))"
  using assms(2)
proof (induction n)
  case 0
  then show ?case by (simp add: ok_return)
next
  case (Suc n)
  have "unat (word_of_nat n :: IRTYPE) = n" using Suc.prems assms(3) by (simp add: unat_of_nat)
  then have name: "antlr_GetIRTypeStr names (word_of_nat n) = Inr (names ! n)"
    using Suc.prems by (simp add: antlr_GetIRTypeStr_def GetIRTypeStr_def)
  have "names ! n \<notin> set (take n names)"
    using assms(1) Suc.prems by (auto simp: in_set_conv_nth nth_eq_iff_index_eq)
  then have "AList.update (names ! n) 0 (zip (take n names) (replicate n 0)) = zip (take (Suc n) names) (replicate (Suc n) (0 :: nat))"
    using Suc.prems
    by (subst update_absent) (auto simp: take_Suc_conv_app_nth replicate_append_same dest: set_zip_leftD simp flip: replicate_append_same)
  then have step: "zero_count names n (zip (take n names) (replicate n 0)) = return (zip (take (Suc n) names) (replicate (Suc n) 0))"
    by (simp add: zero_count_def name lift_result_def fun_eq_iff bnd_def m_eval)
  have one: "foldM (zero_count names) [n] m = zero_count names n m" for m
    by (simp add: fun_eq_iff bnd_def m_eval split: sum.split)
  have "ok (foldM (zero_count names) [0 ..< n] []) s (\<lambda>m s'. s' = s \<and> m = zip (take n names) (replicate n 0))"
    using Suc by simp
  then show ?case
    unfolding upt_Suc_append [OF le0] foldM_append ok_bnd one
    by (rule ok_mono) (simp add: step ok_return)
qed

definition added :: "nat list \<Rightarrow> IRTYPE list \<Rightarrow> nat list" where
  "added vs types = map (\<lambda>i. vs ! i + count_list types (word_of_nat i)) [0 ..< length vs]"

lemma length_added [simp]: "length (added vs types) = length vs"
  by (simp add: added_def)

lemma added_Nil [simp]: "added vs [] = vs"
  by (simp add: added_def map_nth)

text \<open>Fewer rules than the number that stands for no rule.\<close>

definition names_ok :: "string list \<Rightarrow> bool" where
  "names_ok names \<longleftrightarrow> distinct names \<and> length names \<le> 0xdeadbeef"

lemma added_Cons:
  assumes "length vs \<le> 0xdeadbeef" and "ty = kUnknown \<or> unat ty < length vs"
  shows "added vs (ty # types) = added (if ty = kUnknown then vs else vs[unat ty := Suc (vs ! unat ty)]) types"
proof (rule nth_equalityI)
  fix i assume i: "i < length (added vs (ty # types))"
  then have u: "unat (word_of_nat i :: IRTYPE) = i" using assms(1) by (simp add: unat_of_nat)
  show "added vs (ty # types) ! i = added (if ty = kUnknown then vs else vs[unat ty := Suc (vs ! unat ty)]) types ! i"
  proof (cases "ty = word_of_nat i")
    case True
    then have "ty \<noteq> kUnknown" using u i assms(1) by (auto simp: kUnknown_def)
    then show ?thesis using True i u by (simp add: added_def)
  next
    case False
    then have "unat ty \<noteq> i" by auto
    then show ?thesis using False i by (simp add: added_def)
  qed
qed simp

lemma ok_count_irs:
  assumes "names_ok names" and "length vs = length names"
    and "\<forall>ir\<in>set irs. ir_type (ir_info ir) = kUnknown \<or> unat (ir_type (ir_info ir)) < length names"
  shows "ok (foldM (count_ir names) irs (zip names vs)) s (\<lambda>m s'. s' = s \<and>
     m = zip names (added vs (map (\<lambda>ir. ir_type (ir_info ir)) irs)))"
  using assms(2,3)
proof (induction irs arbitrary: vs)
  case Nil
  then show ?case by (simp add: ok_return)
next
  case (Cons ir irs)
  let ?ty = "ir_type (ir_info ir)"
  define vs' where "vs' = (if ?ty = kUnknown then vs else vs[unat ?ty := Suc (vs ! unat ?ty)])"
  have step: "count_ir names ir (zip names vs) = return (zip names vs')"
    using Cons.prems assms(1) unfolding vs'_def
    by (auto simp: count_ir_def GetUnknownType_def antlr_GetIRTypeStr_def GetIRTypeStr_def lift_result_def names_ok_def
        add_one_zip fun_eq_iff bnd_def m_eval)
  have "added vs (?ty # types) = added vs' types" for types
    unfolding vs'_def using Cons.prems assms(1) by (intro added_Cons) (simp_all add: names_ok_def)
  moreover have "length vs' = length names" using Cons.prems by (simp add: vs'_def)
  ultimately show ?case
    using Cons.IH [of vs'] Cons.prems by (simp add: ok_bnd ok_return step)
qed

text \<open>The applications of every rule in the accepted inputs: those that derive something outside literals,
  which make a node, and all of them.\<close>

definition all_applications :: "nat \<Rightarrow> parser_run list \<Rightarrow> nat list" where
  "all_applications n runs = map (\<lambda>i. \<Sum>run\<leftarrow>runs. applications (word_of_nat i) (the (pr_tree run))) [0 ..< n]"

definition rule_uses :: "nat \<Rightarrow> parser_run list \<Rightarrow> nat list" where
  "rule_uses n runs = map (\<lambda>i. \<Sum>run\<leftarrow>runs. rule_count (word_of_nat i) (the (pr_tree run))) [0 ..< n]"

lemma rule_uses_all_applications:
  "list_all2 (\<le>) (rule_uses n runs) (all_applications n runs)"
  "\<forall>run\<in>set runs. all_derive (the (pr_tree run)) \<Longrightarrow> rule_uses n runs = all_applications n runs"
proof -
  show "list_all2 (\<le>) (rule_uses n runs) (all_applications n runs)"
    by (simp add: rule_uses_def all_applications_def list_all2_conv_all_nth sum_list_mono rule_count_applications)
  assume "\<forall>run\<in>set runs. all_derive (the (pr_tree run))"
  then have "map (\<lambda>run. rule_count ty (the (pr_tree run))) runs = map (\<lambda>run. applications ty (the (pr_tree run))) runs" for ty
    by (simp add: rule_count_all)
  then show "rule_uses n runs = all_applications n runs" by (simp only: rule_uses_def all_applications_def)
qed

definition plus_uses :: "nat list \<Rightarrow> parser_run list \<Rightarrow> nat list" where
  "plus_uses vs runs = map2 (+) vs (rule_uses (length vs) runs)"

lemma length_plus_uses [simp]: "length (plus_uses vs runs) = length vs"
  by (simp add: plus_uses_def rule_uses_def)

lemma plus_uses_Nil [simp]: "plus_uses vs [] = vs"
  by (rule nth_equalityI) (simp_all add: plus_uses_def rule_uses_def)

lemma plus_uses_append: "plus_uses (plus_uses vs runs) runs' = plus_uses vs (runs @ runs')"
  by (rule nth_equalityI) (simp_all add: plus_uses_def rule_uses_def)

lemma plus_uses_zero: "plus_uses (replicate n 0) runs = rule_uses n runs"
  by (rule nth_equalityI) (simp_all add: plus_uses_def rule_uses_def)

lemma added_uses:
  assumes "\<forall>ty. ty \<noteq> kUnknown \<longrightarrow> count_list types ty = rule_count ty (the (pr_tree run))" and "length vs \<le> 0xdeadbeef"
  shows "added vs types = plus_uses vs [run]"
proof (rule nth_equalityI)
  fix i assume i: "i < length (added vs types)"
  then have "unat (word_of_nat i :: IRTYPE) = i" using assms(2) by (simp add: unat_of_nat)
  then have "word_of_nat i \<noteq> kUnknown" using i assms(2) by (auto simp: kUnknown_def)
  then show "added vs types ! i = plus_uses vs [run] ! i"
    using i assms(1) by (simp add: added_def plus_uses_def rule_uses_def)
qed simp

lemma ok_count_file:
  fixes s :: corpus
  assumes "names_ok names" and "length vs = length names" and "good_run (length names) (run_of parse (the_disk s) f)"
  shows "ok (count_file parse names f (zip names vs)) s (\<lambda>m s'. the_disk s' = the_disk s \<and> console s' = console s \<and>
     rt_listener_error s' = flag_after (rt_listener_error s) (run_of parse (the_disk s) f) \<and>
     m = zip names (plus_uses vs (accepted_runs (rt_listener_error s) [run_of parse (the_disk s) f])))"
  unfolding count_file_def read_file_def ok_bnd ok_gets
proof (rule ok_mono [OF ok_translation [of "length names"]], goal_cases)
  case 1
  then show ?case using assms(3) by (simp add: run_of_def)
next
  case (2 t s')
  let ?run = "run_of parse (the_disk s) f"
  have tr: "translates ?run s t s'" using 2 by (simp add: run_of_def)
  show ?case
  proof (cases "t = NullIR")
    case True
    then show ?thesis using tr by (simp add: ok_return translates_def corpus_more)
  next
    case False
    then have tk: "taken (rt_listener_error s) ?run" using tr by (simp add: translates_def)
    have n: "length names \<le> 2 ^ 32" "length vs \<le> 0xdeadbeef" using assms(1,2) by (simp_all add: names_ok_def)
    have cnt: "\<forall>ty. ty \<noteq> kUnknown \<longrightarrow> count_list (node_types t) ty = rule_count ty (the (pr_tree ?run))"
      using tr False by (simp add: translates_def)
    have "rules_below (length names) (the (pr_tree ?run))"
      using tk assms(3) by (auto simp: taken_def good_run_def)
    from ok_count_irs [OF assms(1,2) types_below [OF cnt this n(1) False]]
    have "ok (foldM (count_ir names) (CollectAllIRs t) (zip names vs)) s' (\<lambda>m s''. s'' = s' \<and>
        m = zip names (added vs (map (\<lambda>ir. ir_type (ir_info ir)) (CollectAllIRs t))))" .
    moreover have "added vs (map (\<lambda>ir. ir_type (ir_info ir)) (CollectAllIRs t)) = plus_uses vs [?run]"
      by (rule added_uses) (use cnt n(2) count_CollectAllIRs [OF False] in simp_all)
    ultimately show ?thesis
      using False tk tr by (auto simp: translates_def corpus_more elim!: ok_mono)
  qed
qed

lemma accepted_runs_Cons:
  "accepted_runs flag (run # runs) = accepted_runs flag [run] @ accepted_runs (flag_after flag run) runs"
  by simp

lemma ok_count_files:
  fixes s :: corpus
  assumes "names_ok names" and "length vs = length names"
    and "\<forall>f\<in>set files. good_run (length names) (run_of parse (the_disk s) f)"
  shows "ok (foldM (count_file parse names) files (zip names vs)) s (\<lambda>m s'. the_disk s' = the_disk s \<and> console s' = console s \<and>
     rt_listener_error s' = flag_finally (rt_listener_error s) (runs_of parse (the_disk s) files) \<and>
     m = zip names (plus_uses vs (accepted_runs (rt_listener_error s) (runs_of parse (the_disk s) files))))"
  using assms(2,3)
proof (induction files arbitrary: vs s)
  case Nil
  then show ?case by (simp add: ok_return)
next
  case (Cons f files)
  let ?run = "run_of parse (the_disk s) f"
  have f: "good_run (length names) ?run" using Cons.prems by simp
  show ?case
    unfolding foldM.simps ok_bnd
  proof (rule ok_mono [OF ok_count_file [OF assms(1) Cons.prems(1) f]], elim conjE, goal_cases)
    case (1 m s1)
    let ?vs = "plus_uses vs (accepted_runs (rt_listener_error s) [?run])"
    have "\<forall>f\<in>set files. good_run (length names) (run_of parse (the_disk s1) f)" using Cons.prems 1 by simp
    from Cons.IH [OF _ this, of ?vs] Cons.prems(1) show ?case
      unfolding 1(4)
      by (rule_tac ok_mono) (use 1 in \<open>auto simp: plus_uses_append simp del: accepted_runs.simps simp flip: accepted_runs_Cons\<close>)
  qed
qed

lemma ok_CountTypesInCorpus:
  fixes s :: corpus
  assumes "names_ok names" and "is_directory (the_disk s) path"
    and "\<forall>f\<in>set (files_in (the_disk s) path). good_run (length names) (run_of parse (the_disk s) f)"
  shows "ok (CountTypesInCorpus parse names path) s (\<lambda>m s'. the_disk s' = the_disk s \<and> console s' = console s \<and>
     rt_listener_error s' = flag_finally (rt_listener_error s) (runs_of parse (the_disk s) (files_in (the_disk s) path)) \<and>
     m = zip names (rule_uses (length names)
       (accepted_runs (rt_listener_error s) (runs_of parse (the_disk s) (files_in (the_disk s) path)))))"
proof -
  have z: "distinct names" "length names \<le> 2 ^ 32" using assms(1) by (simp_all add: names_ok_def)
  have r: "GetIRTypeNum names = length names" by (simp add: GetIRTypeNum_def GetRuleNum_def)
  show ?thesis
    unfolding CountTypesInCorpus_def ok_list_directory
    unfolding ok_bnd r
  proof (intro conjI assms(2), rule ok_mono [OF zero_counts [OF z(1) order_refl z(2)]], elim conjE, goal_cases)
    case (1 m s')
    then show ?case
      using ok_count_files [OF assms(1) _ assms(3), of "replicate (length names) 0"] by (simp add: plus_uses_zero)
  qed
qed

section \<open>Copying\<close>

lemma ok_copy_all:
  fixes s :: corpus
  assumes "from \<noteq> []" and "to \<noteq> []" and "\<forall>n\<in>set ns. is_name n"
    and "resolve (cwd (the_disk s)) from = kin" and "resolve (cwd (the_disk s)) to = kout" and "kout \<noteq> kin"
    and "\<forall>n\<in>set ns. \<exists>content. node_at (the_disk s) (kin @ [n]) = Some (Regular content)"
    and "node_at (the_disk s) kout = Some Directory" and "\<forall>n\<in>set ns. node_at (the_disk s) (kout @ [n]) \<noteq> Some Directory"
  shows "ok (copy_all to (map (path_join from) ns)) s (\<lambda>r s'. r = None \<and> console s' = console s \<and>
     (\<forall>k. node_at (the_disk s') k = (if k \<noteq> [] \<and> butlast k = kout \<and> last k \<in> set ns
        then node_at (the_disk s) (kin @ [last k]) else node_at (the_disk s) k)))"
  using assms(3-5,7-9)
proof (induction ns arbitrary: s)
  case Nil
  then show ?case by (simp add: ok_return)
next
  case (Cons n ns)
  let ?d = "the_disk s"
  obtain content where c: "node_at ?d (kin @ [n]) = Some (Regular content)" using Cons.prems(4) by auto
  have n: "is_name n" using Cons.prems(1) by simp
  let ?d' = "put_node (kout @ [n]) (Regular content) ?d"
  let ?s = "s\<lparr>the_disk := ?d'\<rparr>"
  have at: "node_at ?d' k = (if k = kout @ [n] then Some (Regular content) else node_at ?d k)" for k
    by (simp add: node_at_put)
  have copy: "copy_file (path_join from n) (path_join to n) ?d = Inr (True, ?d')"
    using copy_file_into [OF assms(1,2) n, of ?d content] Cons.prems c assms(6) by simp
  have "ok (copy_all to (map (path_join from) ns)) ?s (\<lambda>r s'. r = None \<and> console s' = console ?s \<and>
     (\<forall>k. node_at (the_disk s') k = (if k \<noteq> [] \<and> butlast k = kout \<and> last k \<in> set ns
        then node_at (the_disk ?s) (kin @ [last k]) else node_at (the_disk ?s) k)))"
    using Cons.prems assms(6) by (intro Cons.IH) (auto simp: at)
  then have rest: "ok (copy_all to (map (path_join from) ns)) ?s (\<lambda>r s'. r = None \<and> console s' = console s \<and>
     (\<forall>k. node_at (the_disk s') k = (if k \<noteq> [] \<and> butlast k = kout \<and> last k \<in> set (n # ns)
        then node_at ?d (kin @ [last k]) else node_at ?d k)))"
  proof (rule ok_mono, elim conjE, intro conjI allI, goal_cases)
    case (3 r s' k)
    have "k = kout @ [n] \<longleftrightarrow> k \<noteq> [] \<and> butlast k = kout \<and> last k = n" by auto
    then show ?case using 3 c assms(6) by (auto simp: at)
  qed auto
  have f: "filename (path_join from n) = n" by (rule resolve_join(3) [OF n assms(1)])
  show ?case using rest by (simp add: ok_def bnd_def m_eval f copy)
qed

text \<open>An output directory that is not the corpus: new in a directory, or one that has no directories of
  the files' names.\<close>

definition output_ok :: "disk \<Rightarrow> string \<Rightarrow> string \<Rightarrow> bool" where
  "output_ok d corpus_dir output_path \<longleftrightarrow> output_path \<noteq> [] \<and>
     (let kin = resolve (cwd d) corpus_dir; kout = resolve (cwd d) output_path
      in kout \<noteq> kin \<and>
         (case node_at d kout of
            None \<Rightarrow> node_at d (butlast kout) = Some Directory
          | Some (Regular _) \<Rightarrow> False
          | Some Directory \<Rightarrow> \<forall>n\<in>set (names_in d kin). node_at d (kout @ [n]) \<noteq> Some Directory))"

lemma ok_prepare_output:
  fixes s :: corpus
  assumes "disk_ok (the_disk s)" and "output_ok (the_disk s) corpus_dir output_path"
  shows "ok (prepare_output output_path) s (\<lambda>r s'. r = None \<and> cwd (the_disk s') = cwd (the_disk s) \<and>
     (\<forall>k. node_at (the_disk s') k = (if k = resolve (cwd (the_disk s)) output_path then Some Directory else node_at (the_disk s) k)) \<and>
     (\<forall>n\<in>set (names_in (the_disk s) (resolve (cwd (the_disk s)) corpus_dir)).
        node_at (the_disk s') (resolve (cwd (the_disk s)) output_path @ [n]) \<noteq> Some Directory))"
proof -
  let ?d = "the_disk s"
  let ?k = "resolve (cwd ?d) output_path"
  have ne: "output_path \<noteq> []" using assms(2) by (simp add: output_ok_def)
  consider (new) "node_at ?d ?k = None" "node_at ?d (butlast ?k) = Some Directory" | (old) "node_at ?d ?k = Some Directory"
      "\<forall>n\<in>set (names_in ?d (resolve (cwd ?d) corpus_dir)). node_at ?d (?k @ [n]) \<noteq> Some Directory"
    using assms(2) by (auto simp: output_ok_def Let_def split: option.splits node.splits)
  then show ?thesis
  proof cases
    case new
    have "?k \<noteq> []" using new(1) by (auto simp: node_at_def)
    moreover have "node_at ?d (?k @ [n]) = None" for n using node_below [OF assms(1), of ?k n] new(1) by fastforce
    ultimately show ?thesis
      using new ne
      by (simp add: prepare_output_def fs_exists_def status_def ok_def bnd_def m_eval create_directory_def print_line_def node_at_put)
  next
    case old
    then show ?thesis
      using ne by (auto simp: prepare_output_def fs_exists_def is_directory_def status_def ok_def bnd_def m_eval)
  qed
qed

lemma set_fold_removeAll: "set (fold removeAll xs ys) = set ys - set xs"
  by (induction xs arbitrary: ys) auto

lemma set_fold_insert: "set (fold List.insert xs ys) = set xs \<union> set ys"
  by (induction xs arbitrary: ys) auto

lemma ok_copy_parsable:
  fixes s :: corpus
  assumes "disk_ok (the_disk s)" and "is_directory (the_disk s) corpus_dir" and "output_ok (the_disk s) corpus_dir output_path"
    and "\<And>xs. set (ord xs) = set xs"
    and plain: "\<forall>n\<in>set (names_in (the_disk s) (resolve (cwd (the_disk s)) corpus_dir)).
      \<exists>content. node_at (the_disk s) (resolve (cwd (the_disk s)) corpus_dir @ [n]) = Some (Regular content)"
  shows "ok (copy_parsable ord corpus_dir output_path unparsable) s (\<lambda>r s'. r = None \<and>
     (\<forall>k. node_at (the_disk s') k =
        (if k = resolve (cwd (the_disk s)) output_path then Some Directory
         else if k \<noteq> [] \<and> butlast k = resolve (cwd (the_disk s)) output_path \<and>
           last k \<in> set (names_in (the_disk s) (resolve (cwd (the_disk s)) corpus_dir)) \<and> path_join corpus_dir (last k) \<notin> set unparsable
         then node_at (the_disk s) (resolve (cwd (the_disk s)) corpus_dir @ [last k]) else node_at (the_disk s) k)))"
proof -
  let ?d = "the_disk s"
  let ?kin = "resolve (cwd ?d) corpus_dir" and ?kout = "resolve (cwd ?d) output_path"
  have ne: "corpus_dir \<noteq> []" "output_path \<noteq> []" "?kout \<noteq> ?kin"
    using assms(2,3) by (auto simp: is_directory_def status_def output_ok_def Let_def)
  let ?files = "ord (fold removeAll unparsable (fold List.insert (files_in ?d corpus_dir) []))"
  define ns where "ns = map filename ?files"
  have names: "is_name n" if "n \<in> set (names_in ?d ?kin)" for n using names_in_ok(1) [OF assms(1) that] .
  have name: "filename (path_join corpus_dir n) = n" if "n \<in> set (names_in ?d ?kin)" for n
    by (rule resolve_join(3) [OF names [OF that] ne(1)])
  have files: "set ?files = set (files_in ?d corpus_dir) - set unparsable"
    using assms(4) by (simp add: set_fold_removeAll set_fold_insert)
  also have "\<dots> = path_join corpus_dir ` {n \<in> set (names_in ?d ?kin). path_join corpus_dir n \<notin> set unparsable}" (is "_ = _ ` ?N")
    by (auto simp: files_in_def)
  finally have files: "set ?files = path_join corpus_dir ` ?N" .
  have "(\<lambda>n. filename (path_join corpus_dir n)) ` ?N = (\<lambda>n. n) ` ?N" by (rule image_cong) (simp_all add: name)
  then have ns: "set ns = ?N" unfolding ns_def set_map files image_image by simp
  have "map (path_join corpus_dir) ns = map (\<lambda>f. f) ?files"
    unfolding ns_def map_map by (rule map_cong [OF refl]) (use name in \<open>auto simp: files\<close>)
  then have fs: "?files = map (path_join corpus_dir) ns" by simp
  show ?thesis
    unfolding copy_parsable_def ok_list_directory Let_def
    unfolding ok_bnd
  proof (intro conjI assms(2), rule ok_mono [OF ok_prepare_output [OF assms(1,3)]], elim conjE, goal_cases)
    case (1 r s1)
    then have at: "node_at (the_disk s1) k = (if k = ?kout then Some Directory else node_at ?d k)" for k by blast
    have "ok (copy_all output_path (map (path_join corpus_dir) ns)) s1 (\<lambda>r s'. r = None \<and> console s' = console s1 \<and>
      (\<forall>k. node_at (the_disk s') k = (if k \<noteq> [] \<and> butlast k = ?kout \<and> last k \<in> set ns
        then node_at (the_disk s1) (?kin @ [last k]) else node_at (the_disk s1) k)))"
    proof (rule ok_copy_all [OF ne(1,2)])
      have "?kin @ [n] \<noteq> ?kout" if "n \<in> set ns" for n
        using plain ns that assms(3) by (force simp: output_ok_def Let_def)
      then show "\<forall>n\<in>set ns. \<exists>content. node_at (the_disk s1) (?kin @ [n]) = Some (Regular content)"
        using plain ns by (simp add: at)
      show "\<forall>n\<in>set ns. node_at (the_disk s1) (?kout @ [n]) \<noteq> Some Directory" using 1 ns by blast
      show "\<forall>n\<in>set ns. is_name n" using names ns by blast
    qed (use 1 ne in simp_all)
    then have "ok (copy_all output_path ?files) s1 (\<lambda>r s'. r = None \<and> (\<forall>k. node_at (the_disk s') k =
        (if k = ?kout then Some Directory
         else if k \<noteq> [] \<and> butlast k = ?kout \<and> last k \<in> set (names_in ?d ?kin) \<and> path_join corpus_dir (last k) \<notin> set unparsable
         then node_at ?d (?kin @ [last k]) else node_at ?d k)))"
      unfolding fs
    proof (rule ok_mono, elim conjE, intro conjI allI, goal_cases)
      case (2 r s' k)
      have "?kin @ [last k] \<noteq> ?kout" if "last k \<in> set ns"
        using plain ns that assms(3) by (force simp: output_ok_def Let_def)
      moreover have "butlast j = j \<longleftrightarrow> j = []" for j :: "string list" by (cases j rule: rev_cases) auto
      ultimately show ?case using 2 ns by (auto simp: at)
    qed
    then show ?case using 1 by simp
  qed
qed

section \<open>Properties\<close>

text \<open>The parser's promises on the files of a corpus, and what it makes of each.\<close>

definition good_corpus :: "(string \<Rightarrow> parser_run) \<Rightarrow> string list \<Rightarrow> disk \<Rightarrow> string \<Rightarrow> bool" where
  "good_corpus parse names d path \<longleftrightarrow> names_ok names \<and> is_directory d path \<and>
     (\<forall>f\<in>set (files_in d path). good_run (length names) (run_of parse d f))"

definition corpus_runs :: "(string \<Rightarrow> parser_run) \<Rightarrow> disk \<Rightarrow> string \<Rightarrow> (string \<times> parser_run) list" where
  "corpus_runs parse d path = map (\<lambda>f. (f, run_of parse d f)) (files_in d path)"

lemma runs_of_corpus: "runs_of parse d (files_in d path) = map snd (corpus_runs parse d path)"
  by (simp add: corpus_runs_def o_def)

text \<open>C13: The table of \<open>CountTypesInCorpus\<close> has the rules of the grammar in order, each with the number of
  those of its applications in the parse trees of the accepted files that derive at least one token
  or literal and do not lie below a literal rule. This is at most the number of all its
  applications, and equal to it if in these trees every application derives something and no rule is
  applied below a literal. The files must be inputs whose trees the translation can take, with the
  rules of the grammar.\<close>

theorem CountTypesInCorpus_counts:
  fixes s :: corpus
  assumes "good_corpus parse names (the_disk s) path"
    and "runs = accepted_runs (rt_listener_error s) (map snd (corpus_runs parse (the_disk s) path))"
  shows "ok (CountTypesInCorpus parse names path) s (\<lambda>m s'. the_disk s' = the_disk s \<and>
     m = zip names (rule_uses (length names) runs) \<and>
     list_all2 (\<le>) (map snd m) (all_applications (length names) runs) \<and>
     ((\<forall>run\<in>set runs. all_derive (the (pr_tree run))) \<longrightarrow> m = zip names (all_applications (length names) runs)))"
proof -
  have "length (rule_uses (length names) runs) = length names" by (simp add: rule_uses_def)
  then have "map snd (zip names (rule_uses (length names) runs)) = rule_uses (length names) runs" by simp
  then show ?thesis
    using assms ok_CountTypesInCorpus [of names s path parse] rule_uses_all_applications [where n = "length names" and runs = runs]
    by (auto simp: good_corpus_def simp flip: runs_of_corpus elim!: ok_mono)
qed

lemma rejected_no_exception:
  "\<forall>(f, run)\<in>set runs. pr_tree run \<noteq> None \<Longrightarrow> rejected False runs = map fst (filter (\<lambda>(_, run). \<not> taken False run) runs)"
  by (induction runs) (auto simp: flag_after_def)

text \<open>C18: \<open>CheckUnParsableFiles\<close> lists the files whose turn finds the listener's flag up, an error or an
  empty tree; if the parser never raises its exception and the flag is down, exactly the files the parser rejects.\<close>

theorem CheckUnParsableFiles_rejects:
  fixes s :: corpus
  assumes "good_corpus parse names (the_disk s) path"
  shows "ok (CheckUnParsableFiles parse path) s (\<lambda>fs s'. the_disk s' = the_disk s \<and>
     fs = rejected (rt_listener_error s) (corpus_runs parse (the_disk s) path) \<and>
     (\<not> rt_listener_error s \<and> (\<forall>(f, run)\<in>set (corpus_runs parse (the_disk s) path). pr_tree run \<noteq> None) \<longrightarrow>
        fs = map fst (filter (\<lambda>(_, run). \<not> taken False run) (corpus_runs parse (the_disk s) path))))"
  using assms ok_CheckUnParsableFiles [of s path "length names" parse] rejected_no_exception [of "corpus_runs parse (the_disk s) path"]
  unfolding good_corpus_def corpus_runs_def by (auto elim!: ok_mono)

lemma ok_CheckMissing:
  fixes s :: corpus
  assumes "good_corpus parse names (the_disk s) path"
  shows "ok (CheckMissingTypesInCorpus parse names ord path) s (\<lambda>ts s'. the_disk s' = the_disk s)"
  unfolding CheckMissingTypesInCorpus_def ok_bnd ok_return
  using assms ok_CountTypesInCorpus [of names s path parse] by (auto simp: good_corpus_def elim!: ok_mono)

lemma ok_print_line: "the_disk s = d \<Longrightarrow> ok (print_line l) (s :: corpus) (\<lambda>_ s'. the_disk s' = d)"
  by (simp add: print_line_def ok_modify)

lemma ok_print_all: "the_disk s = d \<Longrightarrow> ok (foldM (\<lambda>x _. print_line x) xs u) (s :: corpus) (\<lambda>_ s'. the_disk s' = d)"
  by (rule ok_foldM) (simp_all add: ok_print_line)

lemma ok_print_report:
  assumes "the_disk s = d"
  shows "ok (print_report fs ts) (s :: corpus) (\<lambda>_ s'. the_disk s' = d)"
proof -
  have lines: "ok (if b then print_line l else bnd (print_line l') (\<lambda>_. foldM (\<lambda>x _. print_line x) xs ())) s
      (\<lambda>_ s'. the_disk s' = d)" if "the_disk s = d" for b xs l l' and s :: corpus
    using that by (cases b) (auto simp: ok_bnd intro!: ok_print_line ok_mono [OF ok_print_line] ok_print_all)
  show ?thesis
    unfolding print_report_def ok_bnd [of "if _ then _ else _"]
    by (rule ok_mono [OF lines [OF assms]], rule lines)
qed

text \<open>C11: Let the corpus directory hold plain files only, inputs whose trees the translation can take, and
  let the output directory be usable: another directory than the corpus, which exists and has no directory
  of the name of a corpus file, or does not exist and has a parent directory. Then the driver of the
  corpus tool ends with code 0, copies exactly the files that are not rejected, unchanged and under
  their names, and leaves everything else on the disk alone.\<close>

theorem corpus_evaluate_copies:
  fixes s :: corpus
  assumes "good_corpus parse names (the_disk s) corpus_dir" and "disk_ok (the_disk s)"
    and "output_ok (the_disk s) corpus_dir output_path" and "\<And>xs. set (ord xs) = set xs"
    and "\<forall>n\<in>set (names_in (the_disk s) (resolve (cwd (the_disk s)) corpus_dir)).
      \<exists>content. node_at (the_disk s) (resolve (cwd (the_disk s)) corpus_dir @ [n]) = Some (Regular content)"
  shows "ok (corpus_evaluate_main parse names ord corpus_dir output_path) s (\<lambda>code s'. code = 0 \<and>
     (\<forall>k. node_at (the_disk s') k =
        (if k = resolve (cwd (the_disk s)) output_path then Some Directory
         else if k \<noteq> [] \<and> butlast k = resolve (cwd (the_disk s)) output_path \<and>
           last k \<in> set (names_in (the_disk s) (resolve (cwd (the_disk s)) corpus_dir)) \<and>
           path_join corpus_dir (last k) \<notin> set (rejected (rt_listener_error s) (corpus_runs parse (the_disk s) corpus_dir))
         then node_at (the_disk s) (resolve (cwd (the_disk s)) corpus_dir @ [last k]) else node_at (the_disk s) k)))"
proof -
  have dir: "is_directory (the_disk s) corpus_dir" "corpus_dir \<noteq> []" "output_path \<noteq> []"
    using assms(1,3) by (auto simp: good_corpus_def is_directory_def status_def output_ok_def)
  have check: "ok (CheckUnParsableFiles parse corpus_dir) s (\<lambda>fs s'. the_disk s' = the_disk s \<and>
      fs = rejected (rt_listener_error s) (corpus_runs parse (the_disk s) corpus_dir))"
    using assms(1) ok_CheckUnParsableFiles [of s corpus_dir "length names" parse]
    unfolding good_corpus_def corpus_runs_def by (auto elim!: ok_mono)
  show ?thesis
    unfolding corpus_evaluate_main_def if_not_P [OF dir(2)] if_P [OF dir(3)] ok_bnd ok_gets
  proof (simp only: dir(1) not_True_eq_False if_False ok_bnd, rule ok_mono [OF check], elim conjE, goal_cases)
    case (1 fs s1)
    then have g: "good_corpus parse names (the_disk s1) corpus_dir" using assms(1) by simp
    show ?case
    proof (rule ok_mono [OF ok_CheckMissing [OF g]], goal_cases)
      case (1 ts s2)
      then have d: "the_disk s2 = the_disk s" using \<open>the_disk s1 = the_disk s\<close> by simp
      show ?case
      proof (rule ok_mono [OF ok_copy_parsable [of s2 corpus_dir output_path ord fs, unfolded d, OF assms(2) dir(1) assms(3-5)]],
          elim conjE, goal_cases)
        case (1 r s3)
        have "ok (bnd (print_report fs ts) (\<lambda>_. return 0)) s3 (\<lambda>code s'. code = 0 \<and> the_disk s' = the_disk s3)"
          unfolding ok_bnd ok_return by (rule ok_mono [OF ok_print_report [OF refl]]) simp
        then show ?case
          unfolding 1(1) option.case by (rule ok_mono) (use 1 \<open>fs = _\<close> in simp)
      qed
    qed
  qed
qed

text \<open>A configuration file without the built-in object file passes the environment check, and then
  stops the fuzzer at an assertion.\<close>

theorem check_env_misses_builtin:
  assumes "path \<noteq> []" and "ConfigFileValidate y path c = Inr (True, c)" and "y_load_file y path = Loaded config"
    and "y_sub y config ''BuiltinObjFile'' = Inr builtin" and "\<not> y_defined y builtin"
    and "y_sub y config ''IsWeakType'' = Inr weak" and "y_as_bool y weak = Inr w"
  shows "check_env_main y (Some path) c = Inr ((0, ''Your configuration looks good!''), c) \<and>
    Initialize y path c = Inl Assert_failed"
  using Initialize_needs_builtin [OF assms(2-7)] assms(1,2) by (simp add: check_env_main_def bnd_def m_eval)

section \<open>Witnesses\<close>

text \<open>Two files: one with a syntax error, the other one with the program of \<open>demo_tree\<close>.\<close>

definition demo_disk :: disk where
  "demo_disk = \<lparr>entries = [([''c''], Directory), ([''c'', ''bad''], Regular ''int''), ([''c'', ''good''], Regular ''int x = 1;'')], cwd = []\<rparr>"

definition demo_corpus :: corpus where
  "demo_corpus = runtime.extend demo_state \<lparr>the_disk = demo_disk, console = []\<rparr>"

text \<open>The same with an input that raises the parser's exception.\<close>

definition raising_corpus :: corpus where
  "raising_corpus = demo_corpus\<lparr>the_disk := demo_disk\<lparr>entries :=
     [([''c''], Directory), ([''c'', ''bad''], Regular ''$''), ([''c'', ''good''], Regular ''int x = 1;'')]\<rparr>\<rparr>"

lemma demo_fields:
  "the_disk demo_corpus = demo_disk" "\<not> rt_listener_error demo_corpus" "\<not> rt_listener_error raising_corpus"
  "cwd (the_disk raising_corpus) = []" "cwd demo_disk = []"
  by (simp_all add: demo_corpus_def raising_corpus_def runtime.defs demo_state_def demo_disk_def)

lemma demo_resolve: "resolve [] ''c'' = [''c'']" "resolve [] ''out'' = [''out'']" "resolve [] ''c/bad'' = [''c'', ''bad'']"
  "resolve [] ''c/good'' = [''c'', ''good'']"
  by code_simp+

lemma demo_files:
  "files_in demo_disk ''c'' = [''c/bad'', ''c/good'']" "files_in (the_disk raising_corpus) ''c'' = [''c/bad'', ''c/good'']"
  by (simp_all add: files_in_def demo_fields demo_resolve names_in_def)
    (simp_all add: raising_corpus_def demo_disk_def path_join_def is_absolute_def)

lemma demo_runs:
  "corpus_runs demo_parse demo_disk ''c'' = [(''c/bad'', demo_parse ''int''), (''c/good'', demo_parse ''int x = 1;'')]"
  "corpus_runs demo_parse (the_disk raising_corpus) ''c'' = [(''c/bad'', demo_parse ''$''), (''c/good'', demo_parse ''int x = 1;'')]"
  by (simp_all add: corpus_runs_def demo_files run_of_def ReadFileIntoString_def as_file_system_def status_def demo_fields
      demo_resolve node_at_def)
    (simp_all add: raising_corpus_def demo_disk_def)

lemma demo_good: "good_corpus demo_parse demo_names demo_disk ''c''" "good_corpus demo_parse demo_names (the_disk raising_corpus) ''c''"
proof -
  have names: "length demo_names = 4" "names_ok demo_names" by (simp_all add: demo_names_def names_ok_def)
  have dirs: "is_directory demo_disk ''c''" "is_directory (the_disk raising_corpus) ''c''"
    by (simp_all add: is_directory_def status_def demo_fields demo_resolve node_at_def)
      (simp_all add: raising_corpus_def demo_disk_def)
  show "good_corpus demo_parse demo_names demo_disk ''c''" "good_corpus demo_parse demo_names (the_disk raising_corpus) ''c''"
    by (simp_all add: good_corpus_def names dirs run_of_def demo_good_runs)
qed

lemma CountTypesInCorpus_counts_witness:
  "ok (CountTypesInCorpus demo_parse demo_names ''c'') demo_corpus (\<lambda>m s'.
     m = [(''program'', 1), (''type'', 1), (''name'', 1), (''literal'', 1)])"
proof -
  let ?runs = "accepted_runs (rt_listener_error demo_corpus) (map snd (corpus_runs demo_parse (the_disk demo_corpus) ''c''))"
  have "accepted_runs False (map snd (corpus_runs demo_parse demo_disk ''c'')) = [demo_parse ''int x = 1;'']"
    using demo_tree_rules(3) by (simp add: demo_runs taken_def flag_after_def demo_parse_def)
  then have runs: "?runs = [demo_parse ''int x = 1;'']" by (simp add: demo_fields)
  have "map (\<lambda>i. applications (word_of_nat i) demo_tree) [0 ..< 4] = [1, 1, 1, 1] \<and> all_derive demo_tree" by code_simp
  then have "all_applications 4 ?runs = [1, 1, 1, 1]" "\<forall>run\<in>set ?runs. all_derive (the (pr_tree run))"
    unfolding runs by (simp_all add: all_applications_def demo_parse_def)
  moreover have "length demo_names = 4" by (simp add: demo_names_def)
  ultimately have "ok (CountTypesInCorpus demo_parse demo_names ''c'') demo_corpus (\<lambda>m s'. m = zip demo_names [1, 1, 1, 1])"
    using CountTypesInCorpus_counts [of demo_parse demo_names demo_corpus "''c''", OF _ refl] demo_good(1)
    by (auto simp: demo_fields elim!: ok_mono)
  then show ?thesis by (rule ok_mono) (simp add: demo_names_def)
qed

lemma CheckUnParsableFiles_rejects_witness:
  "ok (CheckUnParsableFiles demo_parse ''c'') demo_corpus (\<lambda>fs s'. fs = [''c/bad'']) \<and>
   ok (CheckUnParsableFiles demo_parse ''c'') raising_corpus (\<lambda>fs s'. fs = [''c/bad'', ''c/good''])"
proof -
  have "rejected False (corpus_runs demo_parse demo_disk ''c'') = [''c/bad'']"
    "rejected False (corpus_runs demo_parse (the_disk raising_corpus) ''c'') = [''c/bad'', ''c/good'']"
    using demo_tree_rules(3) by (simp_all add: demo_runs taken_def flag_after_def demo_parse_def)
  then show ?thesis
    using CheckUnParsableFiles_rejects [of demo_parse demo_names demo_corpus "''c''"] demo_good
      CheckUnParsableFiles_rejects [of demo_parse demo_names raising_corpus "''c''"]
    by (auto simp: demo_fields elim!: ok_mono)
qed

lemma corpus_evaluate_copies_witness:
  "ok (corpus_evaluate_main demo_parse demo_names (\<lambda>xs. xs) ''c'' ''out'') demo_corpus (\<lambda>code s'. code = 0 \<and>
     node_at (the_disk s') [''out'', ''good''] = Some (Regular ''int x = 1;'') \<and> node_at (the_disk s') [''out'', ''bad''] = None)"
proof -
  have rej: "rejected False (corpus_runs demo_parse demo_disk ''c'') = [''c/bad'']"
    using demo_tree_rules(3) by (simp add: demo_runs taken_def flag_after_def demo_parse_def)
  have names: "names_in demo_disk [''c''] = [''bad'', ''good'']" by (simp add: names_in_def demo_disk_def)
  have d: "disk_ok demo_disk" by (auto simp: disk_ok_def demo_disk_def is_name_def node_at_def)
  have out: "output_ok demo_disk ''c'' ''out''"
    by (simp add: output_ok_def demo_fields demo_resolve) (simp add: node_at_def demo_disk_def)
  have plain: "\<forall>n\<in>set (names_in demo_disk [''c'']). \<exists>content. node_at demo_disk ([''c''] @ [n]) = Some (Regular content)"
    unfolding names by (simp add: node_at_def demo_disk_def)
  have "path_join ''c'' ''good'' \<noteq> ''c/bad''" "path_join ''c'' ''bad'' = ''c/bad''" by (simp_all add: path_join_def is_absolute_def)
  moreover have "node_at demo_disk [''c'', ''good''] = Some (Regular ''int x = 1;'')" "node_at demo_disk [''out'', ''bad''] = None"
    by (simp_all add: node_at_def demo_disk_def)
  ultimately show ?thesis
    using corpus_evaluate_copies [of demo_parse demo_names demo_corpus "''c''" "''out''" "\<lambda>xs. xs"] demo_good(1) d out plain
    by (auto simp: demo_fields demo_resolve rej names elim!: ok_mono)
qed

lemma check_env_misses_builtin_witness:
  "check_env_main (demo_yaml demo_config_no_builtin) (Some ''config.yaml'') initial_configuration =
     Inr ((0, ''Your configuration looks good!''), initial_configuration)"
proof -
  have "ConfigFileValidate (demo_yaml demo_config_no_builtin) ''config.yaml'' initial_configuration =
      Inr (True, initial_configuration)"
    by (simp add: ConfigFileValidate_def IsNodeBool_def demo_yaml_def demo_config_no_builtin_def
        bnd_def lift_result_def return_def)
  from check_env_misses_builtin [OF _ this, of demo_config_no_builtin YUndef "YScalar ''true''" True] show ?thesis
    by (simp add: demo_yaml_def demo_config_no_builtin_def)
qed

end
