(* ===== verification/Spec2Isabelle.thy ===== *)
theory Spec2Isabelle
  imports Prelude Text_Utils Ducking_Hash IR_Tree IR_Translater Frontend IR_Library Mutator
    Configuration Type_System Pointer_Types Scope_Tree Symbol_Collection Expression_Generator Variables_In_Scope
    Generation_Ends Semantic_Validator Fuzzer
    Typed_Sessions Translation_Weights Rule_Counts Disk Corpus_Tools
begin

text \<open>
  A verification library of PolyGlot, a language-agnostic fuzzer.

  The program: an input in the grammar's language is parsed and folded into a binary tree, the IR
  (\<open>srcs/antlr/ir_translater.cpp\<close>, \<open>srcs/internal/srcs/ir.cpp\<close>); the mutator
  (\<open>srcs/internal/srcs/mutate.cpp\<close>) keeps a library of such trees by node type and makes variants of a
  program by replacing one node; the validator (\<open>srcs/internal/srcs/typesystem.cpp\<close>) rebuilds the scopes
  and symbol tables of a variant (\<open>srcs/internal/srcs/var_definition.cpp\<close>) and fills the places marked
  \<open>FIXME\<close> with expressions; the fuzzer (\<open>srcs/polyglot.cc\<close>, \<open>srcs/custom_mutator.cc\<close>) hands the
  printed variants to AFL++.

  The theories, in the order of their imports:
  \<^item> \<open>Prelude\<close>: the state monad with failure, the runtime record (random stream, allocator,
    static counters), \<open>std::map\<close> and \<open>std::set\<close> as ordered lists behind the locales
    \<open>finite_map\<close> and \<open>finite_set\<close>.
  \<^item> \<open>Text_Utils\<close>, \<open>Ducking_Hash\<close>: \<open>utils.cpp\<close>. White-space normalisation, names, and the 64-bit
    hash, with the fact that it separates texts that differ in one block.
  \<^item> \<open>IR_Tree\<close>: \<open>ir.h\<close>, \<open>ir.cpp\<close>. A node is \<open>Node a i l r\<close> with its identity \<open>a\<close> (pointers are equal
    when identities are), its members \<open>i\<close> and its children; null is \<open>NullIR\<close>.
  \<^item> \<open>IR_Translater\<close>, \<open>Frontend\<close>: the fold of a parse tree into an IR, and the abstract class
    \<open>Frontend\<close> as a locale interpreted by the ANTLR frontend.
  \<^item> \<open>IR_Library\<close>, \<open>Mutator\<close>: \<open>mutate.cpp\<close>. The library is a locale \<open>ir_store\<close> with its
    interpretation; the mutator's state extends the library's.
  \<^item> \<open>Configuration\<close>: \<open>configuration.cpp\<close> over the YAML library as a parameter.
  \<^item> \<open>Type_System\<close>, \<open>Pointer_Types\<close>: the class \<open>TypeSystem\<close> of \<open>var_definition.cpp\<close>, with its pointer
    types in a theory of their own.
  \<^item> \<open>Scope_Tree\<close>, \<open>Symbol_Collection\<close>: the rest of \<open>var_definition.cpp\<close>. The scopes of a program, their
    numbering, and the symbol tables that the collection of definitions fills.
  \<^item> \<open>Expression_Generator\<close>: the class \<open>ExpressionGenerator\<close> of \<open>typesystem.cpp\<close>. The names in scope, the
    types that can be made from them, the choice and construction of an expression. \<open>Variables_In_Scope\<close>
    and \<open>Generation_Ends\<close> show which names are candidates and how a generation ends.
  \<^item> \<open>Semantic_Validator\<close>: the class \<open>SemanticValidator\<close> of \<open>typesystem.cpp\<close>, which marks, scopes and
    fixes a variant.
  \<^item> \<open>Fuzzer\<close>: \<open>polyglot.cc\<close>, \<open>custom_mutator.cc\<close>. The object that owns a mutator and a validator, the
    callbacks, and AFL++ as their client: the locale \<open>custom_mutator\<close> and the step relation \<open>afl_step\<close>
    of its calls. In a session the number of announced test cases stays in step with the queue, and
    in syntax-only mode a session does not stop.
  \<^item> \<open>Typed_Sessions\<close>: sessions with validation in a weakly typed language, over all the parts: variants
    and library keep what the validator needs, and a session stops at four kinds of error at most.
  \<^item> \<open>Translation_Weights\<close>: counting along a translation, a locale with two interpretations, the scopes
    a program opens (\<open>Fuzzer\<close>) and the nodes of a rule (\<open>Rule_Counts\<close>).
  \<^item> \<open>Rule_Counts\<close>: the types of the nodes a translation makes.
  \<^item> \<open>Disk\<close>, \<open>Corpus_Tools\<close>: \<open>srcs/utils\<close> over a model of \<open>std::filesystem\<close> (directories and plain files
    by resolved path). The rule counts are the applications in the parse
    trees that derive something, and the driver copies exactly the
    files that are not rejected.

  State is passed explicitly: an operation is a function from a record to an error or a result with
  the new record. Every assertion, failed contract, null dereference and uncaught exception is an
  error value. \<open>ok m s Q\<close> says that \<open>m\<close> returns from \<open>s\<close> with \<open>Q\<close>, \<open>post m s Q\<close> that it does so if it
  returns, \<open>only E m s Q\<close> that it does so or stops with an error in \<open>E\<close>.

  Numbers: 32- and 64-bit members are words, except the counter of type ids, a static \<open>int\<close> of the code
  that is never reset; the model counts without a bound. The two agree while the process has generated
  fewer than \<open>2 ^ 31 - 11\<close> types (\<open>gen_type_id_in_int\<close>); then the increment of the code overflows, which
  C++ leaves undefined, and nothing is claimed of such runs. The same holds of the scope counter,
  which starts anew with each program and has its bound in the statements. An integer literal is
  kept as the number \<open>std::stoi\<close> reads from it, so its text may change in translation.

  Parameters: the generated parser (a function from the input to the parse tree, the error flag and
  the exception), the grammar's rule names, the YAML library, the file system, \<open>rand()\<close> as a stream of
  numbers, the decimal printing of a \<open>double\<close>, the iteration order of \<open>unordered_map\<close>.

  Fuel: \<open>CanDeriveFrom\<close> walks at most three levels (a base type has no base types of its own, an
  invariant of the tables), \<open>get_all_types_from_compound_type\<close> at most one level more than there are
  compound types. \<open>generate_expression_by_type_core\<close> nests at most 52 deep, because its counter cuts it off
  after 50 expressions; \<open>GenerateExpression_ends\<close> proves that neither fuel is ever used up.

  Not modelled: the generated lexer and parser and the Bison frontend (commented out in the source),
  log and console output, the freeing of memory, the type inference and the operator rules (commented
  out in the source), the debugging driver \<open>antlr_tester.cpp\<close> and the fuzz target \<open>fuzz_lua.c\<close>.
\<close>

end
